(* ===== verification/Prelude.thy ===== *)
theory Prelude
  imports Main "HOL-Library.Word" "HOL-Library.AList" "HOL-Library.Sublist"
begin

text \<open>
  Shared vocabulary of the development: machine integers and byte strings, the outcome of a
  fallible operation, the hash-map model, the keyed-store interface that several components
  provide, and the generic lemmas on lists and maps they use.

  Conventions.  A Rust \<open>String\<close> or \<open>&str\<close> is the list of its UTF-8 bytes, written as a HOL
  \<open>string\<close> (a HOL \<open>char\<close> is one byte); \<open>as_bytes\<close> reads it as bytes.  A \<open>Vec<u8>\<close> or
  \<open>&[u8]\<close> is a list of 8-bit words.  A \<open>HashMap\<close> is an association list with distinct keys;
  no definition depends on the order of its entries.  Integer arithmetic is that of the
  release profile of Cargo.toml, where overflow wraps.
\<close>

section \<open>Machine integers and byte strings\<close>

type_synonym u8 = "8 word"
type_synonym u16 = "16 word"
type_synonym u32 = "32 word"
type_synonym u64 = "64 word"
type_synonym bytes = "8 word list"

named_theorems codec_simps \<open>byte encodings\<close>
named_theorems store_simps \<open>lookup after an update of a store\<close>

text \<open>\<open>str::as_bytes\<close>.\<close>

definition as_bytes :: "string \<Rightarrow> bytes" where
  "as_bytes s = map (\<lambda>c. of_nat (of_char c)) s"

text \<open>\<open>u64::to_le_bytes\<close>.\<close>

definition to_le_bytes :: "u64 \<Rightarrow> bytes" where
  "to_le_bytes x = map (\<lambda>i. ucast (drop_bit (8 * i) x)) [0..<8]"

text \<open>\<open>u64::saturating_add\<close> and \<open>u64::saturating_sub\<close>.\<close>

definition saturating_add :: "u64 \<Rightarrow> u64 \<Rightarrow> u64" where
  "saturating_add a b = (if unat a + unat b < 2 ^ 64 then a + b else - 1)"

definition saturating_sub :: "u64 \<Rightarrow> u64 \<Rightarrow> u64" where
  "saturating_sub a b = (if a < b then 0 else a - b)"

lemma of_nat_of_char_inj [simp]:
  "((of_nat (of_char c) :: u8) = of_nat (of_char d)) = (c = d)"
proof -
  have "(of_char x :: nat) < 2 ^ 8" for x :: char
    using nat_of_char_less_256 [of x] by simp
  then have "unat (of_nat (of_char x) :: u8) = of_char x" for x :: char
    by (simp add: unat_of_nat)
  then have "(of_nat (of_char c) :: u8) = of_nat (of_char d) \<Longrightarrow> (of_char c :: nat) = of_char d"
    by metis
  then show ?thesis
    by (auto dest: of_char_eq_iff [THEN iffD1])
qed

lemma as_bytes_simps [simp, codec_simps]:
  "as_bytes [] = []"
  "as_bytes (c # s) = of_nat (of_char c) # as_bytes s"
  "as_bytes (s @ t) = as_bytes s @ as_bytes t"
  "length (as_bytes s) = length s"
  by (simp_all add: as_bytes_def)

lemma as_bytes_inj [simp]: "(as_bytes s = as_bytes t) = (s = t)"
proof (induction s arbitrary: t)
  case Nil
  then show ?case by (cases t) auto
next
  case (Cons c s)
  then show ?case by (cases t) auto
qed

lemma length_to_le_bytes [simp, codec_simps]: "length (to_le_bytes x) = 8"
  by (simp add: to_le_bytes_def)

lemma to_le_bytes_nth_bit:
  assumes "n < 64"
  shows "bit (to_le_bytes x ! (n div 8)) (n mod 8) = bit x n"
proof -
  have "n div 8 < 8"
    using assms by auto
  then show ?thesis
    by (simp add: to_le_bytes_def bit_simps)
qed

lemma to_le_bytes_inj [simp]: "(to_le_bytes x = to_le_bytes y) = (x = y)"
proof
  assume "to_le_bytes x = to_le_bytes y"
  then have "bit x n = bit y n" if "n < 64" for n
    using to_le_bytes_nth_bit [OF that] by metis
  then show "x = y"
    by (intro bit_word_eqI) simp
qed simp

lemma unat_saturating_add: "unat (saturating_add a b) = min (unat a + unat b) (2 ^ 64 - 1)"
proof -
  have m: "unat (- 1 :: u64) = 2 ^ 64 - 1"
    by (simp add: unsigned_minus_1_eq_mask mask_eq_exp_minus_1)
  show ?thesis
    using unsigned_less [of a, where ?'a = nat] unsigned_less [of b, where ?'a = nat] m
    by (auto simp: saturating_add_def unat_word_ariths min_def)
qed

lemma unat_saturating_sub: "unat (saturating_sub a b) = unat a - unat b"
  by (auto simp: saturating_sub_def word_less_nat_alt unat_sub_if')

lemma le_saturating_add: "a \<le> saturating_add a b"
proof -
  have "unat a < 2 ^ 64"
    using unsigned_less [of a] by simp
  then show ?thesis
    by (simp add: word_le_nat_alt unat_saturating_add)
qed

section \<open>Outcomes\<close>

text \<open>
  A function that returns \<open>Result\<close> is modelled by a sum, \<open>Inl\<close> for the error.  Where the
  code can also panic (an assertion, an \<open>expect\<close>, a slice out of range) the result is an
  \<open>outcome\<close>, whose third value carries the panic message.
\<close>

datatype ('e, 'a) outcome = Ok 'a | Err 'e | Panic string

fun bind_outcome :: "('e, 'a) outcome \<Rightarrow> ('a \<Rightarrow> ('e, 'b) outcome) \<Rightarrow> ('e, 'b) outcome" where
  "bind_outcome (Ok x) f = f x"
| "bind_outcome (Err e) f = Err e"
| "bind_outcome (Panic m) f = Panic m"

text \<open>\<open>iter().map(f).collect::<Result<Vec<_>, _>>()\<close>: the first error wins.\<close>

fun try_map :: "('a \<Rightarrow> 'e + 'b) \<Rightarrow> 'a list \<Rightarrow> 'e + 'b list" where
  "try_map f [] = Inr []"
| "try_map f (x # xs) =
     (case f x of Inl e \<Rightarrow> Inl e
      | Inr y \<Rightarrow> (case try_map f xs of Inl e \<Rightarrow> Inl e | Inr ys \<Rightarrow> Inr (y # ys)))"

lemma try_map_Inr_iff: "(try_map f xs = Inr ys) = list_all2 (\<lambda>x y. f x = Inr y) xs ys"
proof (induction xs arbitrary: ys)
  case Nil
  then show ?case by auto
next
  case (Cons x xs)
  have "(try_map f (x # xs) = Inr ys) =
      (\<exists>y ys'. ys = y # ys' \<and> f x = Inr y \<and> try_map f xs = Inr ys')"
    by (auto split: sum.splits)
  then show ?case
    by (simp only: Cons.IH list_all2_Cons1)
qed

lemma try_map_map:
  assumes "\<And>x. x \<in> set xs \<Longrightarrow> f (g x) = Inr (h x)"
  shows "try_map f (map g xs) = Inr (map h xs)"
  using assms by (simp add: try_map_Inr_iff list_all2_conv_all_nth)

lemma try_map_length: "try_map f xs = Inr ys \<Longrightarrow> length ys = length xs"
  by (simp add: try_map_Inr_iff list_all2_lengthD)

text \<open>\<open>opt.ok_or(e)\<close>.\<close>

fun ok_or :: "'e \<Rightarrow> 'a option \<Rightarrow> 'e + 'a" where
  "ok_or e None = Inl e"
| "ok_or e (Some x) = Inr x"

section \<open>Decimal numbers in strings\<close>

text \<open>\<open>format!("{}", n)\<close> of an unsigned integer, and \<open>str::parse\<close> of one of at most \<open>ub\<close>:
  an optional plus sign, then at least one digit.\<close>

definition digit_char :: "nat \<Rightarrow> char" where
  "digit_char d = char_of (48 + d)"

fun dec :: "nat \<Rightarrow> string" where
  "dec n = (if n < 10 then [digit_char n] else dec (n div 10) @ [digit_char (n mod 10)])"

declare dec.simps [simp del]

definition char_digit :: "char \<Rightarrow> nat option" where
  "char_digit c = (let v = of_char c in if 48 \<le> v \<and> v \<le> 57 then Some (v - 48) else None)"

fun parse_digits :: "nat \<Rightarrow> string \<Rightarrow> nat option" where
  "parse_digits acc [] = Some acc"
| "parse_digits acc (c # cs) =
     (case char_digit c of None \<Rightarrow> None | Some d \<Rightarrow> parse_digits (acc * 10 + d) cs)"

definition parse_uint :: "nat \<Rightarrow> string \<Rightarrow> nat option" where
  "parse_uint ub s =
     (let ds = (case s of c # cs \<Rightarrow> if c = CHR ''+'' then cs else s | [] \<Rightarrow> [])
      in if ds = [] then None
         else case parse_digits 0 ds of
           Some v \<Rightarrow> if v \<le> ub then Some v else None
         | None \<Rightarrow> None)"

lemma char_digit_digit_char [simp]: "d < 10 \<Longrightarrow> char_digit (digit_char d) = Some d"
  by (simp add: char_digit_def digit_char_def)

lemma parse_digits_append:
  "parse_digits acc (s @ t) = (case parse_digits acc s of None \<Rightarrow> None | Some v \<Rightarrow> parse_digits v t)"
  by (induction acc s rule: parse_digits.induct) (auto split: option.splits)

lemma parse_digits_dec: "parse_digits 0 (dec n) = Some n"
proof (induction n rule: dec.induct)
  case (1 n)
  then show ?case
    by (subst dec.simps) (auto simp: parse_digits_append)
qed

lemma dec_chars: "c \<in> set (dec n) \<Longrightarrow> char_digit c \<noteq> None"
proof (induction n rule: dec.induct)
  case (1 n)
  then show ?case
    by (subst (asm) dec.simps) (auto split: if_splits)
qed

lemma dec_not_Nil [simp]: "dec n \<noteq> []"
  by (subst dec.simps) auto

lemma dec_no_sep [simp]: "CHR '':'' \<notin> set (dec n)" "CHR ''+'' \<notin> set (dec n)"
  using dec_chars [of "CHR '':''" n] dec_chars [of "CHR ''+''" n] by (auto simp: char_digit_def)

lemma parse_uint_dec: "n \<le> ub \<Longrightarrow> parse_uint ub (dec n) = Some n"
proof -
  have "(case dec n of [] \<Rightarrow> [] | c # cs \<Rightarrow> if c = CHR ''+'' then cs else dec n) = dec n"
    using dec_no_sep(2) [of n] by (cases "dec n") auto
  moreover assume "n \<le> ub"
  ultimately show ?thesis
    by (simp add: parse_uint_def parse_digits_dec)
qed

section \<open>Hexadecimal\<close>

text \<open>\<open>format!("{b:02x}")\<close> of every byte, and \<open>hex::encode\<close>.\<close>

definition hex_digit :: "nat \<Rightarrow> char" where
  "hex_digit d = (if d < 10 then char_of (48 + d) else char_of (87 + d))"

definition hex_byte :: "u8 \<Rightarrow> string" where
  "hex_byte b = [hex_digit (unat b div 16), hex_digit (unat b mod 16)]"

definition hex_encode :: "bytes \<Rightarrow> string" where
  "hex_encode bs = concat (map hex_byte bs)"

lemma hex_digit_inj: "a < 16 \<Longrightarrow> b < 16 \<Longrightarrow> hex_digit a = hex_digit b \<Longrightarrow> a = b"
  by (auto simp: hex_digit_def char_of_eq_iff take_bit_eq_mod split: if_splits)

lemma hex_byte_inj: "hex_byte a = hex_byte b \<longleftrightarrow> a = b"
proof
  assume eq: "hex_byte a = hex_byte b"
  have "unat x < 256" for x :: u8
    using unsigned_less [of x, where ?'a = nat] by simp
  then have "unat x div 16 < 16" for x :: u8
    by (simp add: less_mult_imp_div_less)
  then have "unat a div 16 = unat b div 16" "unat a mod 16 = unat b mod 16"
    using eq by (auto simp: hex_byte_def intro: hex_digit_inj)
  then show "a = b"
    by (metis div_mult_mod_eq unsigned_word_eqI)
qed simp

lemma hex_encode_simps [simp, codec_simps]:
  "hex_encode [] = []" "hex_encode (b # bs) = hex_byte b @ hex_encode bs"
  by (simp_all add: hex_encode_def)

lemma length_hex_encode [simp, codec_simps]: "length (hex_encode bs) = 2 * length bs"
  by (induction bs) (simp_all add: hex_byte_def)

lemma hex_encode_inj [simp]: "hex_encode xs = hex_encode ys \<longleftrightarrow> xs = ys"
proof (induction xs arbitrary: ys)
  case Nil
  then show ?case by (cases ys) (simp_all add: hex_byte_def)
next
  case (Cons x xs)
  have "length (hex_byte a) = length (hex_byte b)" for a b
    by (simp add: hex_byte_def)
  then show ?case
    using Cons by (cases ys) (simp_all add: hex_byte_inj append_eq_append_conv, simp add: hex_byte_def)
qed

section \<open>Hash maps\<close>

type_synonym ('k, 'v) hmap = "('k \<times> 'v) list"

abbreviation hm_get :: "('k, 'v) hmap \<Rightarrow> 'k \<Rightarrow> 'v option" where
  "hm_get \<equiv> map_of"
abbreviation hm_insert :: "'k \<Rightarrow> 'v \<Rightarrow> ('k, 'v) hmap \<Rightarrow> ('k, 'v) hmap" where
  "hm_insert \<equiv> AList.update"
abbreviation hm_remove :: "'k \<Rightarrow> ('k, 'v) hmap \<Rightarrow> ('k, 'v) hmap" where
  "hm_remove \<equiv> AList.delete"

definition hm_contains :: "('k, 'v) hmap \<Rightarrow> 'k \<Rightarrow> bool" where
  "hm_contains m k = (map_of m k \<noteq> None)"

definition hm_wf :: "('k, 'v) hmap \<Rightarrow> bool" where
  "hm_wf m = distinct (map fst m)"

lemma hm_contains_dom: "hm_contains m k = (k \<in> fst ` set m)"
  by (auto simp: hm_contains_def dom_map_of_conv_image_fst [symmetric] domIff)

lemma hm_wf_simps [simp, intro]:
  "hm_wf []"
  "hm_wf m \<Longrightarrow> hm_wf (hm_insert k v m)"
  "hm_wf m \<Longrightarrow> hm_wf (hm_remove k m)"
  by (auto simp: hm_wf_def distinct_update distinct_delete)

lemma hm_get_insert [store_simps]: "hm_get (hm_insert k v m) = (hm_get m)(k \<mapsto> v)"
  by (simp add: update_conv')

lemma hm_get_remove [store_simps]: "hm_get (hm_remove k m) = (hm_get m)(k := None)"
  by (simp add: delete_conv')

lemma hm_contains_insert [store_simps]:
  "hm_contains (hm_insert k v m) x = (x = k \<or> hm_contains m x)"
  by (auto simp: hm_contains_def hm_get_insert)

lemma hm_contains_remove [store_simps]:
  "hm_contains (hm_remove k m) x = (x \<noteq> k \<and> hm_contains m x)"
  by (auto simp: hm_contains_def hm_get_remove)

lemma hm_keys_insert: "fst ` set (hm_insert k v m) = insert k (fst ` set m)"
  by (simp add: dom_update)

lemma hm_len_insert: "length (hm_insert k v m) = (if hm_contains m k then length m else Suc (length m))"
  by (induction m) (auto simp: hm_contains_def)

lemma hm_len_remove:
  assumes "hm_wf m" "hm_contains m k"
  shows "length (hm_remove k m) = length m - 1"
proof -
  have "map fst (hm_remove k m) = remove1 k (map fst m)"
    using assms(1) by (simp add: hm_wf_def delete_keys distinct_remove1_removeAll)
  moreover have "k \<in> set (map fst m)"
    using assms(2) by (simp add: hm_contains_dom)
  ultimately show ?thesis
    by (metis length_map length_remove1)
qed

end
