(* ===== verification/Keyed_Store.thy ===== *)
theory Keyed_Store
  imports Prelude
begin

text \<open>
  The interface of a store of values under keys, which the vault's key list, the registries,
  the rotation metadata, the sealed-blob cache and the revocation list all provide: what a
  lookup returns after a put and after a delete, and the invariant both keep.  The lemmas of the
  locale are proved once and reach each component through its interpretation.
\<close>

locale keyed_store =
  fixes get :: "'s \<Rightarrow> 'k \<Rightarrow> 'v option"
    and put :: "'k \<Rightarrow> 'v \<Rightarrow> 's \<Rightarrow> 's"
    and del :: "'k \<Rightarrow> 's \<Rightarrow> 's"
    and wf :: "'s \<Rightarrow> bool"
  assumes get_put: "wf s \<Longrightarrow> get (put k v s) = (get s)(k \<mapsto> v)"
    and get_del: "wf s \<Longrightarrow> get (del k s) = (get s)(k := None)"
    and wf_put: "wf s \<Longrightarrow> wf (put k v s)"
    and wf_del: "wf s \<Longrightarrow> wf (del k s)"
begin

lemma get_put_same: "wf s \<Longrightarrow> get (put k v s) k = Some v"
  by (simp add: get_put)

lemma get_put_other: "wf s \<Longrightarrow> x \<noteq> k \<Longrightarrow> get (put k v s) x = get s x"
  by (simp add: get_put)

lemma get_del_same: "wf s \<Longrightarrow> get (del k s) k = None"
  by (simp add: get_del)

lemma get_del_other: "wf s \<Longrightarrow> x \<noteq> k \<Longrightarrow> get (del k s) x = get s x"
  by (simp add: get_del)

lemma put_shadows: "wf s \<Longrightarrow> get (put k w (put k v s)) = get (put k w s)"
  by (simp add: get_put wf_put)

lemma del_after_put: "wf s \<Longrightarrow> get (del k (put k v s)) = get (del k s)"
  by (simp add: get_put get_del wf_put)

text \<open>Loading a list of entries one by one: a later entry wins over an earlier one.\<close>

lemma wf_puts: "wf s \<Longrightarrow> wf (foldl (\<lambda>s (k, v). put k v s) s kvs)"
  by (induction kvs arbitrary: s) (auto simp: wf_put)

lemma get_puts: "wf s \<Longrightarrow> get (foldl (\<lambda>s (k, v). put k v s) s kvs) = get s ++ map_of (rev kvs)"
proof (induction kvs arbitrary: s)
  case Nil
  then show ?case by simp
next
  case (Cons kv kvs)
  obtain k v where kv: "kv = (k, v)" by (cases kv)
  have "get (foldl (\<lambda>s (k, v). put k v s) s (kv # kvs)) = get (put k v s) ++ map_of (rev kvs)"
    using Cons.IH [OF wf_put [OF Cons.prems], of k v] kv by simp
  also have "\<dots> = (get s)(k \<mapsto> v) ++ map_of (rev kvs)"
    using Cons.prems by (simp add: get_put)
  also have "\<dots> = get s ++ map_of (rev (kv # kvs))"
    using kv by (auto simp: map_add_def fun_eq_iff split: option.splits)
  finally show ?case .
qed

lemma get_puts_distinct:
  assumes "wf s" "distinct (map fst kvs)"
  shows "get (foldl (\<lambda>s (k, v). put k v s) s kvs) = get s ++ map_of kvs"
proof -
  have "map_of (rev kvs) = map_of kvs"
    using assms(2) by (subst map_of_inject_set) (simp_all add: rev_map [symmetric])
  then show ?thesis
    by (simp add: get_puts [OF assms(1)])
qed

end

interpretation hmap: keyed_store hm_get hm_insert hm_remove hm_wf
  by unfold_locales (auto simp: store_simps)

end
