(* ===== verification/Lagrange.thy ===== *)
theory Lagrange
  imports Prelude
begin

text \<open>
  Lagrange interpolation over an arbitrary field, proved from the linear-factor lemma, without
  a polynomial type: a polynomial is its list of coefficients, lowest degree first, as in
  \<open>shamir.rs\<close>.
\<close>

fun peval :: "'a::field list \<Rightarrow> 'a \<Rightarrow> 'a" where
  "peval [] x = 0"
| "peval (c # cs) x = c + x * peval cs x"

definition interpolate :: "'a::field set \<Rightarrow> ('a \<Rightarrow> 'a) \<Rightarrow> 'a \<Rightarrow> 'a" where
  "interpolate A f z = (\<Sum>i\<in>A. f i * (\<Prod>j\<in>A - {i}. (z - j) / (i - j)))"

lemma peval_linear_factor:
  "\<exists>qs. length qs = length cs \<and> (cs \<noteq> [] \<longrightarrow> last qs = last cs) \<and>
    (\<forall>x. peval (c # cs) x = peval (c # cs) a + (x - a) * peval qs x)"
proof (induction cs arbitrary: c)
  case Nil
  show ?case by simp
next
  case (Cons d ds)
  obtain qs where len: "length qs = length ds" "ds \<noteq> [] \<longrightarrow> last qs = last ds"
    and q: "\<And>x. peval (d # ds) x = peval (d # ds) a + (x - a) * peval qs x"
    using Cons.IH [of d] by blast
  let ?p = "peval (d # ds) a"
  have step: "peval (c # d # ds) x = peval (c # d # ds) a + (x - a) * peval (?p # qs) x" for x
  proof -
    have "peval (c # d # ds) x = c + x * peval (d # ds) x"
      by (rule peval.simps(2))
    also have "peval (d # ds) x = ?p + (x - a) * peval qs x"
      by (rule q)
    also have "c + x * (?p + (x - a) * peval qs x) = (c + a * ?p) + (x - a) * (?p + x * peval qs x)"
      by (simp only: algebra_simps)
    finally show ?thesis by (simp only: peval.simps)
  qed
  show ?case
  proof (intro exI conjI allI)
    show "length (?p # qs) = length (d # ds)" using len by simp
    show "d # ds \<noteq> [] \<longrightarrow> last (?p # qs) = last (d # ds)" using len by (cases ds) auto
  qed (rule step)
qed

lemma interpolate_cong: "(\<And>i. i \<in> A \<Longrightarrow> f i = g i) \<Longrightarrow> interpolate A f z = interpolate A g z"
  unfolding interpolate_def by (intro sum.cong) simp_all

lemma interpolate_add: "interpolate A (\<lambda>x. f x + g x) z = interpolate A f z + interpolate A g z"
  by (simp add: interpolate_def ring_distribs sum.distrib)

lemma interpolate_scale: "interpolate A (\<lambda>x. c * f x) z = c * interpolate A f z"
  by (simp add: interpolate_def sum_distrib_left mult.assoc)

lemma interpolate_shift:
  assumes fin: "finite A" and a: "a \<in> A"
  shows "interpolate A (\<lambda>x. (x - a) * g x) z = (z - a) * interpolate (A - {a}) g z"
proof -
  have summand: "(i - a) * g i * (\<Prod>j\<in>A - {i}. (z - j) / (i - j)) =
      (z - a) * (g i * (\<Prod>j\<in>A - {a} - {i}. (z - j) / (i - j)))" if i: "i \<in> A - {a}" for i
  proof -
    let ?P = "\<Prod>j\<in>A - {a} - {i}. (z - j) / (i - j)"
    have "A - {i} = insert a (A - {a} - {i})"
      using a i by auto
    then have "(\<Prod>j\<in>A - {i}. (z - j) / (i - j)) = (z - a) / (i - a) * ?P"
      using fin by simp
    moreover have "(i - a) * g i * ((z - a) / (i - a) * ?P) = (z - a) * (g i * ?P)"
      using i by simp
    ultimately show ?thesis by simp
  qed
  have "interpolate A (\<lambda>x. (x - a) * g x) z =
      (\<Sum>i\<in>A - {a}. (i - a) * g i * (\<Prod>j\<in>A - {i}. (z - j) / (i - j)))"
    unfolding interpolate_def by (subst sum.remove [OF fin a]) simp
  also have "\<dots> = (\<Sum>i\<in>A - {a}. (z - a) * (g i * (\<Prod>j\<in>A - {a} - {i}. (z - j) / (i - j))))"
    by (intro sum.cong refl summand)
  also have "\<dots> = (z - a) * interpolate (A - {a}) g z"
    by (simp add: interpolate_def sum_distrib_left)
  finally show ?thesis .
qed

lemma interpolate_one: "finite A \<Longrightarrow> A \<noteq> {} \<Longrightarrow> interpolate A (\<lambda>_. 1) z = 1"
proof (induction "card A" arbitrary: A rule: less_induct)
  case less
  obtain a where a: "a \<in> A" using less.prems by auto
  show ?case
  proof (cases "A = {a}")
    case True
    then show ?thesis by (simp add: interpolate_def)
  next
    case False
    then obtain b where b: "b \<in> A" "b \<noteq> a" using a by auto
    have nb: "A \<noteq> {b}" using a b by auto
    have rec: "interpolate (A - {x}) (\<lambda>_. 1) z = 1" if "x \<in> A" "A \<noteq> {x}" for x
    proof (rule less.hyps)
      show "card (A - {x}) < card A"
        using that less.prems(1) by (rule_tac card_Diff1_less)
      show "finite (A - {x})" "A - {x} \<noteq> {}"
        using that less.prems(1) by auto
    qed
    have lin: "interpolate A (\<lambda>x. x - c) z = z - c" if "c \<in> A" "A \<noteq> {c}" for c
      using interpolate_shift [OF less.prems(1) that(1), of "\<lambda>_. 1" z] rec [OF that] by simp
    have "interpolate A (\<lambda>_. 1) z * (b - a) = interpolate A (\<lambda>x. (b - a) * 1) z"
      using interpolate_scale [of A "b - a" "\<lambda>_. 1" z] by (simp only: mult.commute)
    also have "\<dots> = interpolate A (\<lambda>x. (x - a) + (- 1) * (x - b)) z"
      by (simp add: algebra_simps)
    also have "\<dots> = (z - a) - (z - b)"
      using lin [OF a False] lin [OF b(1) nb]
      by (simp only: interpolate_add interpolate_scale) auto
    also have "\<dots> = 1 * (b - a)" by simp
    finally show ?thesis
      using b by (simp only: mult_cancel_right) simp
  qed
qed

lemma interpolate_linear_factor:
  assumes "finite A" "a \<in> A" "\<And>x. f x = f a + (x - a) * g x"
  shows "interpolate A f z = f a + (z - a) * interpolate (A - {a}) g z"
proof -
  have "interpolate A f z = interpolate A (\<lambda>x. f a * 1 + (x - a) * g x) z"
    by (intro interpolate_cong) (simp only: mult_1_right assms(3) [symmetric])
  moreover have "A \<noteq> {}"
    using assms(2) by auto
  ultimately show ?thesis
    using interpolate_one [OF assms(1)]
    by (simp only: interpolate_add interpolate_scale interpolate_shift [OF assms(1,2)]) simp
qed

lemma interpolate_peval:
  "finite A \<Longrightarrow> A \<noteq> {} \<Longrightarrow> length cs \<le> card A \<Longrightarrow> interpolate A (peval cs) z = peval cs z"
proof (induction "length cs" arbitrary: A cs)
  case 0
  then show ?case by (simp add: interpolate_def)
next
  case (Suc n)
  obtain c ds where cs: "cs = c # ds" "length ds = n"
    using Suc.hyps(2) by (cases cs) auto
  obtain a where a: "a \<in> A" using Suc.prems by auto
  obtain qs where len: "length qs = length ds"
    and q: "\<And>x. peval cs x = peval cs a + (x - a) * peval qs x"
    using peval_linear_factor [of ds c a] cs by blast
  have rest: "interpolate (A - {a}) (peval qs) z = peval qs z"
  proof (cases "A - {a} = {}")
    case True
    then have "A = {a}" using a by auto
    then have "card A = 1" by simp
    then have "qs = []" using Suc.prems(3) cs len by simp
    then show ?thesis by (simp add: interpolate_def)
  next
    case False
    then show ?thesis
      using Suc.prems a cs len by (intro Suc.hyps(1)) (auto simp: card_Diff_singleton)
  qed
  have "interpolate A (peval cs) z = peval cs a + (z - a) * peval qs z"
    unfolding interpolate_linear_factor [OF Suc.prems(1) a q] rest by (rule refl)
  also have "\<dots> = peval cs z" using q [of z] by simp
  finally show ?case .
qed

text \<open>One node too few: the value misses the polynomial by its leading coefficient times the product of
  the distances to the nodes.\<close>

lemma interpolate_short:
  "finite A \<Longrightarrow> card A = length cs \<Longrightarrow>
    interpolate A (peval (cs @ [c])) z = peval (cs @ [c]) z - c * (\<Prod>a\<in>A. z - a)"
proof (induction "length cs" arbitrary: A cs)
  case 0
  then show ?case
    by (simp add: interpolate_def)
next
  case (Suc n)
  obtain d ds where cs: "cs = d # ds" "length ds = n"
    using Suc.hyps(2) by (cases cs) auto
  obtain a where a: "a \<in> A"
    using Suc.prems Suc.hyps(2) by fastforce
  obtain qs where qs: "length qs = Suc n" "last qs = c"
    "\<And>x. peval (cs @ [c]) x = peval (cs @ [c]) a + (x - a) * peval qs x"
    using peval_linear_factor [of "ds @ [c]" d a] cs by auto
  have q: "butlast qs @ [c] = qs"
    using qs(1,2) append_butlast_last_id [of qs] by (cases "qs = []") simp_all
  have "interpolate (A - {a}) (peval (butlast qs @ [c])) z =
      peval (butlast qs @ [c]) z - c * (\<Prod>b\<in>A - {a}. z - b)"
    using Suc.prems a cs qs(1) by (intro Suc.hyps(1)) (auto simp: card_Diff_singleton)
  then have "interpolate A (peval (cs @ [c])) z =
      peval (cs @ [c]) a + (z - a) * (peval qs z - c * (\<Prod>b\<in>A - {a}. z - b))"
    unfolding q by (subst interpolate_linear_factor [OF Suc.prems(1) a qs(3)]) simp
  also have "\<dots> = peval (cs @ [c]) z - c * ((z - a) * (\<Prod>b\<in>A - {a}. z - b))"
    by (subst qs(3)) (simp only: algebra_simps)
  finally show ?case
    using prod.remove [OF Suc.prems(1) a, of "\<lambda>b. z - b"] by simp
qed

end
