(* ===== verification/GF251.thy ===== *)
theory GF251
  imports Lagrange
begin

text \<open>
  The prime field GF(251) as a type, an instance of \<open>field\<close>, so that the interpolation theorem
  of \<open>Lagrange\<close> applies to it.  Fermat's little theorem for 251 is checked by
  evaluation; it is the justification of the exponent \<open>PRIME - 2\<close> of \<open>gf_inv\<close>.
\<close>

typedef gf251 = "{0..<251 :: int}"
  morphisms gf_rep gf_abs
proof
  show "0 \<in> {0..<251 :: int}" by simp
qed

setup_lifting type_definition_gf251

text \<open>
  Fermat's little theorem for 251: the residues up to 15 are evaluated; a larger \<open>x\<close> is
  reduced by \<open>251 = q * x + r\<close>, where both \<open>q\<close> and \<open>r\<close> are smaller than \<open>x\<close>.
\<close>

definition fermat_ok :: "int \<Rightarrow> bool" where
  "fermat_ok x = (x ^ 250 mod 251 = 1)"

lemma fermat_ok_small: "list_all fermat_ok [1, 2, 3, 4, 5, 6, 7, 8, 9, 10, 11, 12, 13, 14, 15]"
proof -
  have e: "x ^ 250 = (((x * x) ^ 5) ^ 5) ^ 5" for x :: int
    by (simp only: power2_eq_square [symmetric] power_mult [symmetric]) simp
  have "fermat_ok x = ((((x * x) ^ 5 mod 251) ^ 5 mod 251) ^ 5 mod 251 = 1)" for x
    by (simp only: fermat_ok_def e power_mod)
  then show ?thesis by simp
qed

lemma no_small_divisor_251:
  fixes q :: int
  assumes "q dvd 251" "0 < q" "q < 16"
  shows "q = 1"
proof -
  have "q \<in> set [1, 2, 3, 4, 5, 6, 7, 8, 9, 10, 11, 12, 13, 14, 15]"
    using assms(2,3) by (simp, arith)
  moreover have "list_all (\<lambda>q :: int. q dvd 251 \<longrightarrow> q = 1) [1, 2, 3, 4, 5, 6, 7, 8, 9, 10, 11, 12, 13, 14, 15]"
    by simp
  ultimately show ?thesis
    using assms(1) by (simp only: list_all_iff)
qed

text \<open>One division step: Fermat for the quotient and the remainder of 251 gives it for the divisor.\<close>

lemma fermat_step:
  assumes "q * x + r = 251" "fermat_ok q" "fermat_ok r"
  shows "fermat_ok x"
proof -
  have "(q * x) ^ 250 mod 251 = (251 - r) ^ 250 mod 251"
    using assms(1) by (simp only: eq_diff_eq [symmetric])
  also have "\<dots> = (- r) ^ 250 mod 251"
    by (metis mod_add_self1 power_mod uminus_add_conv_diff add.commute)
  also have "\<dots> = 1"
    using assms(3) by (simp add: fermat_ok_def)
  finally have "(q ^ 250 mod 251) * (x ^ 250) mod 251 = 1"
    by (simp only: power_mult_distrib mod_mult_left_eq)
  then show ?thesis
    using assms(2) by (simp add: fermat_ok_def)
qed

lemma fermat_251:
  fixes x :: int
  assumes "0 < x" "x < 251"
  shows "fermat_ok x"
  using assms
proof (induction "nat x" arbitrary: x rule: less_induct)
  case less
  show ?case
  proof (cases "x < 16")
    case True
    then have "x \<in> set [1, 2, 3, 4, 5, 6, 7, 8, 9, 10, 11, 12, 13, 14, 15]"
      using less.prems by (simp, arith)
    then show ?thesis
      using fermat_ok_small by (simp only: list_all_iff)
  next
    case False
    define q r where "q = 251 div x" and "r = 251 mod x"
    have qr: "q * x + r = 251" by (simp add: q_def r_def)
    have "251 div x \<le> 251 div 16"
      using False by (intro zdiv_mono2) auto
    then have q: "0 < q" "q < 16"
      using less.prems by (simp_all add: q_def pos_imp_zdiv_pos_iff)
    have r: "0 \<le> r" "r < x" using less.prems by (simp_all add: r_def)
    have "r \<noteq> 0"
    proof
      assume "r = 0"
      then have "q dvd 251" using qr by (metis add.right_neutral dvd_triv_left)
      then have "q = 1" using q by (rule no_small_divisor_251)
      then show False using qr \<open>r = 0\<close> less.prems by simp
    qed
    then have "fermat_ok r" "fermat_ok q"
      using less.hyps [of r] less.hyps [of q] q r False less.prems by auto
    then show ?thesis
      by (intro fermat_step [OF qr])
  qed
qed
instantiation gf251 :: field
begin

lift_definition zero_gf251 :: gf251 is 0 by simp
lift_definition one_gf251 :: gf251 is 1 by simp
lift_definition plus_gf251 :: "gf251 \<Rightarrow> gf251 \<Rightarrow> gf251" is "\<lambda>x y. (x + y) mod 251" by simp
lift_definition minus_gf251 :: "gf251 \<Rightarrow> gf251 \<Rightarrow> gf251" is "\<lambda>x y. (x - y) mod 251" by simp
lift_definition uminus_gf251 :: "gf251 \<Rightarrow> gf251" is "\<lambda>x. (- x) mod 251" by simp
lift_definition times_gf251 :: "gf251 \<Rightarrow> gf251 \<Rightarrow> gf251" is "\<lambda>x y. (x * y) mod 251" by simp
lift_definition inverse_gf251 :: "gf251 \<Rightarrow> gf251" is "\<lambda>x. x ^ 249 mod 251" by simp

definition divide_gf251 :: "gf251 \<Rightarrow> gf251 \<Rightarrow> gf251" where
  "divide_gf251 x y = x * inverse y"

instance
proof
  fix a b c :: gf251
  show "a * b * c = a * (b * c)"
    by transfer (simp add: mod_simps mult.assoc)
  show "a * b = b * a"
    by transfer (simp add: mult.commute)
  show "1 * a = a"
    by transfer simp
  show "a + b + c = a + (b + c)"
    by transfer (simp add: mod_simps add.assoc)
  show "a + b = b + a"
    by transfer (simp add: add.commute)
  show "0 + a = a"
    by transfer simp
  show "- a + a = 0"
    by transfer (simp add: mod_simps)
  show "a - b = a + - b"
    by transfer (simp add: mod_simps)
  show "(a + b) * c = a * c + b * c"
    by transfer (simp add: mod_simps ring_distribs)
  show "(0 :: gf251) \<noteq> 1"
    by transfer simp
  show "a div b = a * inverse b"
    by (rule divide_gf251_def)
  show "inverse (0 :: gf251) = 0"
    by transfer simp
  show "a \<noteq> 0 \<Longrightarrow> inverse a * a = 1"
  proof transfer
    fix x :: int
    assume "x \<in> {0..<251}" "x \<noteq> 0"
    then have "x ^ 250 mod 251 = 1"
      using fermat_251 [of x] by (auto simp: fermat_ok_def)
    moreover have "x ^ 249 * x = x ^ 250"
      by (simp add: power_Suc2 [symmetric])
    ultimately show "x ^ 249 mod 251 * x mod 251 = 1"
      by (simp add: mod_mult_left_eq)
  qed
qed

end

text \<open>Reading a natural number as a field element.\<close>

lemma gf_rep_of_nat: "gf_rep (of_nat n) = int n mod 251"
proof (induction n)
  case 0
  then show ?case by (simp add: zero_gf251.rep_eq)
next
  case (Suc n)
  then show ?case
    by (simp add: plus_gf251.rep_eq one_gf251.rep_eq mod_simps)
qed

lemma of_nat_gf_eq_iff: "((of_nat m :: gf251) = of_nat n) = (m mod 251 = n mod 251)"
  by (simp add: gf_rep_inject [symmetric] gf_rep_of_nat flip: of_nat_mod zmod_int)
     (metis nat_int zmod_int of_nat_numeral)

lemma of_nat_gf_mod [simp]: "(of_nat (n mod 251) :: gf251) = of_nat n"
  by (simp add: of_nat_gf_eq_iff)

lemma of_nat_gf_inj: "m < 251 \<Longrightarrow> n < 251 \<Longrightarrow> ((of_nat m :: gf251) = of_nat n) = (m = n)"
  by (simp add: of_nat_gf_eq_iff)

lemma of_nat_gf_inverse: "(of_nat (n ^ 249 mod 251) :: gf251) = inverse (of_nat n)"
  by (simp only: gf_rep_inject [symmetric] gf_rep_of_nat inverse_gf251.rep_eq zmod_int
      of_nat_power of_nat_numeral mod_mod_trivial power_mod)

end
