(* ===== verification/Shamir.thy ===== *)
theory Shamir
  imports GF251
begin

text \<open>
  \<open>src/shamir.rs\<close>: (t, n) threshold sharing of a byte string over GF(251).  The arithmetic is
  that of the source, on 16-bit words; the lemmas show that nothing overflows on the inputs
  the code produces, that \<open>gf_inv\<close> is the field inverse, and that any \<open>t\<close> distinct shares
  reconstruct the secret.  The random bytes of \<open>get_random_bytes\<close> are the argument \<open>rand\<close>:
  \<open>rand b i\<close> is byte \<open>i\<close> of the buffer drawn for byte \<open>b\<close> of the secret.
\<close>

section \<open>Model\<close>

definition PRIME :: u16 where
  "PRIME = 251"

record share =
  sh_index :: u8
  sh_data :: bytes

text \<open>\<open>getrandom::fill\<close> fills the buffer with the bytes drawn.\<close>

definition get_random_bytes :: "(nat \<Rightarrow> u8) \<Rightarrow> nat \<Rightarrow> bytes" where
  [simp]: "get_random_bytes draw n = map draw [0..<n]"

text \<open>The loop of \<open>gf_inv\<close>: square and multiply on \<open>(result, base, exp)\<close>.\<close>

function gf_inv_loop :: "u16 \<Rightarrow> u16 \<Rightarrow> u16 \<Rightarrow> u16" where
  "gf_inv_loop result base exp =
     (if 0 < exp
      then gf_inv_loop (if exp mod 2 = 1 then (result * base) mod PRIME else result)
             ((base * base) mod PRIME) (exp div 2)
      else result)"
  by pat_completeness auto
termination
  by (relation "measure (\<lambda>(_, _, exp). unat exp)")
     (auto simp: unat_div word_less_nat_alt)

declare gf_inv_loop.simps [simp del]

definition gf_inv :: "u8 \<Rightarrow> (string, u8) outcome" where
  "gf_inv a = (if a = 0 then Panic ''Cannot invert zero in GF(251)''
     else Ok (ucast (gf_inv_loop 1 (ucast a) (PRIME - 2))))"

text \<open>The polynomial of one secret byte, and its evaluation at \<open>x\<close>.\<close>

definition share_coeffs :: "u8 \<Rightarrow> nat \<Rightarrow> (nat \<Rightarrow> u8) \<Rightarrow> bytes" where
  "share_coeffs b threshold rnd =
     b # map (\<lambda>r. (r mod (ucast PRIME - 1)) + 1) (get_random_bytes rnd (threshold - 1))"

fun eval_loop :: "u16 \<Rightarrow> u16 \<Rightarrow> u16 \<Rightarrow> bytes \<Rightarrow> u16" where
  "eval_loop x y x_pow [] = y"
| "eval_loop x y x_pow (c # cs) =
     eval_loop x ((y + (ucast c * x_pow) mod PRIME) mod PRIME) ((x_pow * x) mod PRIME) cs"

definition share_byte :: "u8 \<Rightarrow> bytes \<Rightarrow> u8" where
  "share_byte idx cs = ucast (eval_loop (ucast idx) 0 1 cs)"

definition split :: "bytes \<Rightarrow> nat \<Rightarrow> nat \<Rightarrow> (nat \<Rightarrow> nat \<Rightarrow> u8) \<Rightarrow> (string, share list) outcome" where
  "split secret threshold num_shares rand =
     (if threshold < 2 then Panic ''Threshold must be >= 2''
      else if num_shares < threshold then Panic ''Shares must be >= threshold''
      else if 250 < num_shares then Panic ''Shares must be <= 250 in GF(251)''
      else if \<not> list_all (\<lambda>b. b < ucast PRIME) secret then Panic
        (''Secret bytes must all be < 251 (GF(251) field limit). '' @
         ''For arbitrary binary data, split into ASCII-safe chunks first.'')
      else Ok (map (\<lambda>i. \<lparr>sh_index = of_nat (i + 1),
                 sh_data = map (\<lambda>(byte_idx, b).
                   share_byte (of_nat (i + 1)) (share_coeffs b threshold (rand byte_idx)))
                   (enumerate 0 secret)\<rparr>) [0..<num_shares]))"

text \<open>The inner loop of \<open>reconstruct\<close>: the Lagrange basis polynomial of share \<open>i\<close> at 0.\<close>

fun basis_loop :: "nat \<Rightarrow> u16 \<Rightarrow> (nat \<times> share) list \<Rightarrow> u16 \<Rightarrow> u16 \<Rightarrow> u16 \<times> u16" where
  "basis_loop i xi [] num den = (num, den)"
| "basis_loop i xi ((j, s) # rest) num den =
     (if i = j then basis_loop i xi rest num den
      else (let xj = ucast (sh_index s) in
        basis_loop i xi rest
          ((num * ((PRIME - xj) mod PRIME)) mod PRIME)
          ((den * ((xi + PRIME - xj) mod PRIME)) mod PRIME)))"

fun interp_loop ::
  "(nat \<times> share) list \<Rightarrow> nat \<Rightarrow> (nat \<times> share) list \<Rightarrow> u16 \<Rightarrow> (string, u16) outcome" where
  "interp_loop shares byte_idx [] acc = Ok acc"
| "interp_loop shares byte_idx ((i, s) # rest) acc =
     (if length (sh_data s) \<le> byte_idx then Panic ''index out of bounds''
      else
        (let xi = ucast (sh_index s); yi = ucast (sh_data s ! byte_idx);
             (num, den) = basis_loop i xi shares 1 1
         in bind_outcome (gf_inv (ucast den)) (\<lambda>inv.
              let coef = (num * ucast inv) mod PRIME;
                  term = (coef * yi) mod PRIME
              in interp_loop shares byte_idx rest ((acc + term) mod PRIME))))"

fun reconstruct_bytes :: "share list \<Rightarrow> nat list \<Rightarrow> (string, bytes) outcome" where
  "reconstruct_bytes shares [] = Ok []"
| "reconstruct_bytes shares (b # bs) =
     bind_outcome (interp_loop (enumerate 0 shares) b (enumerate 0 shares) 0) (\<lambda>r.
       bind_outcome (reconstruct_bytes shares bs) (\<lambda>rs. Ok (ucast r # rs)))"

definition reconstruct :: "share list \<Rightarrow> (string, bytes) outcome" where
  "reconstruct shares =
     (if shares = [] then Panic ''Need at least one share''
      else reconstruct_bytes shares [0..<length (sh_data (shares ! 0))])"

section \<open>The word arithmetic computes in the field\<close>

abbreviation g16 :: "u16 \<Rightarrow> gf251" where
  "g16 x \<equiv> unsigned x"
abbreviation g8 :: "u8 \<Rightarrow> gf251" where
  "g8 b \<equiv> unsigned b"

named_theorems gf_simps \<open>field value of a word operation\<close>

lemma unat_u8 [simp]: "unat (b :: u8) < 256"
  using unsigned_less [of b, where ?'a = nat] by simp

lemma unat_PRIME [simp]: "unat PRIME = 251"
  by (simp add: PRIME_def)

lemma unat_ucast_8_16 [simp]: "unat (ucast (b :: u8) :: u16) = unat b"
  by (simp add: unsigned_ucast_eq take_bit_nat_eq_self order.strict_trans [OF unat_u8])

lemma unat_ucast_16_8: "unat x < 256 \<Longrightarrow> unat (ucast (x :: u16) :: u8) = unat x"
  by (simp add: unsigned_ucast_eq take_bit_nat_eq_self)

lemma mod_PRIME_less [simp]: "unat (x mod PRIME) < 251"
  by (simp add: unat_mod)

lemma g16_unat: "g16 x = of_nat (unat x)" and g8_unat: "g8 b = of_nat (unat b)"
  by simp_all

lemma g16_ucast [simp]: "g16 (ucast b) = g8 b"
  unfolding g16_unat g8_unat by (simp only: unat_ucast_8_16)

lemma g8_ucast: "unat x < 256 \<Longrightarrow> g8 (ucast x) = g16 x"
  unfolding g16_unat g8_unat by (simp only: unat_ucast_16_8)

lemma g16_mod [gf_simps]: "g16 (x mod PRIME) = g16 x"
proof -
  have "g16 (x mod PRIME) = of_nat (unat x mod 251)"
    unfolding g16_unat by (simp only: unat_mod unat_PRIME)
  then show ?thesis by simp
qed

lemma g16_mult [gf_simps]:
  assumes "unat a * unat b < 65536"
  shows "g16 (a * b) = g16 a * g16 b"
proof -
  have "unat (a * b) = unat a * unat b"
    using assms by (simp add: unat_word_ariths)
  then show ?thesis
    unfolding g16_unat by (simp only: of_nat_mult)
qed

lemma g16_add [gf_simps]:
  assumes "unat a + unat b < 65536"
  shows "g16 (a + b) = g16 a + g16 b"
proof -
  have "unat (a + b) = unat a + unat b"
    using assms by (simp add: unat_word_ariths)
  then show ?thesis
    unfolding g16_unat by (simp only: of_nat_add)
qed

lemma small_mult: "a < 256 \<Longrightarrow> b < 256 \<Longrightarrow> a * b < (65536 :: nat)"
  using mult_strict_mono [of a 256 b 256] by (cases "a = 0") auto

lemma of_nat_251: "(of_nat 251 :: gf251) = 0"
  using of_nat_gf_eq_iff [of 251 0] by simp

lemma gf_251 [simp]: "(251 :: gf251) = 0"
  using of_nat_251 by simp

lemma g16_diff_PRIME [gf_simps]:
  assumes "unat xi < 256" "unat xj \<le> 251"
  shows "g16 (xi + PRIME - xj) = g16 xi - g16 xj"
proof -
  have "unat (xi + PRIME) = unat xi + 251"
    using assms by (simp add: unat_word_ariths)
  then have "unat (xi + PRIME - xj) = unat xi + 251 - unat xj"
    using assms by (simp add: unat_sub_if')
  then have "g16 (xi + PRIME - xj) = of_nat (unat xi + 251 - unat xj)"
    unfolding g16_unat by (simp only:)
  also have "\<dots> = of_nat (unat xi + 251) - of_nat (unat xj)"
    using assms by (intro of_nat_diff) simp
  finally show ?thesis
    by simp
qed

lemma g16_PRIME_minus [gf_simps]: "unat xj \<le> 251 \<Longrightarrow> g16 (PRIME - xj) = - g16 xj"
  using g16_diff_PRIME [of 0 xj] by simp

lemma square_multiply:
  fixes r b :: "'a::comm_monoid_mult"
  shows "(if odd e then r * b else r) * (b * b) ^ (e div 2) = r * b ^ e"
proof -
  have sq: "(b * b) ^ (e div 2) = b ^ (2 * (e div 2))"
    by (simp add: power_mult power2_eq_square)
  show ?thesis
  proof (cases "odd e")
    case True
    then obtain k where "e = 2 * k + 1" by (elim oddE)
    then show ?thesis using sq by (simp add: mult.assoc)
  next
    case False
    then show ?thesis by (simp add: sq)
  qed
qed

lemma gf_inv_loop_correct:
  assumes "unat result < 251" "unat base < 256"
  shows "unat (gf_inv_loop result base exp) < 251 \<and>
    g16 (gf_inv_loop result base exp) = g16 result * g16 base ^ unat exp"
  using assms
proof (induction result base exp rule: gf_inv_loop.induct)
  case (1 result base exp)
  show ?case
  proof (cases "0 < exp")
    case False
    then show ?thesis
      using "1.prems" by (subst (1 2) gf_inv_loop.simps) (auto simp: word_gt_0)
  next
    case True
    let ?r = "if exp mod 2 = 1 then (result * base) mod PRIME else result"
    let ?b = "(base * base) mod PRIME"
    have par: "(exp mod 2 = 1) = odd (unat exp)"
      by (simp add: word_unat_eq_iff unat_mod odd_iff_mod_2_eq_one)
    have r: "g16 ?r = (if odd (unat exp) then g16 result * g16 base else g16 result)"
      using "1.prems" by (auto simp: gf_simps small_mult par)
    have b: "g16 ?b = g16 base * g16 base"
      using "1.prems" by (simp add: gf_simps small_mult)
    have ih: "unat (gf_inv_loop ?r ?b (exp div 2)) < 251 \<and>
        g16 (gf_inv_loop ?r ?b (exp div 2)) = g16 ?r * g16 ?b ^ (unat exp div 2)"
      using "1.IH" [OF True] "1.prems" less_trans [OF mod_PRIME_less, of 256] by (auto simp: unat_div)
    have "g16 ?r * g16 ?b ^ (unat exp div 2) = g16 result * g16 base ^ unat exp"
      by (simp only: r b square_multiply)
    then show ?thesis
      using True ih by (simp add: gf_inv_loop.simps [of result base exp])
  qed
qed

lemma gf_inv_correct:
  assumes "a \<noteq> 0"
  obtains v where "gf_inv a = Ok v" "unat v < 251" "g8 v = inverse (g8 a)"
proof -
  let ?x = "gf_inv_loop 1 (ucast a) (PRIME - 2)"
  have e: "unat (PRIME - 2) = 249"
    by (simp add: PRIME_def)
  have x: "unat ?x < 251" "g16 ?x = g8 a ^ 249"
    using gf_inv_loop_correct [of 1 "ucast a" "PRIME - 2"] e by simp_all
  have "g8 a ^ 249 = inverse (g8 a)"
    using of_nat_gf_inverse [of "unat a"] by simp
  with x have "g8 (ucast ?x) = inverse (g8 a)" "unat (ucast ?x :: u8) < 251"
    by (simp_all add: unat_ucast_16_8 g8_ucast)
  then show ?thesis
    using assms by (intro that) (simp_all add: gf_inv_def)
qed

lemma eval_loop_correct:
  assumes "unat x < 256" "unat x_pow < 251" "unat y < 251"
  shows "unat (eval_loop x y x_pow cs) < 251 \<and>
    g16 (eval_loop x y x_pow cs) = g16 y + g16 x_pow * peval (map g8 cs) (g16 x)"
  using assms
proof (induction cs arbitrary: y x_pow)
  case Nil
  then show ?case by simp
next
  case (Cons c cs)
  let ?y = "(y + (ucast c * x_pow) mod PRIME) mod PRIME"
  have "g16 ?y = g16 y + g8 c * g16 x_pow"
    using Cons.prems mod_PRIME_less [of "ucast c * x_pow"]
    by (simp add: gf_simps small_mult del: mod_PRIME_less)
  moreover have "g16 ((x_pow * x) mod PRIME) = g16 x_pow * g16 x"
    using Cons.prems by (simp add: gf_simps small_mult)
  ultimately show ?case
    using Cons.IH [of "(x_pow * x) mod PRIME" ?y] Cons.prems by (simp add: algebra_simps)
qed

lemma share_byte_correct:
  "unat (share_byte idx cs) < 251"
  "g8 (share_byte idx cs) = peval (map g8 cs) (g8 idx)"
  using eval_loop_correct [of "ucast idx" 1 0 cs]
  by (simp_all add: share_byte_def unat_ucast_16_8 g8_ucast)

section \<open>The reconstruction loops\<close>

text \<open>The nodes of a share list: every index is in the range \<open>split\<close> produces.\<close>

definition small_indices :: "(nat \<times> share) list \<Rightarrow> bool" where
  "small_indices ss = list_all (\<lambda>(j, s). unat (sh_index s) \<le> 250) ss"

abbreviation node :: "share \<Rightarrow> gf251" where
  "node s \<equiv> g8 (sh_index s)"

lemma basis_loop_correct:
  assumes "small_indices ss" "unat xi < 256" "unat num < 251" "unat den < 251"
  shows "case basis_loop i xi ss num den of (n, d) \<Rightarrow>
    unat n < 251 \<and> unat d < 251 \<and>
    g16 n = g16 num * (\<Prod>(j, s)\<leftarrow>ss. if i = j then 1 else - node s) \<and>
    g16 d = g16 den * (\<Prod>(j, s)\<leftarrow>ss. if i = j then 1 else g16 xi - node s)"
  using assms
proof (induction i xi ss num den rule: basis_loop.induct)
  case (1 i xi num den)
  then show ?case by simp
next
  case (2 i xi j s rest num den)
  let ?xj = "ucast (sh_index s) :: u16"
  have idx: "unat ?xj \<le> 251" and rest: "small_indices rest"
    using "2.prems"(1) by (simp_all add: small_indices_def)
  show ?case
  proof (cases "i = j")
    case True
    then show ?thesis
      using "2.IH"(1) [OF True rest] "2.prems" by simp
  next
    case False
    let ?n = "(num * ((PRIME - ?xj) mod PRIME)) mod PRIME"
    let ?d = "(den * ((xi + PRIME - ?xj) mod PRIME)) mod PRIME"
    have small: "unat num * unat ((PRIME - ?xj) mod PRIME) < 65536"
        "unat den * unat ((xi + PRIME - ?xj) mod PRIME) < 65536"
      using "2.prems" less_trans [OF mod_PRIME_less, of 256] by (intro small_mult; simp)+
    have "g16 ?n = g16 num * - node s"
      using small(1) idx by (simp add: gf_simps)
    moreover have "g16 ?d = g16 den * (g16 xi - node s)"
      using small(2) idx "2.prems"(2) by (simp add: gf_simps)
    ultimately show ?thesis
      using "2.IH"(2) [OF False refl rest "2.prems"(2)] False
      by (simp add: Let_def mult.assoc split: prod.splits)
  qed
qed

text \<open>The sum a run of the outer loop adds to the accumulator, in the field.\<close>

definition basis_at :: "(nat \<times> share) list \<Rightarrow> nat \<Rightarrow> share \<Rightarrow> gf251" where
  "basis_at ss i s = (\<Prod>(j, s')\<leftarrow>ss. if i = j then 1 else - node s') *
     inverse (\<Prod>(j, s')\<leftarrow>ss. if i = j then 1 else node s - node s')"

lemma interp_loop_correct:
  assumes "small_indices ss" "unat acc < 251"
    and "\<And>i s. (i, s) \<in> set rest \<Longrightarrow> byte_idx < length (sh_data s) \<and>
      (\<Prod>(j, s')\<leftarrow>ss. if i = j then 1 else node s - node s') \<noteq> 0"
  shows "\<exists>r. interp_loop ss byte_idx rest acc = Ok r \<and> unat r < 251 \<and>
    g16 r = g16 acc + (\<Sum>(i, s)\<leftarrow>rest. basis_at ss i s * g8 (sh_data s ! byte_idx))"
  using assms(2,3)
proof (induction rest arbitrary: acc)
  case Nil
  then show ?case by simp
next
  case (Cons q rest)
  obtain i s where q: "q = (i, s)" by (cases q)
  let ?y = "sh_data s ! byte_idx"
  have len: "byte_idx < length (sh_data s)"
    and nz: "(\<Prod>(j, s')\<leftarrow>ss. if i = j then 1 else node s - node s') \<noteq> 0"
    using Cons.prems(2) [of i s] q by auto
  obtain num den where nd: "basis_loop i (ucast (sh_index s)) ss 1 1 = (num, den)"
    by (cases "basis_loop i (ucast (sh_index s)) ss 1 1")
  have b: "unat num < 251" "unat den < 251"
      "g16 num = (\<Prod>(j, s')\<leftarrow>ss. if i = j then 1 else - node s')"
      "g16 den = (\<Prod>(j, s')\<leftarrow>ss. if i = j then 1 else node s - node s')"
    using basis_loop_correct [OF assms(1), of "ucast (sh_index s)" 1 1 i, unfolded g16_ucast] nd by simp_all
  have g8den: "g8 (ucast den) = g16 den"
    using b(2) by (simp add: g8_ucast)
  then have "(ucast den :: u8) \<noteq> 0"
    using nz b(4) by auto
  then obtain inv where inv: "gf_inv (ucast den) = Ok inv" "unat inv < 251" "g8 inv = inverse (g16 den)"
    using g8den by (metis gf_inv_correct)
  let ?c = "(num * ucast inv) mod PRIME"
  let ?t = "(?c * ucast ?y) mod PRIME"
  have "g16 ?c = basis_at ss i s"
    using b inv by (simp add: gf_simps small_mult basis_at_def)
  moreover have "unat ?c * unat (ucast ?y :: u16) < 65536"
    using less_trans [OF mod_PRIME_less, of 256] by (intro small_mult) simp_all
  ultimately have "g16 ?t = basis_at ss i s * g8 ?y"
    by (simp add: gf_simps)
  moreover have "unat acc + unat ?t < 65536"
    using Cons.prems(1) mod_PRIME_less [of "?c * ucast ?y"] by linarith
  ultimately have acc: "g16 ((acc + ?t) mod PRIME) = g16 acc + basis_at ss i s * g8 ?y"
    by (simp add: gf_simps)
  have "interp_loop ss byte_idx (q # rest) acc = interp_loop ss byte_idx rest ((acc + ?t) mod PRIME)"
    using len nd inv(1) q by (simp add: Let_def)
  moreover have "\<exists>r. interp_loop ss byte_idx rest ((acc + ?t) mod PRIME) = Ok r \<and> unat r < 251 \<and>
      g16 r = g16 ((acc + ?t) mod PRIME) + (\<Sum>(i, s)\<leftarrow>rest. basis_at ss i s * g8 (sh_data s ! byte_idx))"
    using Cons.prems(2) by (intro Cons.IH) auto
  ultimately show ?case
    using acc q by (auto simp: add.assoc)
qed

text \<open>
  With distinct indices the accumulated sum is Lagrange interpolation at 0 over the nodes.
\<close>

lemma prod_list_enumerate:
  "(\<Prod>(j, s)\<leftarrow>enumerate 0 ss. f j s) = (\<Prod>j<length ss. f j (ss ! j) :: 'a::comm_monoid_mult)"
  by (simp add: prod.list_conv_set_nth nth_enumerate_eq lessThan_atLeast0)

lemma sum_list_enumerate:
  "(\<Sum>(j, s)\<leftarrow>enumerate 0 ss. f j s) = (\<Sum>j<length ss. f j (ss ! j) :: 'a::comm_monoid_add)"
  by (simp add: sum_list_sum_nth nth_enumerate_eq lessThan_atLeast0)

lemma prod_if_skip:
  "finite A \<Longrightarrow> (\<Prod>j\<in>A. if i = j then 1 else f j) = (\<Prod>j\<in>A - {i}. f j :: 'a::comm_monoid_mult)"
  by (rule prod.mono_neutral_cong_right) auto

lemma basis_at_enumerate:
  assumes "i < length ss"
  shows "basis_at (enumerate 0 ss) i (ss ! i) =
    (\<Prod>j\<in>{..<length ss} - {i}. (0 - node (ss ! j)) / (node (ss ! i) - node (ss ! j)))"
  by (simp add: basis_at_def prod_list_enumerate prod_if_skip divide_inverse
      flip: prod_inversef prod.distrib)

lemma interp_sum_interpolate:
  assumes inj: "inj_on (\<lambda>i. node (ss ! i)) {..<length ss}"
    and val: "\<And>s. s \<in> set ss \<Longrightarrow> v s = f (node s)"
  shows "(\<Sum>(i, s)\<leftarrow>enumerate 0 ss. basis_at (enumerate 0 ss) i s * v s) =
    interpolate ((\<lambda>i. node (ss ! i)) ` {..<length ss}) f 0"
proof -
  let ?I = "{..<length ss}"
  let ?x = "\<lambda>i. node (ss ! i)"
  have img: "?x ` ?I - {?x i} = ?x ` (?I - {i})" if "i \<in> ?I" for i
    using inj that by (auto simp: inj_on_def)
  have "interpolate (?x ` ?I) f 0 =
      (\<Sum>i\<in>?I. f (?x i) * (\<Prod>j\<in>?x ` ?I - {?x i}. (0 - j) / (?x i - j)))"
    unfolding interpolate_def by (subst sum.reindex [OF inj]) simp
  also have "\<dots> = (\<Sum>i\<in>?I. f (?x i) * (\<Prod>j\<in>?I - {i}. (0 - ?x j) / (?x i - ?x j)))"
    using inj by (intro sum.cong refl) (simp add: img prod.reindex [OF inj_on_subset [OF inj]])
  also have "\<dots> = (\<Sum>i\<in>?I. basis_at (enumerate 0 ss) i (ss ! i) * v (ss ! i))"
    by (intro sum.cong refl) (simp add: basis_at_enumerate val mult.commute)
  finally show ?thesis
    by (simp add: sum_list_enumerate)
qed

section \<open>Correctness of sharing\<close>

lemma split_Ok_iff:
  "split secret threshold num_shares rand = Ok shares \<longleftrightarrow>
    2 \<le> threshold \<and> threshold \<le> num_shares \<and> num_shares \<le> 250 \<and>
    list_all (\<lambda>b. unat b < 251) secret \<and>
    shares = map (\<lambda>i. \<lparr>sh_index = of_nat (i + 1),
        sh_data = map (\<lambda>(byte_idx, b).
          share_byte (of_nat (i + 1)) (share_coeffs b threshold (rand byte_idx)))
          (enumerate 0 secret)\<rparr>) [0..<num_shares]"
proof -
  have "(b < ucast PRIME) = (unat b < 251)" for b :: u8
    by (simp add: word_less_nat_alt PRIME_def)
  then show ?thesis
    by (auto simp: split_def simp del: upt_Suc of_nat_Suc)
qed

lemma unat_index: "i < 250 \<Longrightarrow> unat (of_nat (Suc i) :: u8) = Suc i"
  by (simp add: unat_of_nat del: of_nat_Suc)

lemma share_of_split:
  assumes "split secret threshold num_shares rand = Ok shares" "s \<in> set shares"
  obtains i where "i < num_shares" "i < 250" "sh_index s = of_nat (Suc i)" "unat (sh_index s) = Suc i"
    "length (sh_data s) = length secret"
    "\<And>b. b < length secret \<Longrightarrow> sh_data s ! b =
       share_byte (sh_index s) (share_coeffs (secret ! b) threshold (rand b))"
proof -
  from assms(1) have shares: "shares = map (\<lambda>i. \<lparr>sh_index = of_nat (i + 1),
      sh_data = map (\<lambda>(byte_idx, b).
        share_byte (of_nat (i + 1)) (share_coeffs b threshold (rand byte_idx)))
        (enumerate 0 secret)\<rparr>) [0..<num_shares]" and n: "num_shares \<le> 250"
    by (simp_all add: split_Ok_iff del: upt_Suc of_nat_Suc)
  from assms(2) obtain i where i: "i < num_shares" and s: "s = \<lparr>sh_index = of_nat (i + 1),
      sh_data = map (\<lambda>(byte_idx, b).
        share_byte (of_nat (i + 1)) (share_coeffs b threshold (rand byte_idx)))
        (enumerate 0 secret)\<rparr>"
    unfolding shares by (auto simp del: upt_Suc of_nat_Suc)
  show ?thesis
    using i n by (intro that [of i]) (auto simp: s unat_index nth_enumerate_eq simp del: of_nat_Suc)
qed

lemma share_shape:
  assumes "split secret threshold num_shares rand = Ok shares" "s \<in> set shares"
  shows "length (sh_data s) = length secret" "unat (sh_index s) \<le> 250" "0 < unat (sh_index s)"
    and "b < length secret \<Longrightarrow> sh_data s ! b =
      share_byte (sh_index s) (share_coeffs (secret ! b) threshold (rand b))"
  using share_of_split [OF assms] by (metis, metis Suc_leI, metis zero_less_Suc, metis)

lemma node_inj_on_shares:
  assumes "split secret threshold num_shares rand = Ok shares"
    and "s \<in> set shares" "s' \<in> set shares" "node s = node s'"
  shows "s = s'"
proof -
  obtain i where i: "i < 250" "unat (sh_index s) = Suc i" "length (sh_data s) = length secret"
    "\<And>b. b < length secret \<Longrightarrow> sh_data s ! b =
       share_byte (sh_index s) (share_coeffs (secret ! b) threshold (rand b))"
    using share_of_split [OF assms(1,2)] by metis
  obtain j where j: "j < 250" "unat (sh_index s') = Suc j" "length (sh_data s') = length secret"
    "\<And>b. b < length secret \<Longrightarrow> sh_data s' ! b =
       share_byte (sh_index s') (share_coeffs (secret ! b) threshold (rand b))"
    using share_of_split [OF assms(1,3)] by metis
  have "(of_nat (Suc i) :: gf251) = of_nat (Suc j)"
    using assms(4) unfolding g8_unat i(2) j(2) .
  then have "Suc i = Suc j"
    using i(1) j(1) by (subst (asm) of_nat_gf_inj) simp_all
  then have "sh_index s = sh_index s'"
    using i(2) j(2) by (simp add: word_unat_eq_iff)
  moreover from this have "sh_data s = sh_data s'"
    using i j by (intro nth_equalityI) simp_all
  ultimately show ?thesis
    by (intro share.equality) simp_all
qed

lemma length_share_coeffs: "0 < threshold \<Longrightarrow> length (share_coeffs b threshold rnd) = threshold"
  by (simp add: share_coeffs_def)

lemma g8_inj: "unat a < 251 \<Longrightarrow> unat b < 251 \<Longrightarrow> (g8 a = g8 b) = (a = b)"
  unfolding g8_unat by (simp only: of_nat_gf_inj word_unat_eq_iff)

lemma peval_coeffs_0: "peval (map g8 (share_coeffs b threshold rnd)) 0 = g8 b"
  by (simp add: share_coeffs_def)

lemma reconstruct_bytesI:
  assumes "\<And>b. b \<in> set bs \<Longrightarrow>
    \<exists>r. interp_loop (enumerate 0 ss) b (enumerate 0 ss) 0 = Ok r \<and> ucast r = v b"
  shows "reconstruct_bytes ss bs = Ok (map v bs)"
  using assms
proof (induction bs)
  case Nil
  then show ?case by simp
next
  case (Cons b bs)
  obtain r where "interp_loop (enumerate 0 ss) b (enumerate 0 ss) 0 = Ok r" "ucast r = v b"
    using Cons.prems by auto
  then show ?case
    using Cons by simp
qed

lemma sub_nodes_inj:
  assumes "split secret threshold num_shares rand = Ok shares" "set sub \<subseteq> set shares" "distinct sub"
  shows "inj_on (\<lambda>i. node (sub ! i)) {..<length sub}"
proof (rule inj_onI)
  fix i j
  assume "i \<in> {..<length sub}" "j \<in> {..<length sub}" "node (sub ! i) = node (sub ! j)"
  moreover from this have "sub ! i \<in> set shares" "sub ! j \<in> set shares"
    using assms(2) by auto
  ultimately show "i = j"
    using node_inj_on_shares [OF assms(1), of "sub ! i" "sub ! j"] assms(3) by (simp add: nth_eq_iff_index_eq)
qed

lemma sub_small_indices:
  assumes "split secret threshold num_shares rand = Ok shares" "set sub \<subseteq> set shares"
  shows "small_indices (enumerate 0 sub)"
  unfolding small_indices_def list_all_iff
proof clarify
  fix j s
  assume "(j, s) \<in> set (enumerate 0 sub)"
  then have "s \<in> set shares"
    using assms(2) nth_mem by (fastforce simp: in_set_enumerate_eq)
  then show "unat (sh_index s) \<le> 250"
    by (rule share_shape(2) [OF assms(1)])
qed

text \<open>Whatever the number of shares, the loop interpolates the polynomial of the byte at zero.\<close>

lemma interp_loop_interpolates:
  assumes sp: "split secret threshold num_shares rand = Ok shares"
    and sub: "set sub \<subseteq> set shares" "distinct sub"
    and b: "b < length secret"
  shows "\<exists>r. interp_loop (enumerate 0 sub) b (enumerate 0 sub) 0 = Ok r \<and> unat r < 251 \<and>
    g16 r = interpolate (node ` set sub) (peval (map g8 (share_coeffs (secret ! b) threshold (rand b)))) 0"
proof -
  let ?E = "enumerate 0 sub"
  let ?cs = "map g8 (share_coeffs (secret ! b) threshold (rand b))"
  have in_shares: "s \<in> set shares" if "s \<in> set sub" for s
    using that sub(1) by auto
  note inj = sub_nodes_inj [OF sp sub(1,2)] and small = sub_small_indices [OF sp sub(1)]
  have good: "b < length (sh_data s) \<and>
      (\<Prod>(j, s')\<leftarrow>?E. if i = j then 1 else node s - node s') \<noteq> 0" if "(i, s) \<in> set ?E" for i s
  proof
    have s: "i < length sub" "s = sub ! i"
      using that by (auto simp: in_set_enumerate_eq)
    then show "b < length (sh_data s)"
      using share_shape(1) [OF sp in_shares] b by simp
    have "node (sub ! i) - node (sub ! j) \<noteq> 0" if "j < length sub" "j \<noteq> i" for j
      using inj_onD [OF inj, of i j] that s by auto
    then show "(\<Prod>(j, s')\<leftarrow>?E. if i = j then 1 else node s - node s') \<noteq> 0"
      using s by (simp add: prod_list_enumerate)
  qed
  have val: "g8 (sh_data s ! b) = peval ?cs (node s)" if "s \<in> set sub" for s
    using share_shape(4) [OF sp in_shares [OF that] b] by (simp only: share_byte_correct(2))
  obtain r where r: "interp_loop ?E b ?E 0 = Ok r" "unat r < 251"
    "g16 r = (\<Sum>(i, s)\<leftarrow>?E. basis_at ?E i s * g8 (sh_data s ! b))"
    using interp_loop_correct [OF small _ good, of 0 ?E] by auto
  have "g16 r = interpolate ((\<lambda>i. node (sub ! i)) ` {..<length sub}) (peval ?cs) 0"
    unfolding r(3)
    by (rule interp_sum_interpolate [OF inj, of "\<lambda>s. g8 (sh_data s ! b)"]) (rule val)
  also have "(\<lambda>i. node (sub ! i)) ` {..<length sub} = node ` set sub"
    by (auto simp: set_conv_nth)
  finally show ?thesis
    using r(1,2) by blast
qed

lemma card_nodes:
  assumes "split secret threshold num_shares rand = Ok shares" "set sub \<subseteq> set shares" "distinct sub"
  shows "card (node ` set sub) = length sub"
proof -
  have "inj_on node (set sub)"
    using node_inj_on_shares [OF assms(1)] assms(2) by (auto simp: inj_on_def)
  then show ?thesis
    using assms(3) by (simp add: card_image distinct_card)
qed

lemma interp_loop_recovers:
  assumes sp: "split secret threshold num_shares rand = Ok shares"
    and sub: "set sub \<subseteq> set shares" "distinct sub" "threshold \<le> length sub"
    and b: "b < length secret"
  shows "\<exists>r. interp_loop (enumerate 0 sub) b (enumerate 0 sub) 0 = Ok r \<and> ucast r = secret ! b"
proof -
  let ?cs = "map g8 (share_coeffs (secret ! b) threshold (rand b))"
  have t: "2 \<le> threshold" "unat (secret ! b) < 251"
    using sp b by (auto simp: split_Ok_iff list_all_length)
  obtain r where r: "interp_loop (enumerate 0 sub) b (enumerate 0 sub) 0 = Ok r" "unat r < 251"
    "g16 r = interpolate (node ` set sub) (peval ?cs) 0"
    using interp_loop_interpolates [OF sp sub(1,2) b] by blast
  have "interpolate (node ` set sub) (peval ?cs) 0 = peval ?cs 0"
    using t sub by (intro interpolate_peval) (auto simp: card_nodes [OF sp sub(1,2)] length_share_coeffs)
  then have "g8 (ucast r) = g8 (secret ! b)"
    using r(2,3) by (simp add: g8_ucast peval_coeffs_0)
  then have "ucast r = secret ! b"
    using r(2) t(2) by (subst (asm) g8_inj) (simp_all add: unat_ucast_16_8)
  then show ?thesis using r(1) by blast
qed

lemma reconstruct_split_core:
  assumes "split secret threshold num_shares rand = Ok shares"
    and "set sub \<subseteq> set shares" "distinct sub" "threshold \<le> length sub"
  shows "reconstruct sub = Ok secret"
proof -
  have "2 \<le> threshold"
    using assms(1) by (simp add: split_Ok_iff)
  then have "sub \<noteq> []"
    using assms(4) by auto
  then have ne: "sub \<noteq> []" "sub ! 0 \<in> set shares"
    using assms(2) by (auto intro: nth_mem subsetD)
  have "length (sh_data (sub ! 0)) = length secret"
    by (rule share_shape(1) [OF assms(1) ne(2)])
  moreover have "reconstruct_bytes sub [0..<length secret] = Ok (map ((!) secret) [0..<length secret])"
    by (intro reconstruct_bytesI interp_loop_recovers [OF assms]) simp
  ultimately show ?thesis
    using ne(1) by (simp add: reconstruct_def map_nth)
qed

text \<open>
  C1. Any list of at least \<open>threshold\<close> distinct shares produced by \<open>split\<close>, in any order,
  reconstructs exactly the secret, whatever the random bytes: no call panics.  (That no u16
  operation loses a bit is in the lemmas on the loops.)
\<close>

theorem reconstruct_split:
  assumes "split secret threshold num_shares rand = Ok shares"
    and "set sub \<subseteq> set shares" "distinct sub" "threshold \<le> length sub"
  shows "reconstruct sub = Ok secret"
  by (rule reconstruct_split_core [OF assms])

lemma split_example:
  "split [104, 105] 2 3 (\<lambda>_ _. 9) = Ok [\<lparr>sh_index = 1, sh_data = [114, 115]\<rparr>,
     \<lparr>sh_index = 2, sh_data = [124, 125]\<rparr>, \<lparr>sh_index = 3, sh_data = [134, 135]\<rparr>]"
  by code_simp

theorem reconstruct_split_witness:
  "reconstruct [\<lparr>sh_index = 3, sh_data = [134, 135]\<rparr>, \<lparr>sh_index = 1, sh_data = [114, 115]\<rparr>]
     = Ok [104, 105]"
  by (rule reconstruct_split [OF split_example]) simp_all

text \<open>
  With threshold 2 no share byte ever equals the secret byte, because the code draws the
  random coefficient from 1..250 and never 0: one share, below the threshold, rules out a value
  of every secret byte, so the scheme is not perfectly hiding.
\<close>

theorem threshold_two_share_excludes_secret:
  assumes "split secret 2 num_shares rand = Ok shares"
    and "s \<in> set shares" "b < length secret"
  shows "sh_data s ! b \<noteq> secret ! b"
proof -
  define r :: u8 where "r = (rand b 0 mod (ucast PRIME - 1)) + 1"
  have r: "0 < unat r" "unat r < 251"
  proof -
    have "unat (rand b 0 mod (ucast PRIME - 1)) < 250"
      by (simp add: unat_mod PRIME_def)
    then show "0 < unat r" "unat r < 251"
      unfolding r_def by (simp_all add: unat_word_ariths)
  qed
  have idx: "0 < unat (sh_index s)" "unat (sh_index s) \<le> 250"
    using share_shape(2,3) [OF assms(1,2)] by auto
  have "g8 (sh_data s ! b) = peval (map g8 [secret ! b, r]) (node s)"
    unfolding share_shape(4) [OF assms] share_byte_correct(2)
    by (simp add: share_coeffs_def r_def upt_rec)
  also have "\<dots> = g8 (secret ! b) + node s * g8 r"
    by simp
  finally have eq: "g8 (sh_data s ! b) = g8 (secret ! b) + node s * g8 r" .
  have "g8 x \<noteq> 0" if "0 < unat x" "unat x < 251" for x
    using g8_inj [of x 0] that by auto
  then have "node s * g8 r \<noteq> 0"
    using idx r by simp
  then show ?thesis
    using eq by auto
qed

theorem threshold_two_share_excludes_secret_witness:
  "[124, 125] ! 1 \<noteq> ([104, 105] :: bytes) ! 1"
  using threshold_two_share_excludes_secret
    [OF split_example, of "\<lparr>sh_index = 2, sh_data = [124, 125]\<rparr>" 1] by simp

section \<open>One share too few\<close>

text \<open>The leading coefficient is drawn from 1..250.\<close>

lemma leading_coefficient:
  assumes "2 \<le> threshold"
  obtains cs c where "share_coeffs b threshold rnd = cs @ [c]" "length cs = threshold - 1" "g8 c \<noteq> 0"
proof -
  define c :: u8 where "c = (rnd (threshold - 2) mod (ucast PRIME - 1)) + 1"
  obtain n where n: "threshold = Suc (Suc n)"
    using assms by (metis add_2_eq_Suc le_Suc_ex)
  have "unat (rnd n mod (ucast PRIME - 1)) < 250"
    by (simp add: unat_mod PRIME_def)
  then have "0 < unat c" "unat c < 251"
    unfolding c_def n by (simp_all add: unat_word_ariths)
  then have "g8 c \<noteq> 0"
    using g8_inj [of c 0] by auto
  then show thesis
    using that [of "b # map (\<lambda>r. (r mod (ucast PRIME - 1)) + 1) (map rnd [0..<n])" c]
    by (simp add: share_coeffs_def c_def n)
qed

lemma one_share_short_core:
  assumes "split secret threshold num_shares rand = Ok shares"
    and "set sub \<subseteq> set shares" "distinct sub" "Suc (length sub) = threshold"
  shows "\<exists>wrong. reconstruct sub = Ok wrong \<and> length wrong = length secret \<and>
    (\<forall>b<length secret. wrong ! b \<noteq> secret ! b)"
proof -
  have t: "2 \<le> threshold" and ne: "sub \<noteq> []"
    using assms(1,4) by (auto simp: split_Ok_iff)
  have "\<exists>r. interp_loop (enumerate 0 sub) b (enumerate 0 sub) 0 = Ok r \<and> ucast r \<noteq> secret ! b" if b: "b < length secret" for b
  proof -
    obtain cs c where cs: "share_coeffs (secret ! b) threshold (rand b) = cs @ [c]" "length cs = threshold - 1" "g8 c \<noteq> 0"
      using leading_coefficient [OF t] .
    obtain r where r: "interp_loop (enumerate 0 sub) b (enumerate 0 sub) 0 = Ok r" "unat r < 251"
      "g16 r = interpolate (node ` set sub) (peval (map g8 cs @ [g8 c])) 0"
      using interp_loop_interpolates [OF assms(1-3) b] by (auto simp: cs(1))
    have "g16 r = peval (map g8 cs @ [g8 c]) 0 - g8 c * (\<Prod>x\<in>node ` set sub. 0 - x)"
      unfolding r(3) using cs(2) assms(4) card_nodes [OF assms(1-3)] by (intro interpolate_short) simp_all
    moreover have "(\<Prod>x\<in>node ` set sub. 0 - x) \<noteq> 0"
    proof -
      have "node s \<noteq> 0" if "s \<in> set sub" for s
        using g8_inj [of "sh_index s" 0] share_shape(2,3) [OF assms(1), of s] that assms(2) by auto
      then show ?thesis
        by auto
    qed
    moreover have "peval (map g8 cs @ [g8 c]) 0 = g8 (secret ! b)"
      using peval_coeffs_0 [of "secret ! b" threshold "rand b"] by (simp add: cs(1))
    ultimately have "g16 r \<noteq> g8 (secret ! b)"
      using cs(3) by simp
    then have "ucast r \<noteq> secret ! b"
      using g8_ucast [of r] r(2) by auto
    then show ?thesis
      using r(1) by blast
  qed
  then obtain r where r: "\<And>b. b < length secret \<Longrightarrow> interp_loop (enumerate 0 sub) b (enumerate 0 sub) 0 = Ok (r b)"
    "\<And>b. b < length secret \<Longrightarrow> ucast (r b) \<noteq> secret ! b"
    by metis
  have "length (sh_data (sub ! 0)) = length secret"
    using share_shape(1) [OF assms(1)] ne assms(2) by (metis length_greater_0_conv nth_mem subsetD)
  moreover have "reconstruct_bytes sub [0..<length secret] = Ok (map (\<lambda>b. ucast (r b)) [0..<length secret])"
    using r(1) by (intro reconstruct_bytesI) auto
  ultimately show ?thesis
    using ne r(2) by (simp add: reconstruct_def)
qed

text \<open>
  C4. One share too few is always wrong, in every byte.  From any \<open>threshold - 1\<close> distinct shares of a
  split, \<open>reconstruct\<close> answers with bytes of the right number, none of which is the byte of the secret,
  whatever the random bytes: the leading coefficient is never zero.  So \<open>threshold - 1\<close> holders can compute,
  for every byte, one value that it does not have, and the scheme is not perfectly hiding.
\<close>

theorem one_share_short_excludes_secret:
  assumes "split secret threshold num_shares rand = Ok shares"
    and "set sub \<subseteq> set shares" "distinct sub" "Suc (length sub) = threshold"
  shows "\<exists>wrong. reconstruct sub = Ok wrong \<and> length wrong = length secret \<and>
    (\<forall>b<length secret. wrong ! b \<noteq> secret ! b)"
  by (rule one_share_short_core [OF assms])

theorem one_share_short_excludes_secret_witness:
  "\<exists>wrong. reconstruct [\<lparr>sh_index = 2, sh_data = [124, 125]\<rparr>] = Ok wrong \<and> wrong ! 1 \<noteq> 105"
  using one_share_short_excludes_secret [OF split_example, of "[\<lparr>sh_index = 2, sh_data = [124, 125]\<rparr>]"] by force

section \<open>Shares that do not come from one \<open>split\<close>\<close>

lemma interp_loop_Ok_den:
  assumes "interp_loop ss b rest acc = Ok r" "(i, s) \<in> set rest"
  shows "ucast (snd (basis_loop i (ucast (sh_index s)) ss 1 1)) \<noteq> (0 :: u8)"
  using assms
proof (induction rest arbitrary: acc)
  case Nil
  then show ?case by simp
next
  case (Cons q rest)
  obtain j t where q: "q = (j, t)" by (cases q)
  obtain num den where nd: "basis_loop j (ucast (sh_index t)) ss 1 1 = (num, den)"
    by (cases "basis_loop j (ucast (sh_index t)) ss 1 1")
  from Cons.prems(1) q nd obtain inv where inv: "gf_inv (ucast den) = Ok inv"
    by (cases "gf_inv (ucast den)") (auto split: if_splits)
  then have nz: "(ucast den :: u8) \<noteq> 0"
    by (auto simp: gf_inv_def)
  show ?case
  proof (cases "(i, s) = q")
    case True
    then show ?thesis using nz nd q by simp
  next
    case False
    have "\<exists>acc'. interp_loop ss b rest acc' = Ok r"
      using Cons.prems(1) q nd inv by (auto simp: Let_def split: if_splits)
    then show ?thesis
      using Cons.IH Cons.prems(2) False by auto
  qed
qed

lemma interp_loop_not_Err: "interp_loop ss b rest acc \<noteq> Err e"
proof (induction ss b rest acc rule: interp_loop.induct)
  case (2 ss b i s rest acc)
  then show ?case
    by (auto simp: gf_inv_def Let_def split: prod.splits)
qed simp

lemma reconstruct_bytes_not_Err: "reconstruct_bytes ss bs \<noteq> Err e"
proof (induction bs)
  case (Cons b bs)
  then show ?case
    using interp_loop_not_Err [of "enumerate 0 ss" b "enumerate 0 ss" 0 e]
    by (cases "interp_loop (enumerate 0 ss) b (enumerate 0 ss) 0"; cases "reconstruct_bytes ss bs") auto
qed simp

text \<open>The only reasons for a panic: no shares, a share shorter than the first, or two indices that are equal
  modulo 251.\<close>

lemma index_difference:
  fixes x y :: u8
  assumes "unat x mod 251 \<noteq> unat y mod 251"
  shows "unat ((ucast x + PRIME - ucast y :: u16) mod PRIME) \<noteq> 0"
proof -
  have s: "unat (ucast x + PRIME :: u16) = unat x + 251"
  proof -
    have "unat x + 251 < 65536"
      using order.strict_trans [OF unat_u8 [of x], of 65285] by simp
    then show ?thesis
      by (simp add: unat_word_ariths)
  qed
  show ?thesis
  proof (cases "unat y \<le> unat x + 251")
    case True
    then have "unat (ucast x + PRIME - ucast y :: u16) = unat x + 251 - unat y"
      using s by (simp add: unat_sub_if')
    moreover have "(unat x + 251 - unat y) mod 251 \<noteq> 0"
    proof
      assume "(unat x + 251 - unat y) mod 251 = 0"
      then obtain q where "unat x + 251 - unat y = 251 * q"
        by (auto simp: mod_eq_0_iff_dvd)
      then have "unat x + 251 = unat y + 251 * q"
        using True by simp
      then have "(unat x + 251) mod 251 = (unat y + 251 * q) mod 251"
        by simp
      then show False
        using assms by simp
    qed
    ultimately show ?thesis
      by (simp add: unat_mod)
  next
    case False
    then have "unat (ucast x + PRIME - ucast y :: u16) = 65536 + (unat x + 251) - unat y"
      using s by (simp add: unat_sub_if')
    moreover have "65536 + (unat x + 251) - unat y \<in> {65532, 65533, 65534, 65535}"
      using False unat_u8 [of y] by (simp only: insert_iff empty_iff) linarith
    ultimately show ?thesis
      by (auto simp: unat_mod)
  qed
qed

lemma mod_product_nonzero:
  fixes a b :: u16
  assumes "unat a < 251" "unat b < 251" "unat a \<noteq> 0" "unat b \<noteq> 0"
  shows "unat ((a * b) mod PRIME) \<noteq> 0"
proof -
  have "g16 a \<noteq> 0" "g16 b \<noteq> 0"
    using assms of_nat_gf_inj [of "unat a" 0, folded g16_unat] of_nat_gf_inj [of "unat b" 0, folded g16_unat]
    by simp_all
  then have "g16 ((a * b) mod PRIME) \<noteq> 0"
    using assms by (simp add: gf_simps small_mult)
  then have "(of_nat (unat ((a * b) mod PRIME)) :: gf251) \<noteq> 0"
    unfolding g16_unat .
  then show ?thesis
    by (intro notI) simp
qed

lemma basis_den_nonzero:
  fixes x :: u8
  assumes "unat den < 251" "unat den \<noteq> 0"
    and "\<And>j s. (j, s) \<in> set ss \<Longrightarrow> i \<noteq> j \<Longrightarrow> unat x mod 251 \<noteq> unat (sh_index s) mod 251"
  shows "unat (snd (basis_loop i (ucast x) ss num den)) \<noteq> 0 \<and> unat (snd (basis_loop i (ucast x) ss num den)) < 251"
  using assms
proof (induction ss arbitrary: num den)
  case (Cons q ss)
  obtain j s where q: "q = (j, s)" by (cases q)
  have rest: "\<And>j s. (j, s) \<in> set ss \<Longrightarrow> i \<noteq> j \<Longrightarrow> unat x mod 251 \<noteq> unat (sh_index s) mod 251"
    using Cons.prems(3) by (metis list.set_intros(2))
  show ?case
  proof (cases "i = j")
    case False
    have "unat x mod 251 \<noteq> unat (sh_index s) mod 251"
      using Cons.prems(3) [of j s] False q by simp
    note f = index_difference [OF this]
    then show ?thesis
      using f Cons.IH [OF _ _ rest] mod_product_nonzero [OF Cons.prems(1) _ Cons.prems(2)] False q
      by (simp add: Let_def)
  qed (use Cons.IH [OF Cons.prems(1,2) rest] q in simp)
qed simp

lemma interp_loop_returns:
  assumes "\<And>i s. (i, s) \<in> set rest \<Longrightarrow> b < length (sh_data s)"
    and "\<And>i s j t. (i, s) \<in> set rest \<Longrightarrow> (j, t) \<in> set ss \<Longrightarrow> i \<noteq> j \<Longrightarrow>
      unat (sh_index s) mod 251 \<noteq> unat (sh_index t) mod 251"
  shows "\<exists>r. interp_loop ss b rest acc = Ok r"
  using assms
proof (induction rest arbitrary: acc)
  case (Cons q rest)
  obtain i s where q: "q = (i, s)" by (cases q)
  obtain num den where nd: "basis_loop i (ucast (sh_index s)) ss 1 1 = (num, den)"
    by fastforce
  have "unat den \<noteq> 0 \<and> unat den < 251"
    using basis_den_nonzero [of 1 ss i "sh_index s" 1] Cons.prems(2) [of i s] nd q by simp
  then have "unat (ucast den :: u8) \<noteq> 0"
    by (subst unat_ucast_16_8) simp_all
  then have "(ucast den :: u8) \<noteq> 0"
    by auto
  then obtain inv where "gf_inv (ucast den) = Ok inv"
    by (simp add: gf_inv_def)
  moreover have "b < length (sh_data s)"
    using Cons.prems(1) [of i s] q by simp
  moreover have "\<exists>r. interp_loop ss b rest acc' = Ok r" for acc'
    using Cons.prems by (intro Cons.IH) (metis list.set_intros(2))+
  ultimately show ?case
    using nd q by (simp add: Let_def)
qed simp

definition ill_formed :: "share list \<Rightarrow> bool" where
  "ill_formed ss = (ss = [] \<or> (\<exists>s \<in> set ss. length (sh_data s) < length (sh_data (hd ss))) \<or>
     \<not> distinct (map (\<lambda>s. unat (sh_index s) mod 251) ss))"

lemma reconstruct_panics_ill_formed:
  assumes "\<not> (\<exists>x. reconstruct ss = Ok x)"
  shows "ill_formed ss"
proof (rule ccontr)
  assume ok: "\<not> ill_formed ss"
  then have ss: "ss \<noteq> []" "hd ss = ss ! 0"
    by (auto simp: ill_formed_def hd_conv_nth)
  have idx: "unat (sh_index (ss ! i)) mod 251 \<noteq> unat (sh_index (ss ! j)) mod 251"
    if "i < length ss" "j < length ss" "i \<noteq> j" for i j
    using ok that nth_eq_iff_index_eq [of "map (\<lambda>s. unat (sh_index s) mod 251) ss" i j] by (auto simp: ill_formed_def)
  have "\<exists>r. interp_loop (enumerate 0 ss) b (enumerate 0 ss) 0 = Ok r" if "b < length (sh_data (ss ! 0))" for b
    using ok that ss by (intro interp_loop_returns) (auto simp: in_set_enumerate_eq idx ill_formed_def not_less intro: less_le_trans)
  then have "\<exists>xs. reconstruct_bytes ss bs = Ok xs" if "set bs \<subseteq> {..<length (sh_data (ss ! 0))}" for bs
    using that by (induction bs) fastforce+
  then show False
    using assms ss(1) by (simp add: reconstruct_def subset_iff)
qed

text \<open>
  \<open>reconstruct\<close> panics when two of the shares it is given carry the same index, for instance
  when one share is passed twice: the denominator is zero and \<open>gf_inv\<close> asserts.
\<close>

theorem reconstruct_duplicate_index_panics:
  assumes "i < j" "j < length ss" "sh_index (ss ! i) = sh_index (ss ! j)"
    and "list_all (\<lambda>s. unat (sh_index s) \<le> 250) ss" "sh_data (ss ! 0) \<noteq> []"
  shows "\<exists>m. reconstruct ss = Panic m"
proof -
  let ?E = "enumerate 0 ss"
  have small: "small_indices ?E"
    using assms(4) by (auto simp: small_indices_def list_all_iff in_set_enumerate_eq)
  have "\<not> (\<exists>r. interp_loop ?E 0 ?E 0 = Ok r)"
  proof
    assume "\<exists>r. interp_loop ?E 0 ?E 0 = Ok r"
    then obtain r where r: "interp_loop ?E 0 ?E 0 = Ok r" ..
    obtain n d where nd: "basis_loop i (ucast (sh_index (ss ! i))) ?E 1 1 = (n, d)"
      by (cases "basis_loop i (ucast (sh_index (ss ! i))) ?E 1 1")
    have "(i, ss ! i) \<in> set ?E"
      using assms(1,2) by (simp add: in_set_enumerate_eq)
    from interp_loop_Ok_den [OF r this] nd have nz: "(ucast d :: u8) \<noteq> 0" by simp
    have d: "unat d < 251" "g16 d = (\<Prod>(k, s)\<leftarrow>?E. if i = k then 1 else node (ss ! i) - node s)"
      using basis_loop_correct [OF small, of "ucast (sh_index (ss ! i))" 1 1 i, unfolded g16_ucast] nd
      by simp_all
    have "g16 d = 0"
      unfolding d(2) prod_list_enumerate using assms(1-3) by (intro prod_zero) auto
    then have "g8 (ucast d) = g8 0"
      using d(1) by (simp add: g8_ucast)
    then have "(ucast d :: u8) = 0"
      using d(1) by (subst (asm) g8_inj) (simp_all add: unat_ucast_16_8)
    with nz show False ..
  qed
  then obtain m where m: "interp_loop ?E 0 ?E 0 = Panic m"
    using interp_loop_not_Err by (metis outcome.exhaust)
  obtain k where "length (sh_data (ss ! 0)) = Suc k"
    using assms(5) by (cases "sh_data (ss ! 0)") auto
  then have "[0..<length (sh_data (ss ! 0))] = 0 # [1..<length (sh_data (ss ! 0))]"
    by (simp add: upt_rec)
  then have "reconstruct_bytes ss [0..<length (sh_data (ss ! 0))] = Panic m"
    using m by (simp del: upt_Suc)
  moreover have "ss \<noteq> []"
    using assms(2) by auto
  ultimately show ?thesis
    by (simp add: reconstruct_def)
qed

theorem reconstruct_duplicate_index_panics_witness:
  "\<exists>m. reconstruct [\<lparr>sh_index = 3, sh_data = [134]\<rparr>, \<lparr>sh_index = 3, sh_data = [134]\<rparr>] = Panic m"
  by (rule reconstruct_duplicate_index_panics [of 0 1]) simp_all

section \<open>Text form of shares\<close>

text \<open>
  \<open>encode_shares\<close> and \<open>decode_shares\<close>.  The base64 engine is the third-party codec, a
  parameter; its error value is \<open>'b\<close>.  The error strings are a datatype.
\<close>

datatype 'b share_error = InvalidShareFormat string | InvalidIndex string | InvalidBase64 'b

definition encode_share :: "(bytes \<Rightarrow> string) \<Rightarrow> share \<Rightarrow> string" where
  "encode_share b64_encode s = dec (unat (sh_index s)) @ '':'' @ b64_encode (sh_data s)"

definition encode_shares :: "(bytes \<Rightarrow> string) \<Rightarrow> share list \<Rightarrow> string list" where
  "encode_shares b64_encode shares = map (encode_share b64_encode) shares"

text \<open>\<open>s.splitn(2, ':')\<close>, \<open>None\<close> when there are not two parts.\<close>

definition split_colon :: "string \<Rightarrow> (string \<times> string) option" where
  "split_colon s = (if CHR '':'' \<in> set s
     then Some (takeWhile (\<lambda>c. c \<noteq> CHR '':'') s, tl (dropWhile (\<lambda>c. c \<noteq> CHR '':'') s)) else None)"

definition decode_share :: "(string \<Rightarrow> 'b + bytes) \<Rightarrow> string \<Rightarrow> 'b share_error + share" where
  "decode_share b64_decode s =
     (case split_colon s of
        None \<Rightarrow> Inl (InvalidShareFormat s)
      | Some (p0, p1) \<Rightarrow>
          (case parse_uint 255 p0 of
             None \<Rightarrow> Inl (InvalidIndex p0)
           | Some i \<Rightarrow>
               (case b64_decode p1 of
                  Inl e \<Rightarrow> Inl (InvalidBase64 e)
                | Inr d \<Rightarrow> Inr \<lparr>sh_index = of_nat i, sh_data = d\<rparr>)))"

definition decode_shares ::
  "(string \<Rightarrow> 'b + bytes) \<Rightarrow> string list \<Rightarrow> 'b share_error + share list" where
  "decode_shares b64_decode encoded = try_map (decode_share b64_decode) encoded"

lemma decode_encode_share:
  assumes "b64_decode (b64_encode (sh_data s)) = Inr (sh_data s)"
  shows "decode_share b64_decode (encode_share b64_encode s) = Inr s"
proof -
  let ?d = "dec (unat (sh_index s))"
  have "takeWhile (\<lambda>c. c \<noteq> CHR '':'') (?d @ '':'' @ x) = ?d"
    "dropWhile (\<lambda>c. c \<noteq> CHR '':'') (?d @ '':'' @ x) = '':'' @ x" for x
    using dec_no_sep(1) [of "unat (sh_index s)"]
    by (subst takeWhile_append2 dropWhile_append2; auto)+
  then have "split_colon (encode_share b64_encode s) = Some (?d, b64_encode (sh_data s))"
    by (simp add: split_colon_def encode_share_def)
  moreover have "unat (sh_index s) \<le> 255"
    using unat_u8 [of "sh_index s"] by linarith
  ultimately show ?thesis
    using assms by (simp add: decode_share_def parse_uint_dec)
qed

lemma decode_encode_shares_core:
  assumes "\<And>s. s \<in> set shares \<Longrightarrow> b64_decode (b64_encode (sh_data s)) = Inr (sh_data s)"
  shows "decode_shares b64_decode (encode_shares b64_encode shares) = Inr shares"
  using try_map_map [of shares "decode_share b64_decode" "encode_share b64_encode" "\<lambda>s. s"] assms
  by (simp add: decode_shares_def encode_shares_def decode_encode_share)

text \<open>
  Shares written as text and read back are the same shares, for every share list, when the
  base64 decoder inverts the encoder on their data.
\<close>

theorem decode_encode_shares:
  assumes "\<And>s. s \<in> set shares \<Longrightarrow> b64_decode (b64_encode (sh_data s)) = Inr (sh_data s)"
  shows "decode_shares b64_decode (encode_shares b64_encode shares) = Inr shares"
  by (rule decode_encode_shares_core [OF assms])

theorem decode_encode_shares_witness:
  "decode_shares (\<lambda>t. Inr (as_bytes t) :: unit + bytes)
     (encode_shares (map (\<lambda>b. char_of (unat b))) [\<lparr>sh_index = 12, sh_data = [104, 105]\<rparr>])
   = Inr [\<lparr>sh_index = 12, sh_data = [104, 105]\<rparr>]"
  by (rule decode_encode_shares) (simp add: as_bytes_def)

end
