(* ===== verification/F64.thy ===== *)
theory F64
  imports Complex_Main "HOL-Library.Log_Nat" Prelude
begin

text \<open>
  The part of IEEE 754 double precision the source uses: comparison, the conversion of an
  unsigned integer, and the quotient of two such values, each rounded to nearest, ties to even,
  on 53 significant bits.  A finite double is the rational number it denotes (the two zeros
  compare equal and are one value); every quotient the code forms is zero or in the normal
  range, so no subnormal rounding or overflow occurs.
\<close>

datatype f64 = NaN | NegInf | PosInf | Fin rat

fun f64_le :: "f64 \<Rightarrow> f64 \<Rightarrow> bool" where
  "f64_le NaN _ = False"
| "f64_le _ NaN = False"
| "f64_le NegInf _ = True"
| "f64_le _ PosInf = True"
| "f64_le (Fin a) (Fin b) = (a \<le> b)"
| "f64_le _ _ = False"

fun f64_lt :: "f64 \<Rightarrow> f64 \<Rightarrow> bool" where
  "f64_lt NaN _ = False"
| "f64_lt _ NaN = False"
| "f64_lt NegInf b = (b \<noteq> NegInf)"
| "f64_lt a PosInf = (a \<noteq> PosInf)"
| "f64_lt (Fin a) (Fin b) = (a < b)"
| "f64_lt _ _ = False"

text \<open>\<open>(0.0..=1.0).contains(&x)\<close>: false on NaN and the infinities.\<close>

definition f64_unit_interval :: "f64 \<Rightarrow> bool" where
  "f64_unit_interval x = (f64_le (Fin 0) x \<and> f64_le x (Fin 1))"

lemma f64_unit_interval_iff: "f64_unit_interval x = (\<exists>r. x = Fin r \<and> 0 \<le> r \<and> r \<le> 1)"
  by (cases x) (auto simp: f64_unit_interval_def)

text \<open>The integer nearest to \<open>a / b\<close>, ties to even.\<close>

definition round_even :: "int \<Rightarrow> int \<Rightarrow> int" where
  "round_even a b =
     (let q = a div b; r = a mod b
      in if 2 * r < b then q else if b < 2 * r then q + 1 else if even q then q else q + 1)"

text \<open>The number of significant bits.\<close>

function bit_length :: "int \<Rightarrow> int" where
  "bit_length n = (if n \<le> 0 then 0 else 1 + bit_length (n div 2))"
  by pat_completeness auto
termination
  by (relation "measure nat") auto

declare bit_length.simps [simp del]

text \<open>\<open>n as f64\<close> for an unsigned integer: an integer again.\<close>

definition f64_of_uint :: "int \<Rightarrow> int" where
  "f64_of_uint n =
     (if n < 2 ^ 53 then n
      else let e = nat (bit_length n - 53) in round_even n (2 ^ e) * 2 ^ e)"

text \<open>The rounded quotient of two integral doubles, \<open>b\<close> positive.\<close>

definition scaled :: "int \<Rightarrow> int \<Rightarrow> int \<Rightarrow> int \<times> int" where
  "scaled a b s = (if 0 \<le> s then (a * 2 ^ nat s, b) else (a, b * 2 ^ nat (- s)))"

definition f64_quot :: "int \<Rightarrow> int \<Rightarrow> rat" where
  "f64_quot a b =
     (if a = 0 then 0
      else
        (let s0 = 53 + bit_length b - bit_length a;
             s = (case scaled a b s0 of (x, y) \<Rightarrow> if y * 2 ^ 53 \<le> x then s0 - 1 else s0);
             m = (case scaled a b s of (x, y) \<Rightarrow> round_even x y)
         in if 0 \<le> s then of_int m / of_int (2 ^ nat s) else of_int (m * 2 ^ nat (- s))))"

text \<open>\<open>(a as f64) / (b as f64)\<close>: for \<open>b = 0\<close> an infinity, or NaN for 0/0.\<close>

definition f64_div :: "nat \<Rightarrow> nat \<Rightarrow> f64" where
  "f64_div a b =
     (if b = 0 then (if a = 0 then NaN else PosInf)
      else Fin (f64_quot (f64_of_uint (int a)) (f64_of_uint (int b))))"

lemma f64_of_uint_exact [simp]: "n < 2 ^ 53 \<Longrightarrow> f64_of_uint n = n"
  by (simp add: f64_of_uint_def)

lemma f64_quot_0 [simp]: "f64_quot 0 b = 0"
  by (simp add: f64_quot_def)

lemma round_even_bounds:
  assumes "0 < b"
  shows "a div b \<le> round_even a b" "round_even a b \<le> a div b + 1"
  using assms by (auto simp: round_even_def Let_def)

lemma round_even_nonneg: "0 \<le> a \<Longrightarrow> 0 < b \<Longrightarrow> 0 \<le> round_even a b"
  using round_even_bounds(1) [of b a] pos_imp_zdiv_nonneg_iff [of b a] by linarith

lemma scaled_signs:
  "0 \<le> a \<Longrightarrow> 0 < b \<Longrightarrow> case scaled a b s of (x, y) \<Rightarrow> 0 \<le> x \<and> 0 < y"
  by (simp add: scaled_def)

lemma f64_quot_nonneg:
  assumes "0 \<le> a" "0 < b"
  shows "0 \<le> f64_quot a b"
proof -
  have "0 \<le> (case scaled a b s of (x, y) \<Rightarrow> round_even x y)" for s
    using scaled_signs [OF assms, of s] by (auto intro: round_even_nonneg split: prod.splits)
  then show ?thesis
    by (simp add: f64_quot_def Let_def del: of_int_mult)
qed

lemma round_even_exact: "0 < b \<Longrightarrow> round_even (a * b) b = a"
  by (auto simp: round_even_def Let_def)

end
