(* ===== verification/Audit_Log.thy ===== *)
theory Audit_Log
  imports Prelude
begin

text \<open>
  \<open>src/audit/audit_log.rs\<close>: the hash-chained, append-only audit log.  SHA-256 (crate \<open>sha2\<close>) is
  the parameter \<open>sha\<close>, applied to the concatenation of the bytes fed to the hasher.
\<close>

section \<open>Model\<close>

datatype audit_error = EmptyActor | EmptyAction | ChainBroken nat | EmptyLog

datatype severity = Info | Warning | Critical

record audit_entry =
  ae_index :: nat
  ae_timestamp :: u64
  ae_actor :: string
  ae_action :: string
  ae_detail :: "string option"
  ae_severity :: severity
  ae_hash :: bytes

record audit_log =
  al_entries :: "audit_entry list"

definition audit_new :: audit_log where
  "audit_new = \<lparr>al_entries = []\<rparr>"

definition genesis_hash :: bytes where
  "genesis_hash = replicate 32 0"

text \<open>\<open>detail.as_deref().unwrap_or("")\<close>.\<close>

definition detail_str :: "string option \<Rightarrow> string" where
  "detail_str d = (case d of None \<Rightarrow> [] | Some s \<Rightarrow> s)"

definition compute_entry_hash ::
  "(bytes \<Rightarrow> bytes) \<Rightarrow> bytes \<Rightarrow> u64 \<Rightarrow> string \<Rightarrow> string \<Rightarrow> string \<Rightarrow> bytes" where
  "compute_entry_hash sha prev_hash timestamp actor action detail =
     sha (prev_hash @ to_le_bytes timestamp @ as_bytes actor @ as_bytes action @ as_bytes detail)"

definition audit_append ::
  "(bytes \<Rightarrow> bytes) \<Rightarrow> audit_log \<Rightarrow> u64 \<Rightarrow> string \<Rightarrow> string \<Rightarrow> string option \<Rightarrow> severity
     \<Rightarrow> audit_error + audit_entry \<times> audit_log" where
  "audit_append sha log timestamp actor action detail sev =
     (if actor = [] then Inl EmptyActor
      else if action = [] then Inl EmptyAction
      else
        let prev_hash = (if al_entries log = [] then genesis_hash else ae_hash (last (al_entries log)));
            e = \<lparr>ae_index = length (al_entries log), ae_timestamp = timestamp, ae_actor = actor,
                 ae_action = action, ae_detail = detail, ae_severity = sev,
                 ae_hash = compute_entry_hash sha prev_hash timestamp actor action (detail_str detail)\<rparr>
        in Inr (e, log\<lparr>al_entries := al_entries log @ [e]\<rparr>))"

fun verify_from :: "(bytes \<Rightarrow> bytes) \<Rightarrow> bytes \<Rightarrow> nat \<Rightarrow> audit_entry list \<Rightarrow> audit_error + unit" where
  "verify_from sha prev_hash i [] = Inr ()"
| "verify_from sha prev_hash i (e # es) =
     (if compute_entry_hash sha prev_hash (ae_timestamp e) (ae_actor e) (ae_action e)
           (detail_str (ae_detail e)) \<noteq> ae_hash e
      then Inl (ChainBroken i)
      else verify_from sha (ae_hash e) (Suc i) es)"

definition verify_chain :: "(bytes \<Rightarrow> bytes) \<Rightarrow> audit_log \<Rightarrow> audit_error + unit" where
  "verify_chain sha log =
     (if al_entries log = [] then Inl EmptyLog
      else verify_from sha genesis_hash 0 (al_entries log))"

definition entries_by_actor :: "audit_log \<Rightarrow> string \<Rightarrow> audit_entry list" where
  "entries_by_actor log actor = filter (\<lambda>e. ae_actor e = actor) (al_entries log)"

definition entries_by_action :: "audit_log \<Rightarrow> string \<Rightarrow> audit_entry list" where
  "entries_by_action log action = filter (\<lambda>e. ae_action e = action) (al_entries log)"

fun severity_level :: "severity \<Rightarrow> u8" where
  "severity_level Info = 0"
| "severity_level Warning = 1"
| "severity_level Critical = 2"

definition entries_by_severity :: "audit_log \<Rightarrow> severity \<Rightarrow> audit_entry list" where
  "entries_by_severity log min_severity =
     filter (\<lambda>e. severity_level min_severity \<le> severity_level (ae_severity e)) (al_entries log)"

definition audit_len :: "audit_log \<Rightarrow> nat" where
  "audit_len log = length (al_entries log)"

definition audit_is_empty :: "audit_log \<Rightarrow> bool" where
  "audit_is_empty log = (al_entries log = [])"

definition audit_entries :: "audit_log \<Rightarrow> audit_entry list" where
  "audit_entries log = al_entries log"

section \<open>Appending keeps the chain valid\<close>

text \<open>The hash the next entry is chained to, and the bytes an entry's hash covers.\<close>

definition tip :: "bytes \<Rightarrow> audit_entry list \<Rightarrow> bytes" where
  "tip prev es = (if es = [] then prev else ae_hash (last es))"

definition entry_text :: "audit_entry \<Rightarrow> string" where
  "entry_text e = ae_actor e @ ae_action e @ detail_str (ae_detail e)"

definition entry_preimage :: "bytes \<Rightarrow> audit_entry \<Rightarrow> bytes" where
  "entry_preimage prev e = prev @ to_le_bytes (ae_timestamp e) @ as_bytes (entry_text e)"

lemma compute_entry_hash_preimage:
  "compute_entry_hash sha prev (ae_timestamp e) (ae_actor e) (ae_action e) (detail_str (ae_detail e))
     = sha (entry_preimage prev e)"
  by (simp add: compute_entry_hash_def entry_preimage_def entry_text_def)

lemma tip_simps [simp]: "tip prev [] = prev" "tip prev (e # es) = tip (ae_hash e) es"
  by (simp_all add: tip_def)

lemma tip_snoc [simp]: "tip prev (es @ [e]) = ae_hash e"
  by (simp add: tip_def)

lemma verify_from_append:
  "verify_from sha prev i (es @ fs) =
    (case verify_from sha prev i es of Inl e \<Rightarrow> Inl e
     | Inr _ \<Rightarrow> verify_from sha (tip prev es) (i + length es) fs)"
  by (induction es arbitrary: prev i) (simp_all split: sum.splits)

lemma verify_from_Inr_iff:
  "verify_from sha prev i es = Inr () \<longleftrightarrow>
    (\<forall>k < length es. ae_hash (es ! k) = sha (entry_preimage (tip prev (take k es)) (es ! k)))"
proof (induction es rule: rev_induct)
  case Nil
  then show ?case by simp
next
  case (snoc e es)
  have "verify_from sha prev i (es @ [e]) = Inr () \<longleftrightarrow>
      verify_from sha prev i es = Inr () \<and> sha (entry_preimage (tip prev es) e) = ae_hash e"
    by (auto simp: verify_from_append compute_entry_hash_preimage split: sum.splits)
  then show ?case
    by (auto simp: snoc.IH nth_append less_Suc_eq)
qed

text \<open>The invariant of the log: positions are recorded in order, and the chain verifies.\<close>

definition audit_inv :: "(bytes \<Rightarrow> bytes) \<Rightarrow> audit_log \<Rightarrow> bool" where
  "audit_inv sha log =
     (verify_from sha genesis_hash 0 (al_entries log) = Inr () \<and>
      map ae_index (al_entries log) = [0..<length (al_entries log)] \<and>
      list_all (\<lambda>e. ae_actor e \<noteq> [] \<and> ae_action e \<noteq> []) (al_entries log))"

lemma audit_inv_new: "audit_inv sha audit_new"
  by (simp add: audit_inv_def audit_new_def)

lemma audit_append_entries:
  assumes "audit_append sha log ts actor action detail sev = Inr (e, log')"
  shows "al_entries log' = al_entries log @ [e]" "ae_index e = length (al_entries log)"
    "ae_hash e = sha (entry_preimage (tip genesis_hash (al_entries log)) e)"
    "ae_actor e \<noteq> []" "ae_action e \<noteq> []"
  using assms
  by (auto simp: audit_append_def Let_def tip_def entry_preimage_def entry_text_def
      compute_entry_hash_def split: if_splits)

lemma audit_inv_append:
  assumes "audit_inv sha log" "audit_append sha log ts actor action detail sev = Inr (e, log')"
  shows "audit_inv sha log'"
  using assms(1) audit_append_entries [OF assms(2)]
  by (simp add: audit_inv_def verify_from_append compute_entry_hash_preimage)

inductive audit_reachable :: "(bytes \<Rightarrow> bytes) \<Rightarrow> audit_log \<Rightarrow> bool" for sha where
  reach_new: "audit_reachable sha audit_new"
| reach_append: "audit_reachable sha log \<Longrightarrow>
    audit_append sha log ts actor action detail sev = Inr (e, log') \<Longrightarrow> audit_reachable sha log'"

lemma audit_reachable_inv: "audit_reachable sha log \<Longrightarrow> audit_inv sha log"
  by (induction rule: audit_reachable.induct) (auto intro: audit_inv_new audit_inv_append)

text \<open>
  C35. Every log the interface can build verifies: after at least one append \<open>verify_chain\<close>
  returns \<open>Ok\<close>, whatever the hash function, and the recorded indices are the positions.
\<close>

theorem audit_reachable_verifies:
  assumes "audit_reachable sha log" "al_entries log \<noteq> []"
  shows "verify_chain sha log = Inr () \<and> map ae_index (al_entries log) = [0..<audit_len log]"
  using audit_reachable_inv [OF assms(1)] assms(2)
  by (simp add: verify_chain_def audit_inv_def audit_len_def)

lemma audit_example:
  "audit_reachable sha \<lparr>al_entries = [\<lparr>ae_index = 0, ae_timestamp = 5, ae_actor = ''bob'',
     ae_action = ''key.revoke'', ae_detail = None, ae_severity = Warning,
     ae_hash = sha (genesis_hash @ to_le_bytes 5 @ as_bytes ''bobkey.revoke'')\<rparr>]\<rparr>"
  (is "audit_reachable sha ?log")
proof (rule reach_append [OF reach_new])
  show "audit_append sha audit_new 5 ''bob'' ''key.revoke'' None Warning =
      Inr (hd (al_entries ?log), ?log)"
    by (simp add: audit_append_def audit_new_def compute_entry_hash_def detail_str_def Let_def)
qed

theorem audit_reachable_verifies_witness:
  "verify_chain (\<lambda>x. x) \<lparr>al_entries = [\<lparr>ae_index = 0, ae_timestamp = 5, ae_actor = ''bob'',
     ae_action = ''key.revoke'', ae_detail = None, ae_severity = Warning,
     ae_hash = genesis_hash @ to_le_bytes 5 @ as_bytes ''bobkey.revoke''\<rparr>]\<rparr> = Inr ()"
  using audit_reachable_verifies [OF audit_example [of "\<lambda>x. x"]] by simp

section \<open>What a valid chain says of the entries\<close>

text \<open>
  The first position at which the chain is inconsistent is the one reported.
\<close>

lemma verify_from_Inl_iff:
  "verify_from sha prev i es = Inl err \<longleftrightarrow>
    (\<exists>k < length es. err = ChainBroken (i + k) \<and>
       ae_hash (es ! k) \<noteq> sha (entry_preimage (tip prev (take k es)) (es ! k)) \<and>
       (\<forall>j < k. ae_hash (es ! j) = sha (entry_preimage (tip prev (take j es)) (es ! j))))"
proof (induction es arbitrary: prev i)
  case Nil
  then show ?case by simp
next
  case (Cons e es)
  have all: "(\<forall>j < Suc k. P j) = (P 0 \<and> (\<forall>j < k. P (Suc j)))" for P and k :: nat
    by (auto simp: less_Suc_eq_0_disj)
  have ex: "(\<exists>j < Suc k. P j) = (P 0 \<or> (\<exists>j < k. P (Suc j)))" for P and k :: nat
    by (auto simp: less_Suc_eq_0_disj)
  show ?case
    by (auto simp: Cons.IH compute_entry_hash_preimage ex all)
qed

text \<open>
  \<open>verify_chain\<close> reports the first entry whose stored hash is not the hash of its contents
  chained to the stored hash before it, and nothing else.
\<close>

theorem verify_chain_first_break:
  "verify_chain sha log = Inl (ChainBroken i) \<longleftrightarrow>
    i < audit_len log \<and>
    ae_hash (al_entries log ! i)
      \<noteq> sha (entry_preimage (tip genesis_hash (take i (al_entries log))) (al_entries log ! i)) \<and>
    list_all (\<lambda>j. ae_hash (al_entries log ! j)
      = sha (entry_preimage (tip genesis_hash (take j (al_entries log))) (al_entries log ! j))) [0..<i]"
  by (auto simp: verify_chain_def verify_from_Inl_iff audit_len_def list_all_iff)

section \<open>Tampering\<close>

text \<open>What the hash of an entry covers, besides the hash it is chained to.\<close>

definition covered :: "audit_entry \<Rightarrow> u64 \<times> string \<times> bytes" where
  "covered e = (ae_timestamp e, entry_text e, ae_hash e)"

lemma verify_from_covered:
  assumes "map covered es = map covered fs"
  shows "verify_from sha prev i es = verify_from sha prev i fs"
  using assms
proof (induction es arbitrary: fs prev i)
  case Nil
  then show ?case by simp
next
  case (Cons e es)
  then obtain f fs' where f: "fs = f # fs'" "covered e = covered f" "map covered es = map covered fs'"
    by auto
  then have "entry_preimage prev e = entry_preimage prev f" "ae_hash e = ae_hash f"
    by (simp_all add: covered_def entry_preimage_def)
  then show ?case
    using f Cons.IH [of fs'] by (simp add: compute_entry_hash_preimage)
qed

text \<open>
  What the chain does not protect: the severity and the recorded index of an entry, and the
  boundaries between actor, action and detail, are outside the hashed bytes (the three texts are
  hashed without separators), so that changing them leaves the verdict of \<open>verify_chain\<close> unchanged.
\<close>

theorem verify_chain_ignores_uncovered:
  assumes "map covered (al_entries log) = map covered (al_entries log')"
  shows "verify_chain sha log = verify_chain sha log'"
proof -
  have "(al_entries log = []) = (al_entries log' = [])"
    using assms by (metis list.map_disc_iff)
  then show ?thesis
    using verify_from_covered [OF assms] by (simp add: verify_chain_def)
qed

theorem verify_chain_ignores_uncovered_witness:
  "verify_chain rev \<lparr>al_entries = [\<lparr>ae_index = 0, ae_timestamp = 5, ae_actor = ''bob'',
     ae_action = ''key.revoke'', ae_detail = None, ae_severity = Warning, ae_hash = [1]\<rparr>]\<rparr> =
   verify_chain rev \<lparr>al_entries = [\<lparr>ae_index = 7, ae_timestamp = 5, ae_actor = ''bobkey'',
     ae_action = ''.'', ae_detail = Some ''revoke'', ae_severity = Critical, ae_hash = [1]\<rparr>]\<rparr>"
  by (rule verify_chain_ignores_uncovered) (simp add: covered_def entry_text_def detail_str_def)

lemma entry_preimage_inj:
  assumes "length p = 32" "length q = 32" "entry_preimage p e = entry_preimage q f"
  shows "p = q \<and> ae_timestamp e = ae_timestamp f \<and> entry_text e = entry_text f"
  using assms by (simp add: entry_preimage_def append_eq_append_conv)

lemma length_tip:
  assumes "\<forall>x. length (sha x) = 32" "verify_from sha prev i es = Inr ()" "length prev = 32"
  shows "length (tip prev es) = 32"
  using assms(2-3)
proof (induction es arbitrary: prev i)
  case Nil
  then show ?case by simp
next
  case (Cons e es)
  then have "ae_hash e = sha (entry_preimage prev e)" "verify_from sha (ae_hash e) (Suc i) es = Inr ()"
    by (auto simp: compute_entry_hash_preimage split: if_splits)
  then show ?case
    using Cons.IH assms(1) by simp
qed

text \<open>The bytes hashed for the entry at position \<open>k\<close>, and a collision between two logs: the same
  hash of different bytes at some position.\<close>

definition preimage_at :: "audit_entry list \<Rightarrow> nat \<Rightarrow> bytes" where
  "preimage_at es k = entry_preimage (tip genesis_hash (take k es)) (es ! k)"

definition collision_between :: "(bytes \<Rightarrow> bytes) \<Rightarrow> audit_entry list \<Rightarrow> audit_entry list \<Rightarrow> bool" where
  "collision_between sha es fs =
     (\<exists>k < length es. preimage_at es k \<noteq> preimage_at fs k \<and>
        sha (preimage_at es k) = sha (preimage_at fs k))"

lemma preimage_at_snoc:
  "k < length es \<Longrightarrow> preimage_at (es @ [e]) k = preimage_at es k"
  "preimage_at (es @ [e]) (length es) = entry_preimage (tip genesis_hash es) e"
  by (simp_all add: preimage_at_def nth_append)

lemma collision_between_snoc:
  assumes "length es = length fs"
  shows "collision_between sha (es @ [e]) (fs @ [f]) \<longleftrightarrow>
    collision_between sha es fs \<or>
    entry_preimage (tip genesis_hash es) e \<noteq> entry_preimage (tip genesis_hash fs) f \<and>
    sha (entry_preimage (tip genesis_hash es) e) = sha (entry_preimage (tip genesis_hash fs) f)"
proof -
  have old: "preimage_at (es @ [e]) k = preimage_at es k" "preimage_at (fs @ [f]) k = preimage_at fs k"
    if "k < length fs" for k
    using that assms by (simp_all add: preimage_at_snoc(1))
  have new: "preimage_at (es @ [e]) (length fs) = entry_preimage (tip genesis_hash es) e"
    "preimage_at (fs @ [f]) (length fs) = entry_preimage (tip genesis_hash fs) f"
    using preimage_at_snoc(2) [of es e] preimage_at_snoc(2) [of fs f] assms by simp_all
  have ex: "(\<exists>k < Suc n. P k) = ((\<exists>k < n. P k) \<or> P n)" for P and n :: nat
    by (auto simp: less_Suc_eq)
  show ?thesis
    using assms old by (simp add: collision_between_def ex new cong: conj_cong)
qed

lemma valid_chains_same_tip:
  assumes len: "\<forall>x. length (sha x) = 32" and nocol: "\<not> collision_between sha es fs"
    and "length es = length fs" "verify_from sha genesis_hash 0 es = Inr ()"
    and "verify_from sha genesis_hash 0 fs = Inr ()"
    and "tip genesis_hash es = tip genesis_hash fs"
  shows "map covered es = map covered fs"
  using assms(2-)
proof (induction es fs rule: rev_induct2)
  case (4 e es f fs)
  have l: "length es = length fs"
    using 4 by simp
  have es: "verify_from sha genesis_hash 0 es = Inr ()" "ae_hash e = sha (entry_preimage (tip genesis_hash es) e)"
    using 4 by (auto simp: verify_from_append compute_entry_hash_preimage split: sum.splits if_splits)
  have fs: "verify_from sha genesis_hash 0 fs = Inr ()" "ae_hash f = sha (entry_preimage (tip genesis_hash fs) f)"
    using 4 by (auto simp: verify_from_append compute_entry_hash_preimage split: sum.splits if_splits)
  have g: "length genesis_hash = 32"
    by (simp add: genesis_hash_def)
  have "entry_preimage (tip genesis_hash es) e = entry_preimage (tip genesis_hash fs) f"
    using 4(2,6) es(2) fs(2) by (auto simp: collision_between_snoc [OF l])
  then have "tip genesis_hash es = tip genesis_hash fs \<and> covered e = covered f"
    using entry_preimage_inj [OF length_tip [OF len es(1) g] length_tip [OF len fs(1) g]] 4
    by (simp add: covered_def)
  then show ?case
    using 4 es(1) fs(1) by (simp add: collision_between_snoc [OF l])
qed simp_all

text \<open>
  C6. Tamper evidence.  Two valid logs of the same length that end in the same hash agree, entry by
  entry, on the time, on the text (actor, action and detail run together) and on the hash, unless
  the two logs themselves exhibit a SHA-256 collision at some position (different hashed bytes, the
  same hash): publishing the last hash fixes the whole history.
\<close>

theorem audit_log_tamper_evident:
  assumes "\<forall>x. length (sha x) = 32" "audit_len log = audit_len log'"
    and "verify_chain sha log = Inr ()" "verify_chain sha log' = Inr ()"
    and "ae_hash (last (al_entries log)) = ae_hash (last (al_entries log'))"
  shows "map covered (al_entries log) = map covered (al_entries log')
    \<or> collision_between sha (al_entries log) (al_entries log')"
proof -
  have "al_entries log \<noteq> []" "al_entries log' \<noteq> []"
    using assms(3,4) by (auto simp: verify_chain_def split: if_splits)
  then show ?thesis
    using valid_chains_same_tip [OF assms(1), of "al_entries log" "al_entries log'"] assms
    by (auto simp: verify_chain_def audit_len_def tip_def)
qed

theorem audit_log_tamper_evident_witness:
  "map covered [\<lparr>ae_index = 0, ae_timestamp = 5, ae_actor = ''a'', ae_action = ''b'',
      ae_detail = None, ae_severity = Info, ae_hash = replicate 32 7\<rparr>] =
   map covered [\<lparr>ae_index = 0, ae_timestamp = 6, ae_actor = ''c'', ae_action = ''d'',
      ae_detail = None, ae_severity = Info, ae_hash = replicate 32 7\<rparr>]
   \<or> collision_between (\<lambda>x. replicate 32 7) [\<lparr>ae_index = 0, ae_timestamp = 5, ae_actor = ''a'',
      ae_action = ''b'', ae_detail = None, ae_severity = Info, ae_hash = replicate 32 7\<rparr>]
      [\<lparr>ae_index = 0, ae_timestamp = 6, ae_actor = ''c'', ae_action = ''d'',
      ae_detail = None, ae_severity = Info, ae_hash = replicate 32 7\<rparr>]"
  using audit_log_tamper_evident [of "\<lambda>x. replicate 32 7"
      "\<lparr>al_entries = [\<lparr>ae_index = 0, ae_timestamp = 5, ae_actor = ''a'', ae_action = ''b'',
      ae_detail = None, ae_severity = Info, ae_hash = replicate 32 7\<rparr>]\<rparr>"
      "\<lparr>al_entries = [\<lparr>ae_index = 0, ae_timestamp = 6, ae_actor = ''c'', ae_action = ''d'',
      ae_detail = None, ae_severity = Info, ae_hash = replicate 32 7\<rparr>]\<rparr>"]
  by (simp add: verify_chain_def audit_len_def compute_entry_hash_def)

end
