(* ===== verification/Compliance.thy ===== *)
theory Compliance
  imports Audit_Log F64 "HOL-Library.Sublist"
begin

text \<open>
  \<open>src/audit/compliance.rs\<close>: the policy gate over the audit log.  The text of a violation is a
  constructor with the values it prints, one per format string.
\<close>

section \<open>Model\<close>

datatype compliance_error = ComplianceEmptyLog

datatype compliance_rule =
    MaxConsecutiveAuthFailures nat
  | RequireCriticalOnRevocation
  | MaxRevocationToRotationRatio f64

datatype violation_description =
    ConsecutiveFailures nat nat
  | NotMarkedCritical nat severity
  | RatioUndefined nat
  | RatioExceeds f64 f64

record compliance_violation =
  cv_description :: violation_description
  cv_entry_indices :: "nat list"

record compliance_report =
  cr_total_entries :: nat
  cr_violations :: "compliance_violation list"
  cr_passed :: bool

definition is_failure :: "audit_entry \<Rightarrow> bool" where
  "is_failure e = (ae_action e = ''auth.failure'')"

definition flag_run :: "nat \<Rightarrow> nat list \<Rightarrow> compliance_violation list \<Rightarrow> compliance_violation list" where
  "flag_run max_consecutive run violations =
     (if max_consecutive < length run
      then violations @ [\<lparr>cv_description = ConsecutiveFailures (length run) max_consecutive,
                          cv_entry_indices = run\<rparr>]
      else violations)"

fun consecutive_loop ::
  "nat \<Rightarrow> audit_entry list \<Rightarrow> nat list \<Rightarrow> compliance_violation list
     \<Rightarrow> nat list \<times> compliance_violation list" where
  "consecutive_loop m [] run violations = (run, violations)"
| "consecutive_loop m (e # es) run violations =
     (if is_failure e then consecutive_loop m es (run @ [ae_index e]) violations
      else consecutive_loop m es [] (flag_run m run violations))"

definition check_consecutive_auth_failures ::
  "audit_entry list \<Rightarrow> nat \<Rightarrow> compliance_violation list \<Rightarrow> compliance_violation list" where
  "check_consecutive_auth_failures entries m violations =
     (case consecutive_loop m entries [] violations of (run, vs) \<Rightarrow> flag_run m run vs)"

fun check_revocation_criticality ::
  "audit_entry list \<Rightarrow> compliance_violation list \<Rightarrow> compliance_violation list" where
  "check_revocation_criticality [] violations = violations"
| "check_revocation_criticality (e # es) violations =
     check_revocation_criticality es
       (if ae_action e = ''key.revoke'' \<and> ae_severity e \<noteq> Critical
        then violations @ [\<lparr>cv_description = NotMarkedCritical (ae_index e) (ae_severity e),
                            cv_entry_indices = [ae_index e]\<rparr>]
        else violations)"

definition count_action :: "string \<Rightarrow> audit_entry list \<Rightarrow> nat" where
  "count_action a entries = length (filter (\<lambda>e. ae_action e = a) entries)"

definition check_revocation_rotation_ratio ::
  "audit_entry list \<Rightarrow> f64 \<Rightarrow> compliance_violation list \<Rightarrow> compliance_violation list" where
  "check_revocation_rotation_ratio entries max_ratio violations =
     (let revocations = count_action ''key.revoke'' entries;
          rotations = count_action ''key.rotation'' entries
      in if rotations = 0 \<and> 0 < revocations
         then violations @ [\<lparr>cv_description = RatioUndefined revocations, cv_entry_indices = []\<rparr>]
         else if 0 < rotations
         then (let ratio = f64_div revocations rotations
               in if f64_lt max_ratio ratio
                  then violations @ [\<lparr>cv_description = RatioExceeds ratio max_ratio,
                                      cv_entry_indices = []\<rparr>]
                  else violations)
         else violations)"

fun check_rule ::
  "audit_entry list \<Rightarrow> compliance_violation list \<Rightarrow> compliance_rule \<Rightarrow> compliance_violation list" where
  "check_rule entries vs (MaxConsecutiveAuthFailures m) = check_consecutive_auth_failures entries m vs"
| "check_rule entries vs RequireCriticalOnRevocation = check_revocation_criticality entries vs"
| "check_rule entries vs (MaxRevocationToRotationRatio r) = check_revocation_rotation_ratio entries r vs"

definition evaluate :: "audit_log \<Rightarrow> compliance_rule list \<Rightarrow> compliance_error + compliance_report" where
  "evaluate lg rules =
     (if audit_is_empty lg then Inl ComplianceEmptyLog
      else let vs = foldl (check_rule (al_entries lg)) [] rules
           in Inr \<lparr>cr_total_entries = audit_len lg, cr_violations = vs, cr_passed = (vs = [])\<rparr>)"

section \<open>Every rule only adds violations\<close>

lemma flag_run_append: "flag_run m run (vs @ ws) = vs @ flag_run m run ws"
  by (simp add: flag_run_def)

lemma flag_run_Nil_iff: "flag_run m run vs = [] \<longleftrightarrow> vs = [] \<and> length run \<le> m"
  by (auto simp: flag_run_def)

lemma consecutive_loop_append:
  "consecutive_loop m es run (vs @ ws) = map_prod id ((@) vs) (consecutive_loop m es run ws)"
  by (induction es arbitrary: run ws) (simp_all add: flag_run_append)

lemma consecutive_append:
  "check_consecutive_auth_failures es m (vs @ ws) = vs @ check_consecutive_auth_failures es m ws"
  by (simp add: check_consecutive_auth_failures_def consecutive_loop_append flag_run_append
      map_prod_def split: prod.splits)

lemma criticality_append:
  "check_revocation_criticality es (vs @ ws) = vs @ check_revocation_criticality es ws"
  by (induction es arbitrary: ws) simp_all

lemma ratio_append:
  "check_revocation_rotation_ratio es r (vs @ ws) = vs @ check_revocation_rotation_ratio es r ws"
  by (simp add: check_revocation_rotation_ratio_def Let_def)

lemma check_rule_append: "check_rule es (vs @ ws) r = vs @ check_rule es ws r"
  by (cases r) (simp_all add: consecutive_append criticality_append ratio_append)

lemma check_rule_from_Nil: "check_rule es vs r = vs @ check_rule es [] r"
  using check_rule_append [of es vs "[]" r] by simp

lemma foldl_check_rule: "foldl (check_rule es) vs rules = vs @ concat (map (check_rule es []) rules)"
proof (induction rules arbitrary: vs)
  case (Cons r rules)
  then show ?case
    using check_rule_from_Nil [of es vs r] by simp
qed simp

section \<open>What each rule means\<close>

text \<open>The specification of a rule over the log, with no loop and no accumulator.\<close>

fun rule_holds :: "audit_entry list \<Rightarrow> compliance_rule \<Rightarrow> bool" where
  "rule_holds es (MaxConsecutiveAuthFailures m) =
     (\<forall>block \<in> set (sublists es). list_all is_failure block \<longrightarrow> length block \<le> m)"
| "rule_holds es RequireCriticalOnRevocation =
     list_all (\<lambda>e. ae_action e = ''key.revoke'' \<longrightarrow> ae_severity e = Critical) es"
| "rule_holds es (MaxRevocationToRotationRatio r) =
     (if count_action ''key.rotation'' es = 0 then count_action ''key.revoke'' es = 0
      else \<not> f64_lt r (f64_div (count_action ''key.revoke'' es) (count_action ''key.rotation'' es)))"

lemma failing_block_across:
  assumes "\<not> is_failure e" "list_all is_failure block"
  shows "sublist block (pre @ e # es) \<longleftrightarrow> sublist block pre \<or> sublist block es"
proof -
  have no: "\<not> prefix (x # xs) (e # es)" if "is_failure x" for x xs
    using that assms(1) by auto
  have "sublist block pre" if "block = b1 @ b2" "suffix b1 pre" "prefix b2 (e # es)" for b1 b2
  proof -
    have "b2 = []"
      using that assms(2) no by (cases b2) auto
    then show ?thesis
      using that by (auto intro: suffix_imp_sublist)
  qed
  moreover have "sublist block (e # es) \<longleftrightarrow> sublist block es"
    using assms no [of "hd block" "tl block"] by (cases block) (auto simp: sublist_Cons_right)
  ultimately show ?thesis
    by (auto simp: sublist_append)
qed

lemma consecutive_loop_Nil_iff:
  assumes "list_all is_failure pre" "length run = length pre"
  shows "(case consecutive_loop m es run vs of (r, ws) \<Rightarrow> flag_run m r ws) = [] \<longleftrightarrow>
    vs = [] \<and> (\<forall>block. sublist block (pre @ es) \<longrightarrow> list_all is_failure block \<longrightarrow> length block \<le> m)"
  using assms
proof (induction es arbitrary: pre run vs)
  case Nil
  have "(\<forall>block. sublist block pre \<longrightarrow> list_all is_failure block \<longrightarrow> length block \<le> m)
      \<longleftrightarrow> length pre \<le> m"
    using Nil.prems(1) sublist_length_le by (meson order_trans sublist_order.order_refl)
  then show ?case
    using Nil.prems(2) by (simp add: flag_run_Nil_iff)
next
  case (Cons e es)
  show ?case
  proof (cases "is_failure e")
    case True
    then show ?thesis
      using Cons.IH [of "pre @ [e]" "run @ [ae_index e]"] Cons.prems by simp
  next
    case False
    have "(\<forall>block. sublist block pre \<longrightarrow> list_all is_failure block \<longrightarrow> length block \<le> m)
      \<longleftrightarrow> length pre \<le> m"
      using Cons.prems(1) sublist_length_le by (meson order_trans sublist_order.order_refl)
    then show ?thesis
      using False Cons.IH [of "[]" "[]" "flag_run m run vs"] Cons.prems(2)
        failing_block_across [OF False, of _ pre es] by (auto simp: flag_run_Nil_iff)
  qed
qed

lemma consecutive_Nil_iff:
  "check_consecutive_auth_failures es m [] = [] \<longleftrightarrow> rule_holds es (MaxConsecutiveAuthFailures m)"
  using consecutive_loop_Nil_iff [of "[]" "[]" m es "[]"]
  by (auto simp: check_consecutive_auth_failures_def)

lemma criticality_Nil_iff:
  "check_revocation_criticality es vs = [] \<longleftrightarrow> vs = [] \<and> rule_holds es RequireCriticalOnRevocation"
  by (induction es arbitrary: vs) auto

lemma ratio_Nil_iff:
  "check_revocation_rotation_ratio es r [] = [] \<longleftrightarrow> rule_holds es (MaxRevocationToRotationRatio r)"
  by (simp add: check_revocation_rotation_ratio_def Let_def)

lemma check_rule_Nil_iff: "check_rule es [] r = [] \<longleftrightarrow> rule_holds es r"
  by (cases r) (simp_all only: check_rule.simps consecutive_Nil_iff criticality_Nil_iff ratio_Nil_iff simp_thms)

text \<open>
  C23. The policy gate decides its rules: on a non-empty log \<open>evaluate\<close> succeeds, and the report
  passes exactly when every rule holds of the log (no block of consecutive failures is longer than
  allowed, every revocation is critical, the ratio of revocations to rotations does not exceed the
  bound); on the empty log it is an error.
\<close>

theorem evaluate_decides_rules:
  "case evaluate lg rules of
     Inl e \<Rightarrow> al_entries lg = []
   | Inr rep \<Rightarrow> al_entries lg \<noteq> [] \<and> cr_total_entries rep = audit_len lg \<and>
       (cr_passed rep = list_all (rule_holds (al_entries lg)) rules)"
  by (auto simp: evaluate_def audit_is_empty_def foldl_check_rule check_rule_Nil_iff list_all_iff Let_def)

section \<open>What the gate can be made to pass\<close>

text \<open>Marking every revocation critical, after the fact.\<close>

definition mark_critical :: "audit_log \<Rightarrow> audit_log" where
  "mark_critical lg = lg\<lparr>al_entries := map (\<lambda>e. e\<lparr>ae_severity := Critical\<rparr>) (al_entries lg)\<rparr>"

text \<open>
  The severity the gate relies on is not protected by the chain: rewriting the severity of every
  entry of any non-empty log leaves the verdict of \<open>verify_chain\<close> as it was and makes
  \<open>RequireCriticalOnRevocation\<close> pass.
\<close>

theorem severity_rewrite_passes_gate:
  assumes "al_entries lg \<noteq> []"
  shows "verify_chain sha (mark_critical lg) = verify_chain sha lg \<and>
    (\<exists>rep. evaluate (mark_critical lg) [RequireCriticalOnRevocation] = Inr rep \<and> cr_passed rep)"
proof
  have "map covered (al_entries (mark_critical lg)) = map covered (al_entries lg)"
    by (simp add: mark_critical_def covered_def entry_text_def)
  then have "verify_from sha p i (al_entries (mark_critical lg)) = verify_from sha p i (al_entries lg)"
    for p i by (rule verify_from_covered)
  then show "verify_chain sha (mark_critical lg) = verify_chain sha lg"
    by (simp add: verify_chain_def mark_critical_def)
  have "al_entries (mark_critical lg) \<noteq> []"
    "rule_holds (al_entries (mark_critical lg)) RequireCriticalOnRevocation"
    using assms by (simp_all add: mark_critical_def list_all_iff)
  then show "\<exists>rep. evaluate (mark_critical lg) [RequireCriticalOnRevocation] = Inr rep \<and> cr_passed rep"
    by (simp add: evaluate_def audit_is_empty_def check_rule_Nil_iff criticality_Nil_iff Let_def)
qed

theorem severity_rewrite_passes_gate_witness:
  "\<exists>rep. evaluate (mark_critical \<lparr>al_entries = [\<lparr>ae_index = 0, ae_timestamp = 1,
      ae_actor = ''eve'', ae_action = ''key.revoke'', ae_detail = None, ae_severity = Info,
      ae_hash = []\<rparr>]\<rparr>) [RequireCriticalOnRevocation] = Inr rep \<and> cr_passed rep"
  using severity_rewrite_passes_gate [of "\<lparr>al_entries = [\<lparr>ae_index = 0, ae_timestamp = 1,
      ae_actor = ''eve'', ae_action = ''key.revoke'', ae_detail = None, ae_severity = Info,
      ae_hash = []\<rparr>]\<rparr>"] by simp

end
