(* ===== verification/Revocation.thy ===== *)
theory Revocation
  imports Keyed_Store
begin

text \<open>
  \<open>src/revocation.rs\<close>: the key revocation list.  SHA-256 is the parameter \<open>sha\<close>, the clock
  and the random key are arguments, and \<open>serde_json::to_string\<close> of an entry is the parameter
  \<open>entry_json\<close> of the export.
\<close>

section \<open>Model\<close>

datatype revocation_reason = Compromised | Rotated | Retired | Policy

fun reason_to_string :: "revocation_reason \<Rightarrow> string" where
  "reason_to_string Compromised = ''compromised''"
| "reason_to_string Rotated = ''rotated''"
| "reason_to_string Retired = ''retired''"
| "reason_to_string Policy = ''policy''"

record revocation_entry =
  re_key_id :: string
  re_reason :: string
  re_timestamp :: u64
  re_revoked_by :: string
  re_details :: string

record revocation_list =
  rl_revocation_key :: bytes
  rl_entries :: "revocation_entry list"
  rl_revoked_ids :: "(string, nat) hmap"
  rl_signature :: bytes

definition list_revoked :: "revocation_list \<Rightarrow> revocation_entry list" where
  "list_revoked rl = rl_entries rl"

text \<open>\<open>new\<close> draws the 32 bytes of the key from the operating system.\<close>

definition rl_with_key :: "bytes \<Rightarrow> revocation_list" where
  "rl_with_key key = \<lparr>rl_revocation_key = key, rl_entries = [], rl_revoked_ids = [], rl_signature = []\<rparr>"

definition rl_new :: "(nat \<Rightarrow> bytes) \<Rightarrow> revocation_list" where
  "rl_new getrandom = rl_with_key (getrandom 32)"

definition rl_compute_signature :: "(bytes \<Rightarrow> bytes) \<Rightarrow> revocation_list \<Rightarrow> bytes" where
  "rl_compute_signature sha rl =
     sha (rl_revocation_key rl @
       concat (map (\<lambda>e. as_bytes (re_key_id e) @ as_bytes (re_reason e) @ to_le_bytes (re_timestamp e))
         (rl_entries rl)))"

definition rl_revoke ::
  "(bytes \<Rightarrow> bytes) \<Rightarrow> u64 \<Rightarrow> string \<Rightarrow> revocation_reason \<Rightarrow> string \<Rightarrow> string
     \<Rightarrow> revocation_list \<Rightarrow> revocation_list" where
  "rl_revoke sha timestamp key_id reason revoked_by details rl =
     (let idx = length (rl_entries rl);
          rl1 = rl\<lparr>rl_entries := rl_entries rl @
                  [\<lparr>re_key_id = key_id, re_reason = reason_to_string reason, re_timestamp = timestamp,
                    re_revoked_by = revoked_by, re_details = details\<rparr>],
                rl_revoked_ids := hm_insert key_id idx (rl_revoked_ids rl)\<rparr>
      in rl1\<lparr>rl_signature := rl_compute_signature sha rl1\<rparr>)"

definition is_revoked :: "revocation_list \<Rightarrow> string \<Rightarrow> bool" where
  "is_revoked rl key_id = hm_contains (rl_revoked_ids rl) key_id"

definition rl_get_entry :: "revocation_list \<Rightarrow> string \<Rightarrow> revocation_entry option" where
  "rl_get_entry rl key_id =
     (case hm_get (rl_revoked_ids rl) key_id of
        None \<Rightarrow> None
      | Some idx \<Rightarrow> if idx < length (rl_entries rl) then Some (rl_entries rl ! idx) else None)"

definition verify_integrity :: "(bytes \<Rightarrow> bytes) \<Rightarrow> revocation_list \<Rightarrow> bool" where
  "verify_integrity sha rl =
     (if rl_signature rl = [] then True else rl_compute_signature sha rl = rl_signature rl)"

fun join :: "string \<Rightarrow> string list \<Rightarrow> string" where
  "join sep [] = []"
| "join sep [s] = s"
| "join sep (s # t # ts) = s @ sep @ join sep (t # ts)"

definition export_json :: "(revocation_entry \<Rightarrow> string) \<Rightarrow> revocation_list \<Rightarrow> string" where
  "export_json entry_json rl =
     ''{'' @ [CHR 0x22] @ ''version'' @ [CHR 0x22] @ '':1,'' @ [CHR 0x22] @ ''entries'' @ [CHR 0x22] @ '':['' @
     join '','' (map entry_json (rl_entries rl)) @
     ''],'' @ [CHR 0x22] @ ''signature'' @ [CHR 0x22] @ '':'' @ [CHR 0x22] @
     hex_encode (rl_signature rl) @ [CHR 0x22] @ ''}''"

section \<open>The index agrees with the entries\<close>

text \<open>The latest entry of a key, searched from the end.\<close>

definition latest :: "revocation_entry list \<Rightarrow> string \<Rightarrow> revocation_entry option" where
  "latest es key_id = find (\<lambda>e. re_key_id e = key_id) (rev es)"

definition rl_inv :: "(bytes \<Rightarrow> bytes) \<Rightarrow> revocation_list \<Rightarrow> bool" where
  "rl_inv sha rl =
     ((\<forall>k i. hm_get (rl_revoked_ids rl) k = Some i \<longrightarrow> i < length (rl_entries rl)) \<and>
      rl_get_entry rl = latest (rl_entries rl) \<and>
      (rl_entries rl = [] \<longrightarrow> rl_signature rl = []) \<and>
      (rl_entries rl \<noteq> [] \<longrightarrow> rl_signature rl = rl_compute_signature sha rl))"

lemma rl_inv_index: "rl_inv sha rl \<Longrightarrow> hm_get (rl_revoked_ids rl) k = Some i \<Longrightarrow> i < length (rl_entries rl)"
  by (simp add: rl_inv_def)

lemma rl_inv_with_key: "rl_inv sha (rl_with_key key)"
  by (simp add: rl_inv_def rl_with_key_def rl_get_entry_def latest_def fun_eq_iff)

lemma rl_revoke_fields:
  "rl_entries (rl_revoke sha t k r who d rl) = rl_entries rl @
     [\<lparr>re_key_id = k, re_reason = reason_to_string r, re_timestamp = t, re_revoked_by = who, re_details = d\<rparr>]"
  "rl_revoked_ids (rl_revoke sha t k r who d rl) = hm_insert k (length (rl_entries rl)) (rl_revoked_ids rl)"
  "rl_signature (rl_revoke sha t k r who d rl) = rl_compute_signature sha (rl_revoke sha t k r who d rl)"
  by (simp_all add: rl_revoke_def rl_compute_signature_def Let_def)

lemma rl_inv_revoke:
  assumes "rl_inv sha rl"
  shows "rl_inv sha (rl_revoke sha t k r who d rl)"
proof -
  let ?rl = "rl_revoke sha t k r who d rl"
  have idx: "\<forall>x i. hm_get (rl_revoked_ids ?rl) x = Some i \<longrightarrow> i < length (rl_entries ?rl)"
    using assms by (auto simp: rl_inv_def rl_revoke_fields store_simps less_Suc_eq)
  have "rl_get_entry ?rl x = latest (rl_entries ?rl) x" for x
  proof (cases "x = k")
    case True
    then show ?thesis
      by (simp add: rl_get_entry_def rl_revoke_fields store_simps latest_def)
  next
    case False
    then have "rl_get_entry ?rl x = rl_get_entry rl x"
      using rl_inv_index [OF assms, of x]
      by (auto simp: rl_get_entry_def rl_revoke_fields store_simps nth_append split: option.splits)
    moreover have "latest (rl_entries ?rl) x = latest (rl_entries rl) x"
      using False by (simp add: latest_def rl_revoke_fields)
    ultimately show ?thesis
      using assms by (simp add: rl_inv_def)
  qed
  then show ?thesis
    using idx by (simp add: rl_inv_def fun_eq_iff rl_revoke_fields(1,3))
qed

inductive rl_reachable :: "(bytes \<Rightarrow> bytes) \<Rightarrow> revocation_list \<Rightarrow> bool" for sha where
  rl_start: "rl_reachable sha (rl_with_key key)"
| rl_step: "rl_reachable sha rl \<Longrightarrow> rl_reachable sha (rl_revoke sha t k r who d rl)"

lemma rl_reachable_inv: "rl_reachable sha rl \<Longrightarrow> rl_inv sha rl"
  by (induction rule: rl_reachable.induct) (auto intro: rl_inv_with_key rl_inv_revoke)

text \<open>
  C33. In every list built by revocations, \<open>is_revoked\<close> says exactly whether some entry names the
  key, \<open>get_entry\<close> returns the latest such entry (it never misses through a stale index), and
  \<open>verify_integrity\<close> accepts the list.
\<close>

theorem revocation_list_correct:
  assumes "rl_reachable sha rl"
  shows "is_revoked rl k = (k \<in> re_key_id ` set (rl_entries rl)) \<and>
    rl_get_entry rl k = find (\<lambda>e. re_key_id e = k) (rev (rl_entries rl)) \<and>
    verify_integrity sha rl"
proof -
  note inv = rl_reachable_inv [OF assms]
  have g: "rl_get_entry rl k = latest (rl_entries rl) k"
    using inv by (simp add: rl_inv_def)
  have "is_revoked rl k \<longleftrightarrow> rl_get_entry rl k \<noteq> None"
    using rl_inv_index [OF inv] by (auto simp: is_revoked_def hm_contains_def rl_get_entry_def split: option.splits)
  then have "is_revoked rl k = (k \<in> re_key_id ` set (rl_entries rl))"
    using g by (auto simp: latest_def find_None_iff)
  then show ?thesis
    using inv g by (auto simp: latest_def verify_integrity_def rl_inv_def)
qed

theorem revocation_list_correct_witness:
  "is_revoked (rl_revoke (\<lambda>x. x) 9 ''k2'' Policy ''bob'' '''' (rl_revoke (\<lambda>x. x) 5 ''k1'' Retired ''al'' ''x''
     (rl_with_key [1, 2]))) ''k1''"
  using revocation_list_correct [OF rl_step [OF rl_step [OF rl_start]]]
  by (simp add: rl_revoke_fields rl_with_key_def)

text \<open>
  Who revoked a key and the details given are outside the signature: any list that differs from
  a signed list only there, or in where a key identifier ends and the reason begins, is accepted or
  rejected alike, with any signing key.
\<close>

theorem revocation_signature_uncovered:
  assumes "rl_revocation_key rl = rl_revocation_key rl'" "rl_signature rl = rl_signature rl'"
    and "map (\<lambda>e. (re_key_id e @ re_reason e, re_timestamp e)) (rl_entries rl)
       = map (\<lambda>e. (re_key_id e @ re_reason e, re_timestamp e)) (rl_entries rl')"
  shows "verify_integrity sha rl = verify_integrity sha rl'"
proof -
  define bs where "bs p = as_bytes (fst p) @ to_le_bytes (snd p)" for p :: "string \<times> u64"
  define signed where "signed e = (re_key_id e @ re_reason e, re_timestamp e)" for e :: revocation_entry
  have "rl_compute_signature sha l = sha (rl_revocation_key l @ concat (map bs (map signed (rl_entries l))))" for l
    by (simp add: rl_compute_signature_def bs_def signed_def comp_def)
  then have "rl_compute_signature sha rl = rl_compute_signature sha rl'"
    using assms(1,3) by (simp add: signed_def [abs_def] del: map_map)
  then show ?thesis
    using assms(2) by (simp add: verify_integrity_def)
qed

theorem revocation_signature_uncovered_witness:
  "verify_integrity rev \<lparr>rl_revocation_key = [1], rl_entries = [\<lparr>re_key_id = ''k1'', re_reason = ''policy'',
      re_timestamp = 3, re_revoked_by = ''alice'', re_details = ''x''\<rparr>], rl_revoked_ids = [], rl_signature = [2]\<rparr> =
   verify_integrity rev \<lparr>rl_revocation_key = [1], rl_entries = [\<lparr>re_key_id = ''k1pol'', re_reason = ''icy'',
      re_timestamp = 3, re_revoked_by = ''mallory'', re_details = ''''\<rparr>], rl_revoked_ids = [], rl_signature = [2]\<rparr>"
  by (rule revocation_signature_uncovered) simp_all

end
