(* ===== verification/Rotation.thy ===== *)
theory Rotation
  imports Keyed_Store
begin

text \<open>
  \<open>src/rotation.rs\<close>: the key rotation manager.  The clock is the argument \<open>now\<close>; counters are
  64-bit and wrap.
\<close>

section \<open>Model\<close>

record key_metadata =
  km_key_id :: string
  km_created_at :: u64
  km_last_used_at :: u64
  km_encrypt_count :: u64
  km_decrypt_count :: u64
  km_max_lifetime_seconds :: u64
  km_max_operations :: u64
  km_is_expired :: bool
  km_rotated_to :: string

definition total_operations :: "key_metadata \<Rightarrow> u64" where
  "total_operations m = km_encrypt_count m + km_decrypt_count m"

definition age_seconds :: "u64 \<Rightarrow> key_metadata \<Rightarrow> u64" where
  "age_seconds now m = saturating_sub now (km_created_at m)"

definition should_expire :: "u64 \<Rightarrow> key_metadata \<Rightarrow> bool" where
  "should_expire now m =
     (if 0 < km_max_lifetime_seconds m \<and> km_max_lifetime_seconds m < age_seconds now m then True
      else if 0 < km_max_operations m \<and> km_max_operations m \<le> total_operations m then True
      else False)"

definition record_encrypt :: "u64 \<Rightarrow> key_metadata \<Rightarrow> key_metadata" where
  "record_encrypt now m = m\<lparr>km_encrypt_count := km_encrypt_count m + 1, km_last_used_at := now\<rparr>"

definition record_decrypt :: "u64 \<Rightarrow> key_metadata \<Rightarrow> key_metadata" where
  "record_decrypt now m = m\<lparr>km_decrypt_count := km_decrypt_count m + 1, km_last_used_at := now\<rparr>"

record rotation_manager =
  rm_metadata :: "(string, key_metadata) hmap"
  rm_default_max_lifetime :: u64
  rm_default_max_operations :: u64

definition rotation_new :: "u64 \<Rightarrow> u64 \<Rightarrow> rotation_manager" where
  "rotation_new lifetime ops =
     \<lparr>rm_metadata = [], rm_default_max_lifetime = lifetime, rm_default_max_operations = ops\<rparr>"

definition rotation_register ::
  "u64 \<Rightarrow> string \<Rightarrow> u64 option \<Rightarrow> u64 option \<Rightarrow> rotation_manager \<Rightarrow> rotation_manager" where
  "rotation_register now key_id max_lifetime max_operations rm =
     rm\<lparr>rm_metadata := hm_insert key_id
          \<lparr>km_key_id = key_id, km_created_at = now, km_last_used_at = now, km_encrypt_count = 0,
           km_decrypt_count = 0,
           km_max_lifetime_seconds =
             (case max_lifetime of Some l \<Rightarrow> l | None \<Rightarrow> rm_default_max_lifetime rm),
           km_max_operations =
             (case max_operations of Some n \<Rightarrow> n | None \<Rightarrow> rm_default_max_operations rm),
           km_is_expired = False, km_rotated_to = []\<rparr>
          (rm_metadata rm)\<rparr>"

definition record_usage :: "u64 \<Rightarrow> string \<Rightarrow> bool \<Rightarrow> rotation_manager \<Rightarrow> rotation_manager" where
  "record_usage now key_id is_encrypt rm =
     (case hm_get (rm_metadata rm) key_id of
        None \<Rightarrow> rm
      | Some m \<Rightarrow>
          rm\<lparr>rm_metadata := hm_insert key_id
               (if is_encrypt then record_encrypt now m else record_decrypt now m) (rm_metadata rm)\<rparr>)"

definition needs_rotation :: "u64 \<Rightarrow> rotation_manager \<Rightarrow> string \<Rightarrow> bool" where
  "needs_rotation now rm key_id =
     (case hm_get (rm_metadata rm) key_id of None \<Rightarrow> False | Some m \<Rightarrow> should_expire now m)"

definition expire_key :: "string \<Rightarrow> string \<Rightarrow> rotation_manager \<Rightarrow> rotation_manager" where
  "expire_key key_id rotated_to rm =
     (case hm_get (rm_metadata rm) key_id of
        None \<Rightarrow> rm
      | Some m \<Rightarrow>
          rm\<lparr>rm_metadata := hm_insert key_id (m\<lparr>km_is_expired := True, km_rotated_to := rotated_to\<rparr>)
               (rm_metadata rm)\<rparr>)"

definition get_metadata :: "rotation_manager \<Rightarrow> string \<Rightarrow> key_metadata option" where
  "get_metadata rm key_id = hm_get (rm_metadata rm) key_id"

definition key_count :: "rotation_manager \<Rightarrow> nat" where
  "key_count rm = length (rm_metadata rm)"

section \<open>When a key is due\<close>

text \<open>Uses of keys: the time, the key, and whether it encrypts.\<close>

definition record_usages :: "(u64 \<times> string \<times> bool) list \<Rightarrow> rotation_manager \<Rightarrow> rotation_manager" where
  "record_usages us rm = foldl (\<lambda>rm (now, k, enc). record_usage now k enc rm) rm us"

definition uses_of :: "string \<Rightarrow> (u64 \<times> string \<times> bool) list \<Rightarrow> nat" where
  "uses_of k us = length (filter (\<lambda>(now, x, enc). x = k) us)"

lemma record_usage_get:
  "get_metadata (record_usage now x enc rm) k =
    (if x = k then map_option (if enc then record_encrypt now else record_decrypt now) (get_metadata rm k)
     else get_metadata rm k)"
  by (auto simp: record_usage_def get_metadata_def store_simps split: option.splits)

lemma record_usages_meta:
  assumes "get_metadata rm k = Some m"
  shows "\<exists>m'. get_metadata (record_usages us rm) k = Some m' \<and>
    km_created_at m' = km_created_at m \<and> km_max_lifetime_seconds m' = km_max_lifetime_seconds m \<and>
    km_max_operations m' = km_max_operations m \<and>
    total_operations m' = total_operations m + of_nat (uses_of k us)"
  using assms
proof (induction us arbitrary: rm m)
  case Nil
  then show ?case by (simp add: record_usages_def uses_of_def)
next
  case (Cons u us)
  obtain now x enc where u: "u = (now, x, enc)" by (cases u)
  define m1 where "m1 = (if x = k then (if enc then record_encrypt now m else record_decrypt now m) else m)"
  have m1: "get_metadata (record_usage now x enc rm) k = Some m1"
    using Cons.prems by (simp add: record_usage_get m1_def)
  have f: "km_created_at m1 = km_created_at m" "km_max_lifetime_seconds m1 = km_max_lifetime_seconds m"
    "km_max_operations m1 = km_max_operations m"
    "total_operations m1 = total_operations m + (if x = k then 1 else 0)"
    by (simp_all add: m1_def record_encrypt_def record_decrypt_def total_operations_def)
  have n: "uses_of k (u # us) = (if x = k then 1 else 0) + uses_of k us"
    by (simp add: uses_of_def u)
  show ?case
    using Cons.IH [OF m1] f n by (auto simp: record_usages_def u)
qed

text \<open>
  C34. A key is due for rotation exactly when it has outlived its lifetime or been used up: registered
  at \<open>t\<close> with lifetime \<open>l\<close> and budget \<open>n\<close> (0 switches a limit off), after any recorded uses
  (fewer than \<open>2^64\<close> of this key), \<open>needs_rotation\<close> at \<open>now\<close> is true iff \<open>now\<close> is more
  than \<open>l\<close> past \<open>t\<close> or at least \<open>n\<close> of the uses were of the key.
\<close>

theorem needs_rotation_iff:
  assumes "uses_of k us < 2 ^ 64"
  shows "needs_rotation now (record_usages us (rotation_register t k (Some l) (Some n) rm)) k \<longleftrightarrow>
    l \<noteq> 0 \<and> unat t + unat l < unat now \<or> n \<noteq> 0 \<and> unat n \<le> uses_of k us"
proof -
  define rm1 where "rm1 = rotation_register t k (Some l) (Some n) rm"
  obtain m where m: "get_metadata rm1 k = Some m" and
    f: "km_created_at m = t" "km_max_lifetime_seconds m = l" "km_max_operations m = n" "total_operations m = 0"
    by (simp add: rm1_def rotation_register_def get_metadata_def store_simps total_operations_def)
  obtain m' where m': "get_metadata (record_usages us rm1) k = Some m'" "km_created_at m' = t"
    "km_max_lifetime_seconds m' = l" "km_max_operations m' = n" "total_operations m' = of_nat (uses_of k us)"
    using record_usages_meta [OF m, of us] f by auto
  have "l < saturating_sub now t \<longleftrightarrow> unat t + unat l < unat now" for l :: u64
    by (auto simp: word_less_nat_alt unat_saturating_sub)
  moreover have "n \<le> of_nat (uses_of k us) \<longleftrightarrow> unat n \<le> uses_of k us"
    using assms by (simp add: word_le_nat_alt unat_of_nat)
  ultimately show ?thesis
    using m' by (simp add: needs_rotation_def should_expire_def age_seconds_def get_metadata_def
        rm1_def [symmetric] word_greater_zero_iff)
qed

theorem needs_rotation_iff_witness:
  "needs_rotation 5 (record_usages [(1, ''k'', True), (2, ''x'', True), (3, ''k'', False)]
     (rotation_register 0 ''k'' (Some 100) (Some 2) (rotation_new 0 0))) ''k''"
  using needs_rotation_iff [of "''k''" "[(1, ''k'', True), (2, ''x'', True), (3, ''k'', False)]" 5 0 100 2]
  by (simp add: uses_of_def)

text \<open>
  Expiry is recorded and nothing more: \<open>expire_key\<close> marks a tracked key and names its successor,
  adds no key, and changes neither what \<open>needs_rotation\<close> answers for any key nor that the key's
  uses keep being counted; in particular an expired key within its limits is still reported as not
  due.
\<close>

theorem expire_key_is_a_mark:
  "needs_rotation now (expire_key k r rm) x = needs_rotation now rm x \<and>
   hm_contains (rm_metadata (expire_key k r rm)) x = hm_contains (rm_metadata rm) x \<and>
   get_metadata (expire_key k r rm) k
     = map_option (\<lambda>m. m\<lparr>km_is_expired := True, km_rotated_to := r\<rparr>) (get_metadata rm k)"
  by (auto simp: expire_key_def needs_rotation_def get_metadata_def store_simps hm_contains_def
      should_expire_def age_seconds_def total_operations_def split: option.splits)

end
