(* ===== verification/Anchor_Ledger.thy ===== *)
theory Anchor_Ledger
  imports Prelude
begin

text \<open>
  The interface of an anchor ledger: what the trait \<open>SmartContractAnchor\<close> of
  \<open>src/blockchain/smart_contract.rs\<close> promises and \<open>AnchorRegistry\<close> of
  \<open>src/blockchain/key_anchor.rs\<close> provides.  A ledger assigns every public key an identifier,
  records its owner, and lets only the owner revoke it.
\<close>

datatype ledger_op = LedgerSubmit bytes string u64 | LedgerRevoke string string

text \<open>One call to a ledger; a call that fails leaves the ledger as it was.\<close>

fun ledger_exec ::
  "(bytes \<Rightarrow> string \<Rightarrow> u64 \<Rightarrow> 's \<Rightarrow> 'e + 'a \<times> 's) \<Rightarrow> (string \<Rightarrow> string \<Rightarrow> 's \<Rightarrow> 'e + 's)
     \<Rightarrow> 's \<Rightarrow> ledger_op \<Rightarrow> 's" where
  "ledger_exec submit revoke s (LedgerSubmit pk ow t) =
     (case submit pk ow t s of Inl e \<Rightarrow> s | Inr (a, s') \<Rightarrow> s')"
| "ledger_exec submit revoke s (LedgerRevoke a ow) =
     (case revoke a ow s of Inl e \<Rightarrow> s | Inr s' \<Rightarrow> s')"

definition ledger_run ::
  "(bytes \<Rightarrow> string \<Rightarrow> u64 \<Rightarrow> 's \<Rightarrow> 'e + 'a \<times> 's) \<Rightarrow> (string \<Rightarrow> string \<Rightarrow> 's \<Rightarrow> 'e + 's)
     \<Rightarrow> 's \<Rightarrow> ledger_op list \<Rightarrow> 's" where
  "ledger_run submit revoke = foldl (ledger_exec submit revoke)"

text \<open>\<open>status s a\<close> is the owner of the anchor and whether it is revoked.\<close>

locale anchor_ledger =
  fixes submit :: "bytes \<Rightarrow> string \<Rightarrow> u64 \<Rightarrow> 's \<Rightarrow> 'e + 'a \<times> 's"
    and revoke :: "string \<Rightarrow> string \<Rightarrow> 's \<Rightarrow> 'e + 's"
    and status :: "'s \<Rightarrow> string \<Rightarrow> (string \<times> bool) option"
    and anchor_of :: "bytes \<Rightarrow> string"
  assumes submit_iff: "(\<exists>x s'. submit pk ow t s = Inr (x, s')) \<longleftrightarrow>
      pk \<noteq> [] \<and> status s (anchor_of pk) = None"
    and submit_status: "submit pk ow t s = Inr (x, s') \<Longrightarrow>
      status s' = (status s)(anchor_of pk \<mapsto> (ow, False))"
    and revoke_iff: "(\<exists>s'. revoke a ow s = Inr s') \<longleftrightarrow> (\<exists>r. status s a = Some (ow, r))"
    and revoke_status: "revoke a ow s = Inr s' \<Longrightarrow> status s' = (status s)(a \<mapsto> (ow, True))"
begin

text \<open>What one call does to the status of one anchor.\<close>

lemma exec_submit_known:
  assumes "status s a \<noteq> None"
  shows "status (ledger_exec submit revoke s (LedgerSubmit pk ow t)) a = status s a"
proof (cases "submit pk ow t s")
  case (Inr p)
  then obtain x s' where p: "submit pk ow t s = Inr (x, s')"
    by (cases p) auto
  then have "anchor_of pk \<noteq> a"
    using submit_iff [of pk ow t s] assms by auto
  then show ?thesis
    using p submit_status [OF p] by simp
qed simp

lemma exec_revoke:
  "status (ledger_exec submit revoke s (LedgerRevoke b ow)) a =
    (if b = a \<and> (\<exists>r. status s a = Some (ow, r)) then Some (ow, True) else status s a)"
proof (cases "revoke b ow s")
  case (Inl e)
  then show ?thesis
    using revoke_iff [of b ow s] by auto
next
  case (Inr s')
  then show ?thesis
    using revoke_iff [of b ow s] revoke_status [OF Inr] by auto
qed

lemma submit_taken: "status s (anchor_of pk) \<noteq> None \<Longrightarrow> \<exists>e. submit pk ow t s = Inl e"
  using submit_iff [of pk ow t s] by (cases "submit pk ow t s") auto

lemma revoke_other_owner: "status s a = Some (ow, r) \<Longrightarrow> ow' \<noteq> ow \<Longrightarrow> \<exists>e. revoke a ow' s = Inl e"
  using revoke_iff [of a ow' s] by (cases "revoke a ow' s") auto

lemma exec_owner:
  assumes "status s a = Some (ow, r)"
  shows "\<exists>r'. status (ledger_exec submit revoke s op) a = Some (ow, r') \<and> (r \<longrightarrow> r')"
proof (cases op)
  case (LedgerSubmit pk ow' t)
  then show ?thesis
    using assms exec_submit_known [of s a pk ow' t] by simp
next
  case (LedgerRevoke b ow')
  then show ?thesis
    using assms exec_revoke [of s b ow' a] by auto
qed

lemma run_owner:
  assumes "status s a = Some (ow, r)"
  shows "\<exists>r'. status (ledger_run submit revoke s ops) a = Some (ow, r') \<and> (r \<longrightarrow> r')"
  using assms
proof (induction ops arbitrary: s r)
  case (Cons op ops)
  then show ?case
    using exec_owner [OF Cons.prems, of op] by (fastforce simp: ledger_run_def)
qed (simp add: ledger_run_def)

text \<open>A revocation is for ever.\<close>

lemma run_revoked:
  "status s a = Some (ow, True) \<Longrightarrow> status (ledger_run submit revoke s ops) a = Some (ow, True)"
  using run_owner by fastforce

text \<open>An anchor that has become revoked was revoked by its owner.\<close>

lemma run_revoked_by_owner:
  assumes "status s a = Some (ow, False)" "LedgerRevoke a ow \<notin> set ops"
  shows "status (ledger_run submit revoke s ops) a = Some (ow, False)"
  using assms
proof (induction ops arbitrary: s)
  case (Cons op ops)
  have "status (ledger_exec submit revoke s op) a = Some (ow, False)"
  proof (cases op)
    case (LedgerSubmit pk ow' t)
    then show ?thesis
      using Cons.prems exec_submit_known [of s a pk ow' t] by simp
  next
    case (LedgerRevoke b ow')
    then show ?thesis
      using Cons.prems exec_revoke [of s b ow' a] by auto
  qed
  then show ?case
    using Cons by (simp add: ledger_run_def)
qed (simp add: ledger_run_def)

end

end
