(* ===== verification/Key_Anchor.thy ===== *)
theory Key_Anchor
  imports Anchor_Ledger Keyed_Store
begin

text \<open>
  \<open>src/blockchain/key_anchor.rs\<close>: the registry of key anchors.  SHA-256 is the parameter
  \<open>sha\<close>.  An operation that fails leaves the registry unchanged, so its state is returned
  only with success.
\<close>

section \<open>Model\<close>

datatype key_anchor_error =
    AlreadyAnchored | AnchorNotFound | AnchorRevoked | OwnerMismatch string string | EmptyPublicKey

record key_anchor =
  ka_anchor_id :: string
  ka_key_hash :: bytes
  ka_owner_id :: string
  ka_timestamp :: u64
  ka_revoked :: bool

definition key_anchor_new :: "(bytes \<Rightarrow> bytes) \<Rightarrow> bytes \<Rightarrow> string \<Rightarrow> u64 \<Rightarrow> key_anchor" where
  "key_anchor_new sha public_key ow timestamp =
     (let key_hash = sha public_key
      in \<lparr>ka_anchor_id = hex_encode key_hash, ka_key_hash = key_hash, ka_owner_id = ow,
          ka_timestamp = timestamp, ka_revoked = False\<rparr>)"

definition matches_key :: "(bytes \<Rightarrow> bytes) \<Rightarrow> key_anchor \<Rightarrow> bytes \<Rightarrow> bool" where
  "matches_key sha anchor public_key = (ka_key_hash anchor = sha public_key)"

record anchor_registry =
  ar_anchors :: "(string, key_anchor) hmap"

definition registry_new :: anchor_registry where
  "registry_new = \<lparr>ar_anchors = []\<rparr>"

definition registry_register ::
  "(bytes \<Rightarrow> bytes) \<Rightarrow> bytes \<Rightarrow> string \<Rightarrow> u64 \<Rightarrow> anchor_registry
     \<Rightarrow> key_anchor_error + key_anchor \<times> anchor_registry" where
  "registry_register sha public_key ow timestamp reg =
     (if public_key = [] then Inl EmptyPublicKey
      else
        let anchor = key_anchor_new sha public_key ow timestamp
        in if hm_contains (ar_anchors reg) (ka_anchor_id anchor) then Inl AlreadyAnchored
           else Inr (anchor, reg\<lparr>ar_anchors := hm_insert (ka_anchor_id anchor) anchor (ar_anchors reg)\<rparr>))"

definition registry_revoke ::
  "string \<Rightarrow> string \<Rightarrow> anchor_registry \<Rightarrow> key_anchor_error + anchor_registry" where
  "registry_revoke anchor_id requesting_owner reg =
     (case hm_get (ar_anchors reg) anchor_id of
        None \<Rightarrow> Inl AnchorNotFound
      | Some anchor \<Rightarrow>
          if ka_owner_id anchor \<noteq> requesting_owner
          then Inl (OwnerMismatch (ka_owner_id anchor) requesting_owner)
          else Inr (reg\<lparr>ar_anchors := hm_insert anchor_id (anchor\<lparr>ka_revoked := True\<rparr>) (ar_anchors reg)\<rparr>))"

definition registry_lookup :: "anchor_registry \<Rightarrow> string \<Rightarrow> key_anchor option" where
  "registry_lookup reg anchor_id = hm_get (ar_anchors reg) anchor_id"

definition verify_anchor_by_id :: "anchor_registry \<Rightarrow> string \<Rightarrow> key_anchor_error + key_anchor" where
  "verify_anchor_by_id reg anchor_id =
     (case hm_get (ar_anchors reg) anchor_id of
        None \<Rightarrow> Inl AnchorNotFound
      | Some anchor \<Rightarrow> if ka_revoked anchor then Inl AnchorRevoked else Inr anchor)"

definition verify_anchor ::
  "(bytes \<Rightarrow> bytes) \<Rightarrow> anchor_registry \<Rightarrow> bytes \<Rightarrow> key_anchor_error + key_anchor" where
  "verify_anchor sha reg public_key =
     (case hm_get (ar_anchors reg) (hex_encode (sha public_key)) of
        None \<Rightarrow> Inl AnchorNotFound
      | Some anchor \<Rightarrow> if ka_revoked anchor then Inl AnchorRevoked else Inr anchor)"

definition registry_len :: "anchor_registry \<Rightarrow> nat" where
  "registry_len reg = length (ar_anchors reg)"

definition registry_is_empty :: "anchor_registry \<Rightarrow> bool" where
  "registry_is_empty reg = (ar_anchors reg = [])"

section \<open>The registry is a ledger\<close>

definition registry_status :: "anchor_registry \<Rightarrow> string \<Rightarrow> (string \<times> bool) option" where
  "registry_status reg a =
     map_option (\<lambda>anchor. (ka_owner_id anchor, ka_revoked anchor)) (hm_get (ar_anchors reg) a)"

definition anchor_id_of :: "(bytes \<Rightarrow> bytes) \<Rightarrow> bytes \<Rightarrow> string" where
  "anchor_id_of sha public_key = hex_encode (sha public_key)"

interpretation registry: anchor_ledger "registry_register sha" registry_revoke registry_status "anchor_id_of sha"
  for sha
proof
  fix pk ow t s x s'
  show "(\<exists>x s'. registry_register sha pk ow t s = Inr (x, s')) =
      (pk \<noteq> [] \<and> registry_status s (anchor_id_of sha pk) = None)"
    by (simp add: registry_register_def key_anchor_new_def registry_status_def anchor_id_of_def
        hm_contains_def Let_def)
  show "registry_register sha pk ow t s = Inr (x, s') \<Longrightarrow>
      registry_status s' = (registry_status s)(anchor_id_of sha pk \<mapsto> (ow, False))"
    by (auto simp: registry_register_def key_anchor_new_def registry_status_def anchor_id_of_def
        Let_def fun_eq_iff store_simps split: if_splits)
next
  fix a ow s s'
  show "(\<exists>s'. registry_revoke a ow s = Inr s') = (\<exists>r. registry_status s a = Some (ow, r))"
    by (auto simp: registry_revoke_def registry_status_def split: option.splits)
  show "registry_revoke a ow s = Inr s' \<Longrightarrow>
      registry_status s' = (registry_status s)(a \<mapsto> (ow, True))"
    by (auto simp: registry_revoke_def registry_status_def fun_eq_iff store_simps
        split: option.splits if_splits)
qed

lemma verify_anchor_status:
  "verify_anchor sha reg pk = Inl AnchorRevoked \<longleftrightarrow>
    (\<exists>ow. registry_status reg (anchor_id_of sha pk) = Some (ow, True))"
  "(\<exists>anchor. verify_anchor sha reg pk = Inr anchor) \<longleftrightarrow>
    (\<exists>ow. registry_status reg (anchor_id_of sha pk) = Some (ow, False))"
  by (auto simp: verify_anchor_def registry_status_def anchor_id_of_def split: option.splits)

lemma verify_anchor_eq_by_id: "verify_anchor sha reg pk = verify_anchor_by_id reg (anchor_id_of sha pk)"
  by (simp add: verify_anchor_def verify_anchor_by_id_def anchor_id_of_def)

text \<open>
  C25. Revocation of an anchor is final.  Once the owner has revoked the anchor of a key, then after
  any further calls of the registry, by anybody, \<open>verify_anchor\<close> of the key still reports it
  as revoked, and the key cannot be registered anew, by any owner.
\<close>

theorem anchor_revocation_is_final:
  assumes "registry_revoke (anchor_id_of sha pk) ow reg = Inr reg'"
  shows "verify_anchor sha (ledger_run (registry_register sha) registry_revoke reg' ops) pk
           = Inl AnchorRevoked \<and>
         (pk = [] \<or> registry_register sha pk ow' t
           (ledger_run (registry_register sha) registry_revoke reg' ops) = Inl AlreadyAnchored)"
proof -
  have "registry_status reg' (anchor_id_of sha pk) = Some (ow, True)"
    using registry.revoke_status [OF assms] by simp
  then have st: "registry_status (ledger_run (registry_register sha) registry_revoke reg' ops)
      (anchor_id_of sha pk) = Some (ow, True)"
    by (rule registry.run_revoked)
  then have "verify_anchor sha (ledger_run (registry_register sha) registry_revoke reg' ops) pk
      = Inl AnchorRevoked"
    by (auto simp: verify_anchor_status)
  moreover have "pk = [] \<or> registry_register sha pk ow' t
      (ledger_run (registry_register sha) registry_revoke reg' ops) = Inl AlreadyAnchored"
    using st by (auto simp: registry_register_def key_anchor_new_def registry_status_def
        anchor_id_of_def hm_contains_def Let_def)
  ultimately show ?thesis ..
qed

theorem anchor_revocation_is_final_witness:
  "verify_anchor (\<lambda>x. x) (ledger_run (registry_register (\<lambda>x. x)) registry_revoke
      \<lparr>ar_anchors = [(''05'', \<lparr>ka_anchor_id = ''05'', ka_key_hash = [5], ka_owner_id = ''o'',
        ka_timestamp = 1, ka_revoked = True\<rparr>)]\<rparr>
      [LedgerSubmit [5] ''p'' 2]) [5] = Inl AnchorRevoked"
  by (rule anchor_revocation_is_final [THEN conjunct1, of "\<lambda>x. x" "[5]" "''o''"
        "\<lparr>ar_anchors = [(''05'', \<lparr>ka_anchor_id = ''05'', ka_key_hash = [5], ka_owner_id = ''o'',
        ka_timestamp = 1, ka_revoked = False\<rparr>)]\<rparr>"])
    (simp add: registry_revoke_def anchor_id_of_def hex_byte_def hex_digit_def char_of_def bit_0 Let_def)

text \<open>
  Only the owner revokes.  A key registered by an owner verifies after any further calls of the
  registry that do not include a revocation of its anchor in the owner's name.
\<close>

theorem anchor_valid_until_owner_revokes:
  assumes "registry_register sha pk ow t reg = Inr (anchor, reg')"
    and "LedgerRevoke (anchor_id_of sha pk) ow \<notin> set ops"
  shows "\<exists>a. verify_anchor sha (ledger_run (registry_register sha) registry_revoke reg' ops) pk = Inr a"
proof -
  have "registry_status reg' (anchor_id_of sha pk) = Some (ow, False)"
    using registry.submit_status [OF assms(1)] by simp
  from registry.run_revoked_by_owner [OF this assms(2)] show ?thesis
    by (auto simp: verify_anchor_status)
qed

theorem anchor_valid_until_owner_revokes_witness:
  "\<exists>a. verify_anchor (\<lambda>x. x) (ledger_run (registry_register (\<lambda>x. x)) registry_revoke
      \<lparr>ar_anchors = [(''05'', \<lparr>ka_anchor_id = ''05'', ka_key_hash = [5], ka_owner_id = ''o'',
        ka_timestamp = 1, ka_revoked = False\<rparr>)]\<rparr>
      [LedgerRevoke ''05'' ''eve'']) [5] = Inr a"
proof (rule anchor_valid_until_owner_revokes)
  show "registry_register (\<lambda>x. x) [5] ''o'' 1 registry_new =
      Inr (key_anchor_new (\<lambda>x. x) [5] ''o'' 1,
        \<lparr>ar_anchors = [(''05'', \<lparr>ka_anchor_id = ''05'', ka_key_hash = [5], ka_owner_id = ''o'',
        ka_timestamp = 1, ka_revoked = False\<rparr>)]\<rparr>)"
    by (simp add: registry_register_def registry_new_def key_anchor_new_def hm_contains_def
        hex_byte_def hex_digit_def char_of_def bit_0 Let_def)
qed simp

end
