(* ===== verification/Smart_Contract.thy ===== *)
theory Smart_Contract
  imports Key_Anchor
begin

text \<open>
  \<open>src/blockchain/smart_contract.rs\<close>: the simulated contract, an anchor registry with a block
  height.  A call that fails leaves the contract unchanged.
\<close>

section \<open>Model\<close>

datatype contract_error =
    SubmissionFailed string | VerificationFailed string | RevocationFailed string
  | ContractAnchorError key_anchor_error

record on_chain_result =
  oc_valid :: bool
  oc_block_height :: u64
  oc_anchor_id :: string

record simulated_contract =
  sc_registry :: anchor_registry
  sc_block_height :: u64

definition contract_new :: simulated_contract where
  "contract_new = \<lparr>sc_registry = registry_new, sc_block_height = 0\<rparr>"

definition submit_anchor ::
  "(bytes \<Rightarrow> bytes) \<Rightarrow> bytes \<Rightarrow> string \<Rightarrow> u64 \<Rightarrow> simulated_contract
     \<Rightarrow> contract_error + string \<times> simulated_contract" where
  "submit_anchor sha public_key ow timestamp c =
     (case registry_register sha public_key ow timestamp (sc_registry c) of
        Inl e \<Rightarrow> Inl (ContractAnchorError e)
      | Inr (anchor, reg) \<Rightarrow>
          Inr (ka_anchor_id anchor,
               c\<lparr>sc_registry := reg, sc_block_height := saturating_add (sc_block_height c) 1\<rparr>))"

definition verify_on_chain :: "simulated_contract \<Rightarrow> string \<Rightarrow> contract_error + on_chain_result" where
  "verify_on_chain c anchor_id =
     (case registry_lookup (sc_registry c) anchor_id of
        None \<Rightarrow> Inl (VerificationFailed (''anchor '' @ anchor_id @ '' not found''))
      | Some anchor \<Rightarrow> Inr \<lparr>oc_valid = (\<not> ka_revoked anchor), oc_block_height = sc_block_height c,
                             oc_anchor_id = anchor_id\<rparr>)"

definition revoke_anchor ::
  "string \<Rightarrow> string \<Rightarrow> simulated_contract \<Rightarrow> contract_error + simulated_contract" where
  "revoke_anchor anchor_id requesting_owner c =
     (case registry_revoke anchor_id requesting_owner (sc_registry c) of
        Inl e \<Rightarrow> Inl (ContractAnchorError e)
      | Inr reg \<Rightarrow> Inr (c\<lparr>sc_registry := reg, sc_block_height := saturating_add (sc_block_height c) 1\<rparr>))"

section \<open>The contract is a ledger\<close>

definition contract_status :: "simulated_contract \<Rightarrow> string \<Rightarrow> (string \<times> bool) option" where
  "contract_status c = registry_status (sc_registry c)"

interpretation contract: anchor_ledger "submit_anchor sha" revoke_anchor contract_status "anchor_id_of sha"
  for sha
proof
  fix pk ow t s x s'
  show "(\<exists>x s'. submit_anchor sha pk ow t s = Inr (x, s')) =
      (pk \<noteq> [] \<and> contract_status s (anchor_id_of sha pk) = None)"
    using registry.submit_iff [where sha = sha and pk = pk and ow = ow and t = t and s = "sc_registry s"]
    by (auto simp: submit_anchor_def contract_status_def split: sum.splits)
  show "submit_anchor sha pk ow t s = Inr (x, s') \<Longrightarrow>
      contract_status s' = (contract_status s)(anchor_id_of sha pk \<mapsto> (ow, False))"
    by (auto simp: submit_anchor_def contract_status_def registry.submit_status split: sum.splits)
next
  fix a ow s s'
  show "(\<exists>s'. revoke_anchor a ow s = Inr s') = (\<exists>r. contract_status s a = Some (ow, r))"
    using registry.revoke_iff [of a ow "sc_registry s"]
    by (auto simp: revoke_anchor_def contract_status_def split: sum.splits)
  show "revoke_anchor a ow s = Inr s' \<Longrightarrow>
      contract_status s' = (contract_status s)(a \<mapsto> (ow, True))"
    by (auto simp: revoke_anchor_def contract_status_def registry.revoke_status split: sum.splits)
qed

lemma verify_on_chain_status:
  "(\<exists>r. verify_on_chain c a = Inr r \<and> oc_valid r = v) \<longleftrightarrow>
    (\<exists>ow. contract_status c a = Some (ow, \<not> v))"
  by (auto simp: verify_on_chain_def contract_status_def registry_status_def registry_lookup_def
      split: option.splits)

section \<open>The contract refines the registry\<close>

text \<open>The number of calls of a sequence that succeed.\<close>

fun successes :: "(bytes \<Rightarrow> bytes) \<Rightarrow> anchor_registry \<Rightarrow> ledger_op list \<Rightarrow> nat" where
  "successes sha reg [] = 0"
| "successes sha reg (op # ops) =
     (case op of
        LedgerSubmit pk ow t \<Rightarrow> (if isl (registry_register sha pk ow t reg) then 0 else 1)
      | LedgerRevoke a ow \<Rightarrow> (if isl (registry_revoke a ow reg) then 0 else 1))
     + successes sha (ledger_exec (registry_register sha) registry_revoke reg op) ops"

lemma unat_saturating_add_1: "unat (saturating_add h 1) = min (unat h + 1) (2 ^ 64 - 1)"
  by (simp add: unat_saturating_add)

text \<open>
  C28. Every run of calls on the simulated contract leaves its registry exactly where the same calls
  leave a bare anchor registry, and raises the block height by the number of calls that succeeded,
  stopping at the largest 64-bit value.
\<close>

theorem contract_refines_registry:
  "sc_registry (ledger_run (submit_anchor sha) revoke_anchor c ops)
     = ledger_run (registry_register sha) registry_revoke (sc_registry c) ops \<and>
   unat (sc_block_height (ledger_run (submit_anchor sha) revoke_anchor c ops))
     = min (unat (sc_block_height c) + successes sha (sc_registry c) ops) (2 ^ 64 - 1)"
proof (induction ops arbitrary: c)
  case Nil
  have "unat (sc_block_height c) \<le> 2 ^ 64 - 1"
    using unsigned_less [of "sc_block_height c", where ?'a = nat] by simp
  then show ?case
    by (simp add: ledger_run_def)
next
  case (Cons op ops)
  define c' where "c' = ledger_exec (submit_anchor sha) revoke_anchor c op"
  define n where "n = (case op of
      LedgerSubmit pk ow t \<Rightarrow> (if isl (registry_register sha pk ow t (sc_registry c)) then 0 else 1 :: nat)
    | LedgerRevoke a ow \<Rightarrow> (if isl (registry_revoke a ow (sc_registry c)) then 0 else 1))"
  have "unat (sc_block_height c) \<le> 2 ^ 64 - 1"
    using unsigned_less [of "sc_block_height c", where ?'a = nat] by simp
  then have h: "unat (sc_block_height c') = min (unat (sc_block_height c) + n) (2 ^ 64 - 1)"
    by (cases op) (auto simp: c'_def n_def submit_anchor_def revoke_anchor_def unat_saturating_add_1
        split: sum.splits)
  have r: "sc_registry c' = ledger_exec (registry_register sha) registry_revoke (sc_registry c) op"
    by (cases op) (auto simp: c'_def submit_anchor_def revoke_anchor_def split: sum.splits)
  have "successes sha (sc_registry c) (op # ops) = n + successes sha (sc_registry c') ops"
    by (simp add: n_def r)
  then show ?case
    using Cons.IH [of c'] h r by (simp add: ledger_run_def c'_def [symmetric] del: successes.simps)
qed

end
