(* ===== verification/Dpki.thy ===== *)
theory Dpki
  imports Key_Anchor
begin

text \<open>
  \<open>src/blockchain/dpki.rs\<close>: the decentralised PKI, a registry of entity bindings on top of an
  anchor registry.  An operation that fails leaves the state unchanged.
\<close>

section \<open>Model\<close>

datatype dpki_error =
    AlreadyRegistered | DpkiNotFound | DpkiExpired u64 u64 | DpkiNotYetValid u64 u64
  | DpkiAnchorError key_anchor_error | DpkiEmptyPublicKey

record dpki_entry =
  de_entity_id :: string
  de_key_hash :: bytes
  de_anchor_id :: string
  de_valid_from :: u64
  de_valid_until :: "u64 option"

definition is_valid_at :: "dpki_entry \<Rightarrow> u64 \<Rightarrow> dpki_error + unit" where
  "is_valid_at e now =
     (if now < de_valid_from e then Inl (DpkiNotYetValid now (de_valid_from e))
      else case de_valid_until e of
        Some until \<Rightarrow> if until < now then Inl (DpkiExpired now until) else Inr ()
      | None \<Rightarrow> Inr ())"

record dpki =
  dp_entries :: "(string, dpki_entry) hmap"
  dp_anchors :: anchor_registry

definition dpki_new :: dpki where
  "dpki_new = \<lparr>dp_entries = [], dp_anchors = registry_new\<rparr>"

definition register_key ::
  "(bytes \<Rightarrow> bytes) \<Rightarrow> string \<Rightarrow> bytes \<Rightarrow> u64 \<Rightarrow> u64 option \<Rightarrow> u64 \<Rightarrow> dpki
     \<Rightarrow> dpki_error + dpki_entry \<times> dpki" where
  "register_key sha entity_id public_key valid_from valid_until timestamp d =
     (if public_key = [] then Inl DpkiEmptyPublicKey
      else if hm_contains (dp_entries d) entity_id then Inl AlreadyRegistered
      else case registry_register sha public_key entity_id timestamp (dp_anchors d) of
        Inl e \<Rightarrow> Inl (DpkiAnchorError e)
      | Inr (anchor, anchors) \<Rightarrow>
          (let e = \<lparr>de_entity_id = entity_id, de_key_hash = sha public_key,
                    de_anchor_id = ka_anchor_id anchor, de_valid_from = valid_from,
                    de_valid_until = valid_until\<rparr>
           in Inr (e, \<lparr>dp_entries = hm_insert entity_id e (dp_entries d), dp_anchors = anchors\<rparr>)))"

definition resolve :: "dpki \<Rightarrow> string \<Rightarrow> u64 \<Rightarrow> dpki_error + dpki_entry" where
  "resolve d entity_id now =
     (case hm_get (dp_entries d) entity_id of
        None \<Rightarrow> Inl DpkiNotFound
      | Some e \<Rightarrow>
          (case is_valid_at e now of
             Inl err \<Rightarrow> Inl err
           | Inr _ \<Rightarrow>
               (case verify_anchor_by_id (dp_anchors d) (de_anchor_id e) of
                  Inl err \<Rightarrow> Inl (DpkiAnchorError err)
                | Inr _ \<Rightarrow> Inr e)))"

definition invalidate :: "string \<Rightarrow> dpki \<Rightarrow> dpki_error + dpki" where
  "invalidate entity_id d =
     (case hm_get (dp_entries d) entity_id of
        None \<Rightarrow> Inl DpkiNotFound
      | Some e \<Rightarrow>
          (case registry_revoke (de_anchor_id e) entity_id (dp_anchors d) of
             Inl err \<Rightarrow> Inl (DpkiAnchorError err)
           | Inr anchors \<Rightarrow> Inr (d\<lparr>dp_anchors := anchors\<rparr>)))"

definition dpki_len :: "dpki \<Rightarrow> nat" where
  "dpki_len d = length (dp_entries d)"

definition dpki_is_empty :: "dpki \<Rightarrow> bool" where
  "dpki_is_empty d = (dp_entries d = [])"

section \<open>Runs and the invariant\<close>

inductive dpki_step :: "(bytes \<Rightarrow> bytes) \<Rightarrow> dpki \<Rightarrow> dpki \<Rightarrow> bool" for sha where
  step_register: "register_key sha ent pk vf vu t d = Inr (e, d') \<Longrightarrow> dpki_step sha d d'"
| step_invalidate: "invalidate ent d = Inr d' \<Longrightarrow> dpki_step sha d d'"

inductive_cases dpki_stepE: "dpki_step sha d d'"

definition dpki_reachable :: "(bytes \<Rightarrow> bytes) \<Rightarrow> dpki \<Rightarrow> bool" where
  "dpki_reachable sha d = (dpki_step sha)\<^sup>*\<^sup>* dpki_new d"

text \<open>Every binding names an anchor that exists and belongs to its entity.\<close>

definition dpki_inv :: "dpki \<Rightarrow> bool" where
  "dpki_inv d = (\<forall>ent e. hm_get (dp_entries d) ent = Some e \<longrightarrow>
     de_entity_id e = ent \<and> de_anchor_id e = hex_encode (de_key_hash e) \<and>
     (\<exists>r. registry_status (dp_anchors d) (de_anchor_id e) = Some (ent, r)))"

lemma dpki_invD:
  assumes "dpki_inv d" "hm_get (dp_entries d) ent = Some e"
  obtains r where "de_entity_id e = ent" "de_anchor_id e = hex_encode (de_key_hash e)"
    "registry_status (dp_anchors d) (de_anchor_id e) = Some (ent, r)"
  using assms unfolding dpki_inv_def by blast

text \<open>What the two operations do, seen from the entries and from the anchor registry.\<close>

lemma register_key_Inr:
  assumes "register_key sha ent pk vf vu t d = Inr (e, d')"
  shows "hm_get (dp_entries d) ent = None"
    "dp_entries d' = hm_insert ent e (dp_entries d)"
    "registry_status (dp_anchors d) (anchor_id_of sha pk) = None"
    "registry_status (dp_anchors d') = (registry_status (dp_anchors d))(anchor_id_of sha pk \<mapsto> (ent, False))"
    "de_entity_id e = ent" "de_anchor_id e = anchor_id_of sha pk" "de_key_hash e = sha pk"
    "dp_anchors d' = ledger_exec (registry_register sha) registry_revoke (dp_anchors d) (LedgerSubmit pk ent t)"
proof -
  obtain a as where r: "registry_register sha pk ent t (dp_anchors d) = Inr (a, as)"
    using assms by (auto simp: register_key_def split: if_splits sum.splits)
  then have a: "ka_anchor_id a = anchor_id_of sha pk"
    by (auto simp: registry_register_def key_anchor_new_def anchor_id_of_def Let_def split: if_splits)
  show "registry_status (dp_anchors d) (anchor_id_of sha pk) = None"
    using registry.submit_iff [where sha = sha and pk = pk and ow = ent and t = t and s = "dp_anchors d"] r
    by blast
  show "hm_get (dp_entries d) ent = None" "dp_entries d' = hm_insert ent e (dp_entries d)"
    "registry_status (dp_anchors d') = (registry_status (dp_anchors d))(anchor_id_of sha pk \<mapsto> (ent, False))"
    "de_entity_id e = ent" "de_anchor_id e = anchor_id_of sha pk" "de_key_hash e = sha pk"
    "dp_anchors d' = ledger_exec (registry_register sha) registry_revoke (dp_anchors d) (LedgerSubmit pk ent t)"
    using assms r a registry.submit_status [OF r]
    by (auto simp: register_key_def hm_contains_def Let_def split: if_splits)
qed

lemma invalidate_Inr:
  assumes "invalidate ent d = Inr d'"
  obtains e where "hm_get (dp_entries d) ent = Some e" "dp_entries d' = dp_entries d"
    "registry_status (dp_anchors d') = (registry_status (dp_anchors d))(de_anchor_id e \<mapsto> (ent, True))"
    "dp_anchors d' = ledger_exec (registry_register sha) registry_revoke (dp_anchors d)
       (LedgerRevoke (de_anchor_id e) ent)"
  using assms registry.revoke_status by (auto simp: invalidate_def split: option.splits sum.splits)

lemma dpki_step_anchors:
  assumes "dpki_step sha d d'"
  shows "\<exists>op. dp_anchors d' = ledger_exec (registry_register sha) registry_revoke (dp_anchors d) op"
  using assms by cases (auto dest!: register_key_Inr(8) elim: invalidate_Inr [where sha = sha])

lemma dpki_step_entries:
  assumes "dpki_step sha d d'" "hm_get (dp_entries d) ent = Some e"
  shows "hm_get (dp_entries d') ent = Some e"
  using assms(1)
proof cases
  case (step_register ent' pk vf vu t e')
  then show ?thesis
    using register_key_Inr(1,2) [OF step_register] assms(2) by (auto simp: store_simps)
next
  case (step_invalidate ent')
  then show ?thesis
    using assms(2) by (auto elim: invalidate_Inr)
qed

lemma dpki_inv_register:
  assumes "dpki_inv d" "register_key sha ent pk vf vu t d = Inr (e, d')"
  shows "dpki_inv d'"
  unfolding dpki_inv_def
proof (intro allI impI)
  note r = register_key_Inr [OF assms(2)]
  fix ent' e'
  assume e': "hm_get (dp_entries d') ent' = Some e'"
  show "de_entity_id e' = ent' \<and> de_anchor_id e' = hex_encode (de_key_hash e') \<and>
    (\<exists>r. registry_status (dp_anchors d') (de_anchor_id e') = Some (ent', r))"
  proof (cases "ent' = ent")
    case True
    then show ?thesis
      using e' r by (auto simp: store_simps anchor_id_of_def)
  next
    case False
    then have "hm_get (dp_entries d) ent' = Some e'"
      using e' r(2) by (auto simp: store_simps)
    then show ?thesis
      using assms(1) r(3,4) unfolding dpki_inv_def by fastforce
  qed
qed

lemma dpki_inv_invalidate:
  assumes "dpki_inv d" "invalidate ent d = Inr d'"
  shows "dpki_inv d'"
proof -
  obtain e where i: "hm_get (dp_entries d) ent = Some e" "dp_entries d' = dp_entries d"
    "registry_status (dp_anchors d') = (registry_status (dp_anchors d))(de_anchor_id e \<mapsto> (ent, True))"
    using assms(2) by (rule invalidate_Inr)
  then obtain r where r: "registry_status (dp_anchors d) (de_anchor_id e) = Some (ent, r)"
    using dpki_invD [OF assms(1)] by blast
  show ?thesis
    unfolding dpki_inv_def
  proof (intro allI impI)
    fix ent' e'
    assume "hm_get (dp_entries d') ent' = Some e'"
    then obtain r' where "de_entity_id e' = ent'" "de_anchor_id e' = hex_encode (de_key_hash e')"
      "registry_status (dp_anchors d) (de_anchor_id e') = Some (ent', r')"
      using dpki_invD [OF assms(1)] i(2) by metis
    then show "de_entity_id e' = ent' \<and> de_anchor_id e' = hex_encode (de_key_hash e') \<and>
      (\<exists>r. registry_status (dp_anchors d') (de_anchor_id e') = Some (ent', r))"
      using i(3) r by (cases "de_anchor_id e' = de_anchor_id e") auto
  qed
qed

lemma dpki_inv_step: "dpki_inv d \<Longrightarrow> dpki_step sha d d' \<Longrightarrow> dpki_inv d'"
  by (erule dpki_stepE) (auto intro: dpki_inv_register dpki_inv_invalidate)

lemma dpki_inv_new: "dpki_inv dpki_new"
  by (simp add: dpki_inv_def dpki_new_def)

lemma dpki_reachable_inv: "dpki_reachable sha d \<Longrightarrow> dpki_inv d"
  unfolding dpki_reachable_def
  by (induction rule: rtranclp_induct) (auto intro: dpki_inv_new dpki_inv_step)

lemma dpki_steps_entries:
  "(dpki_step sha)\<^sup>*\<^sup>* d d' \<Longrightarrow> hm_get (dp_entries d) ent = Some e \<Longrightarrow> hm_get (dp_entries d') ent = Some e"
  by (induction rule: rtranclp_induct) (auto intro: dpki_step_entries)

lemma dpki_steps_revoked:
  "(dpki_step sha)\<^sup>*\<^sup>* d d' \<Longrightarrow> registry_status (dp_anchors d) a = Some (ow, True) \<Longrightarrow>
    registry_status (dp_anchors d') a = Some (ow, True)"
proof (induction rule: rtranclp_induct)
  case (step d1 d2)
  obtain op where "dp_anchors d2 = ledger_exec (registry_register sha) registry_revoke (dp_anchors d1) op"
    using dpki_step_anchors [OF step.hyps(2)] by blast
  then show ?case
    using registry.run_revoked [OF step.IH [OF step.prems], of sha "[op]"] by (simp add: ledger_run_def)
qed

lemma resolve_status:
  "resolve d ent now =
    (case hm_get (dp_entries d) ent of
       None \<Rightarrow> Inl DpkiNotFound
     | Some e \<Rightarrow> (case is_valid_at e now of
         Inl err \<Rightarrow> Inl err
       | Inr _ \<Rightarrow> (case registry_status (dp_anchors d) (de_anchor_id e) of
           None \<Rightarrow> Inl (DpkiAnchorError AnchorNotFound)
         | Some (ow, r) \<Rightarrow> if r then Inl (DpkiAnchorError AnchorRevoked) else Inr e)))"
  by (simp add: resolve_def verify_anchor_by_id_def registry_status_def split: option.splits sum.splits)

text \<open>
  C29. In every state the PKI can reach, a binding resolves exactly inside its validity window and
  while its anchor is not revoked: the only anchor error \<open>resolve\<close> can return is \<open>Revoked\<close>
  (never a missing anchor), and \<open>invalidate\<close> of a registered entity always succeeds (never an
  owner mismatch).
\<close>

theorem dpki_no_dangling_anchor:
  assumes "dpki_reachable sha d" "hm_get (dp_entries d) ent = Some e"
  shows "\<exists>revoked. resolve d ent now =
           (case is_valid_at e now of
              Inl err \<Rightarrow> Inl err
            | Inr _ \<Rightarrow> if revoked then Inl (DpkiAnchorError AnchorRevoked) else Inr e) \<and>
         (\<exists>d'. invalidate ent d = Inr d')"
proof -
  obtain r where r: "registry_status (dp_anchors d) (de_anchor_id e) = Some (ent, r)"
    using dpki_invD [OF dpki_reachable_inv [OF assms(1)] assms(2)] by blast
  then obtain as where "registry_revoke (de_anchor_id e) ent (dp_anchors d) = Inr as"
    using registry.revoke_iff by blast
  then have "\<exists>d'. invalidate ent d = Inr d'"
    using assms(2) by (simp add: invalidate_def)
  then show ?thesis
    using r assms(2) by (auto simp: resolve_status split: sum.splits)
qed

lemma dpki_example:
  "register_key (\<lambda>x. x) ''did:a'' [5] 10 None 1 dpki_new =
     Inr (\<lparr>de_entity_id = ''did:a'', de_key_hash = [5], de_anchor_id = hex_encode [5], de_valid_from = 10,
           de_valid_until = None\<rparr>,
       \<lparr>dp_entries = [(''did:a'', \<lparr>de_entity_id = ''did:a'', de_key_hash = [5], de_anchor_id = hex_encode [5],
          de_valid_from = 10, de_valid_until = None\<rparr>)],
        dp_anchors = \<lparr>ar_anchors = [(hex_encode [5], \<lparr>ka_anchor_id = hex_encode [5], ka_key_hash = [5],
          ka_owner_id = ''did:a'', ka_timestamp = 1, ka_revoked = False\<rparr>)]\<rparr>\<rparr>)"
  by (simp add: register_key_def dpki_new_def registry_new_def registry_register_def key_anchor_new_def
      hm_contains_def Let_def del: hex_encode_simps)

lemma dpki_example_reachable:
  "dpki_reachable (\<lambda>x. x)
       \<lparr>dp_entries = [(''did:a'', \<lparr>de_entity_id = ''did:a'', de_key_hash = [5], de_anchor_id = hex_encode [5],
          de_valid_from = 10, de_valid_until = None\<rparr>)],
        dp_anchors = \<lparr>ar_anchors = [(hex_encode [5], \<lparr>ka_anchor_id = hex_encode [5], ka_key_hash = [5],
          ka_owner_id = ''did:a'', ka_timestamp = 1, ka_revoked = False\<rparr>)]\<rparr>\<rparr>"
  unfolding dpki_reachable_def by (rule r_into_rtranclp) (rule step_register [OF dpki_example])

theorem dpki_no_dangling_anchor_witness:
  "\<exists>d'. invalidate ''did:a''
       \<lparr>dp_entries = [(''did:a'', \<lparr>de_entity_id = ''did:a'', de_key_hash = [5], de_anchor_id = hex_encode [5],
          de_valid_from = 10, de_valid_until = None\<rparr>)],
        dp_anchors = \<lparr>ar_anchors = [(hex_encode [5], \<lparr>ka_anchor_id = hex_encode [5], ka_key_hash = [5],
          ka_owner_id = ''did:a'', ka_timestamp = 1, ka_revoked = False\<rparr>)]\<rparr>\<rparr> = Inr d'"
  using dpki_no_dangling_anchor [OF dpki_example_reachable, of "''did:a''"] by simp

text \<open>
  C11. Invalidation is immediate and final.  After \<open>invalidate\<close> of an entity, and after any further
  calls, \<open>resolve\<close> of the entity fails at every time (inside the validity window with the anchor
  reported revoked), and the entity cannot be registered again with any key.
\<close>

theorem dpki_invalidate_final:
  assumes "invalidate ent d = Inr d1" "(dpki_step sha)\<^sup>*\<^sup>* d1 d2"
  shows "(case resolve d2 ent now of
            Inr e \<Rightarrow> False
          | Inl err \<Rightarrow> err = DpkiAnchorError AnchorRevoked
              \<or> (\<exists>e. hm_get (dp_entries d) ent = Some e \<and> is_valid_at e now = Inl err)) \<and>
         (pk = [] \<or> register_key sha ent pk vf vu t d2 = Inl AlreadyRegistered)"
proof -
  obtain e where i: "hm_get (dp_entries d) ent = Some e" "dp_entries d1 = dp_entries d"
    "registry_status (dp_anchors d1) (de_anchor_id e) = Some (ent, True)"
    using invalidate_Inr [OF assms(1)] by (metis fun_upd_same)
  have "hm_get (dp_entries d2) ent = Some e"
    using dpki_steps_entries [OF assms(2)] i by simp
  moreover have "registry_status (dp_anchors d2) (de_anchor_id e) = Some (ent, True)"
    using dpki_steps_revoked [OF assms(2) i(3)] .
  ultimately show ?thesis
    using i(1) by (auto simp: resolve_status register_key_def hm_contains_def split: sum.splits)
qed

theorem dpki_invalidate_final_witness:
  "case resolve \<lparr>dp_entries = [(''did:a'', \<lparr>de_entity_id = ''did:a'', de_key_hash = [5], de_anchor_id = ''05'',
          de_valid_from = 10, de_valid_until = None\<rparr>)],
        dp_anchors = \<lparr>ar_anchors = [(''05'', \<lparr>ka_anchor_id = ''05'', ka_key_hash = [5],
          ka_owner_id = ''did:a'', ka_timestamp = 1, ka_revoked = True\<rparr>)]\<rparr>\<rparr> ''did:a'' 20 of
     Inr e \<Rightarrow> False | Inl err \<Rightarrow> err = DpkiAnchorError AnchorRevoked"
proof -
  have "invalidate ''did:a'' \<lparr>dp_entries = [(''did:a'', \<lparr>de_entity_id = ''did:a'', de_key_hash = [5],
          de_anchor_id = ''05'', de_valid_from = 10, de_valid_until = None\<rparr>)],
        dp_anchors = \<lparr>ar_anchors = [(''05'', \<lparr>ka_anchor_id = ''05'', ka_key_hash = [5],
          ka_owner_id = ''did:a'', ka_timestamp = 1, ka_revoked = False\<rparr>)]\<rparr>\<rparr> =
    Inr \<lparr>dp_entries = [(''did:a'', \<lparr>de_entity_id = ''did:a'', de_key_hash = [5], de_anchor_id = ''05'',
          de_valid_from = 10, de_valid_until = None\<rparr>)],
        dp_anchors = \<lparr>ar_anchors = [(''05'', \<lparr>ka_anchor_id = ''05'', ka_key_hash = [5],
          ka_owner_id = ''did:a'', ka_timestamp = 1, ka_revoked = True\<rparr>)]\<rparr>\<rparr>"
    by (simp add: invalidate_def registry_revoke_def)
  from dpki_invalidate_final [OF this rtranclp.rtrancl_refl, of 20]
  show ?thesis
    by (auto simp: is_valid_at_def split: sum.splits)
qed

end
