(* ===== verification/Commitment.thy ===== *)
theory Commitment
  imports Prelude
begin

text \<open>
  The interface of a hash commitment, provided by the reveal step of the MPC session
  (\<open>src/confidential_computing/mpc/mod.rs\<close>) and by the share commitments of
  \<open>src/advanced_secret_sharing.rs\<close>: a commitment is the hash of a preimage that determines the
  committed value, and opening it means recomputing it.
\<close>

locale hash_commitment =
  fixes hash :: "bytes \<Rightarrow> bytes"
    and preimage :: "'k \<Rightarrow> bytes \<Rightarrow> bytes"
    and commit :: "'k \<Rightarrow> bytes \<Rightarrow> bytes"
    and opens :: "'k \<Rightarrow> bytes \<Rightarrow> bytes \<Rightarrow> bool"
  assumes commit_hash: "commit k x = hash (preimage k x)"
    and opens_iff: "opens k c x \<longleftrightarrow> c = commit k x"
    and preimage_inj: "preimage k x = preimage k y \<Longrightarrow> x = y"
begin

lemma complete: "opens k (commit k x) x"
  by (simp add: opens_iff)

text \<open>Two openings of one commitment are the same value, or two different byte strings with the
  same hash.\<close>

lemma binding:
  assumes "opens k c x" "opens k c y"
  shows "x = y \<or> preimage k x \<noteq> preimage k y \<and> hash (preimage k x) = hash (preimage k y)"
  using assms preimage_inj by (auto simp: opens_iff commit_hash)

lemma unique_commitment: "opens k c x \<Longrightarrow> opens k d x \<Longrightarrow> c = d"
  by (simp add: opens_iff)

end

end
