(* ===== verification/Mpc.thy ===== *)
theory Mpc
  imports Commitment Keyed_Store "HOL-Library.Char_ord" "HOL-Library.List_Lexorder"
begin

unbundle bit_operations_syntax

text \<open>
  \<open>src/confidential_computing/mpc/mod.rs\<close>: the coordination of a multi-party session.  SHA-256 is
  the parameter \<open>sha\<close>.  A call that reports an error may have consumed its nonce, so every
  handler returns its result and the session it leaves.
\<close>

section \<open>Model\<close>

datatype mpc_error =
    InvalidPolicy string | DuplicateParty string | UnknownParty string | DuplicateShare string
  | DuplicateCommitment string | InsufficientShares | RoundMismatch u32 u32
  | UnknownCommitment string | InvalidCommitment string | ReplayDetected u64 | AggregateMismatch

record mpc_policy =
  mp_total_parties :: nat
  mp_threshold :: nat
  mp_max_rounds :: u32

definition mpc_policy_new :: "nat \<Rightarrow> nat \<Rightarrow> u32 \<Rightarrow> mpc_error + mpc_policy" where
  "mpc_policy_new total_parties threshold max_rounds =
     (if total_parties = 0 then Inl (InvalidPolicy ''total_parties must be greater than zero'')
      else if threshold = 0 \<or> total_parties < threshold
      then Inl (InvalidPolicy ''threshold must be between 1 and total_parties'')
      else if max_rounds = 0 then Inl (InvalidPolicy ''max_rounds must be greater than zero'')
      else Inr \<lparr>mp_total_parties = total_parties, mp_threshold = threshold, mp_max_rounds = max_rounds\<rparr>)"

record share_submission =
  ss_party_id :: string
  ss_share :: bytes

record commit_submission =
  cs_party_id :: string
  cs_commitment :: bytes
  cs_nonce :: u64
  cs_round :: u32

record reveal_submission =
  rs_party_id :: string
  rs_share :: bytes
  rs_nonce :: u64
  rs_round :: u32

record aggregate_message =
  am_round :: u32
  am_nonce :: u64
  am_digest :: bytes

record mpc_session =
  ms_policy :: mpc_policy
  ms_parties :: "string set"
  ms_commitments :: "(string, bytes) hmap"
  ms_shares :: "(string, bytes) hmap"
  ms_seen_nonces :: "u64 set"
  ms_session_nonce :: u64
  ms_round :: u32

definition mpc_new :: "mpc_policy \<Rightarrow> mpc_session" where
  "mpc_new policy =
     \<lparr>ms_policy = policy, ms_parties = {}, ms_commitments = [], ms_shares = [], ms_seen_nonces = {},
      ms_session_nonce = push_bit 32 (of_nat (mp_total_parties policy))
        XOR push_bit 16 (of_nat (mp_threshold policy)) XOR ucast (mp_max_rounds policy),
      ms_round = 1\<rparr>"

definition register_party :: "string \<Rightarrow> mpc_session \<Rightarrow> (mpc_error + unit) \<times> mpc_session" where
  "register_party party_id s =
     (if party_id \<in> ms_parties s then (Inl (DuplicateParty party_id), s)
      else (Inr (), s\<lparr>ms_parties := insert party_id (ms_parties s)\<rparr>))"

definition submit_share :: "share_submission \<Rightarrow> mpc_session \<Rightarrow> (mpc_error + unit) \<times> mpc_session" where
  "submit_share sub s =
     (if ss_party_id sub \<notin> ms_parties s then (Inl (UnknownParty (ss_party_id sub)), s)
      else if hm_contains (ms_shares s) (ss_party_id sub) then (Inl (DuplicateShare (ss_party_id sub)), s)
      else (Inr (), s\<lparr>ms_shares := hm_insert (ss_party_id sub) (ss_share sub) (ms_shares s)\<rparr>))"

definition ensure_round :: "u32 \<Rightarrow> mpc_session \<Rightarrow> mpc_error + unit" where
  "ensure_round received s =
     (if received \<noteq> ms_round s then Inl (RoundMismatch (ms_round s) received) else Inr ())"

definition register_nonce :: "u64 \<Rightarrow> mpc_session \<Rightarrow> (mpc_error + unit) \<times> mpc_session" where
  "register_nonce nonce s =
     (if nonce \<in> ms_seen_nonces s then (Inl (ReplayDetected nonce), s)
      else (Inr (), s\<lparr>ms_seen_nonces := insert nonce (ms_seen_nonces s)\<rparr>))"

text \<open>The guard the three numbered messages share: \<open>ensure_round(..)?; register_nonce(..)?;\<close>.\<close>

definition admit ::
  "u32 \<Rightarrow> u64 \<Rightarrow> (mpc_session \<Rightarrow> (mpc_error + unit) \<times> mpc_session) \<Rightarrow> mpc_session
     \<Rightarrow> (mpc_error + unit) \<times> mpc_session" where
  "admit rnd nonce body s =
     (case ensure_round rnd s of
        Inl e \<Rightarrow> (Inl e, s)
      | Inr _ \<Rightarrow> (case register_nonce nonce s of
            (Inl e, s1) \<Rightarrow> (Inl e, s1)
          | (Inr _, s1) \<Rightarrow> body s1))"

definition submit_commit :: "commit_submission \<Rightarrow> mpc_session \<Rightarrow> (mpc_error + unit) \<times> mpc_session" where
  "submit_commit sub =
     admit (cs_round sub) (cs_nonce sub)
       (\<lambda>s. if cs_party_id sub \<notin> ms_parties s then (Inl (UnknownParty (cs_party_id sub)), s)
            else if hm_contains (ms_commitments s) (cs_party_id sub)
            then (Inl (DuplicateCommitment (cs_party_id sub)), s)
            else (Inr (), s\<lparr>ms_commitments := hm_insert (cs_party_id sub) (cs_commitment sub) (ms_commitments s)\<rparr>))"

definition commitment_for :: "(bytes \<Rightarrow> bytes) \<Rightarrow> bytes \<Rightarrow> bytes" where
  "commitment_for sha share_bytes = sha share_bytes"

definition submit_reveal ::
  "(bytes \<Rightarrow> bytes) \<Rightarrow> reveal_submission \<Rightarrow> mpc_session \<Rightarrow> (mpc_error + unit) \<times> mpc_session" where
  "submit_reveal sha sub =
     admit (rs_round sub) (rs_nonce sub)
       (\<lambda>s. if rs_party_id sub \<notin> ms_parties s then (Inl (UnknownParty (rs_party_id sub)), s)
            else if hm_contains (ms_shares s) (rs_party_id sub)
            then (Inl (DuplicateShare (rs_party_id sub)), s)
            else case hm_get (ms_commitments s) (rs_party_id sub) of
              None \<Rightarrow> (Inl (UnknownCommitment (rs_party_id sub)), s)
            | Some expected \<Rightarrow>
                if expected \<noteq> commitment_for sha (rs_share sub)
                then (Inl (InvalidCommitment (rs_party_id sub)), s)
                else (Inr (), s\<lparr>ms_shares := hm_insert (rs_party_id sub) (rs_share sub) (ms_shares s)\<rparr>))"

definition advance_round :: "mpc_session \<Rightarrow> mpc_session" where
  "advance_round s =
     (if ms_round s < mp_max_rounds (ms_policy s) then s\<lparr>ms_round := ms_round s + 1\<rparr> else s)"

definition submitted_shares :: "mpc_session \<Rightarrow> nat" where
  "submitted_shares s = length (ms_shares s)"

definition can_finalize :: "mpc_session \<Rightarrow> bool" where
  "can_finalize s = (mp_threshold (ms_policy s) \<le> length (ms_shares s))"

definition finalize_digest :: "(bytes \<Rightarrow> bytes) \<Rightarrow> mpc_session \<Rightarrow> mpc_error + bytes" where
  "finalize_digest sha s =
     (if \<not> can_finalize s then Inl InsufficientShares
      else Inr (sha (concat (map
        (\<lambda>party. as_bytes party @ (case hm_get (ms_shares s) party of Some sh \<Rightarrow> sh | None \<Rightarrow> []))
        (sort (map fst (ms_shares s)))))))"

definition apply_aggregate ::
  "(bytes \<Rightarrow> bytes) \<Rightarrow> aggregate_message \<Rightarrow> mpc_session \<Rightarrow> (mpc_error + unit) \<times> mpc_session" where
  "apply_aggregate sha agg =
     admit (am_round agg) (am_nonce agg)
       (\<lambda>s. case finalize_digest sha s of
              Inl e \<Rightarrow> (Inl e, s)
            | Inr local_digest \<Rightarrow>
                if local_digest \<noteq> am_digest agg then (Inl AggregateMismatch, s) else (Inr (), s))"

text \<open>Constructors and accessors.\<close>

definition share_submission_new :: "string \<Rightarrow> bytes \<Rightarrow> share_submission" where
  "share_submission_new party_id x = \<lparr>ss_party_id = party_id, ss_share = x\<rparr>"

definition commit_submission_new :: "string \<Rightarrow> bytes \<Rightarrow> u64 \<Rightarrow> u32 \<Rightarrow> commit_submission" where
  "commit_submission_new party_id commitment nonce rnd =
     \<lparr>cs_party_id = party_id, cs_commitment = commitment, cs_nonce = nonce, cs_round = rnd\<rparr>"

definition reveal_submission_new :: "string \<Rightarrow> bytes \<Rightarrow> u64 \<Rightarrow> u32 \<Rightarrow> reveal_submission" where
  "reveal_submission_new party_id x nonce rnd =
     \<lparr>rs_party_id = party_id, rs_share = x, rs_nonce = nonce, rs_round = rnd\<rparr>"

definition aggregate_message_new :: "u32 \<Rightarrow> u64 \<Rightarrow> bytes \<Rightarrow> aggregate_message" where
  "aggregate_message_new rnd nonce digest = \<lparr>am_round = rnd, am_nonce = nonce, am_digest = digest\<rparr>"

definition session_nonce :: "mpc_session \<Rightarrow> u64" where
  "session_nonce s = ms_session_nonce s"

definition current_round :: "mpc_session \<Rightarrow> u32" where
  "current_round s = ms_round s"

lemmas mpc_messages = share_submission_new_def commit_submission_new_def reveal_submission_new_def
  aggregate_message_new_def session_nonce_def current_round_def

section \<open>Runs of a session\<close>

datatype mpc_call =
    CallRegister string | CallShare share_submission | CallCommit commit_submission
  | CallReveal reveal_submission | CallAggregate aggregate_message | CallAdvance

fun mpc_exec :: "(bytes \<Rightarrow> bytes) \<Rightarrow> mpc_session \<Rightarrow> mpc_call \<Rightarrow> mpc_session" where
  "mpc_exec sha s (CallRegister p) = snd (register_party p s)"
| "mpc_exec sha s (CallShare m) = snd (submit_share m s)"
| "mpc_exec sha s (CallCommit m) = snd (submit_commit m s)"
| "mpc_exec sha s (CallReveal m) = snd (submit_reveal sha m s)"
| "mpc_exec sha s (CallAggregate m) = snd (apply_aggregate sha m s)"
| "mpc_exec sha s CallAdvance = advance_round s"

definition mpc_run :: "(bytes \<Rightarrow> bytes) \<Rightarrow> mpc_call list \<Rightarrow> mpc_session \<Rightarrow> mpc_session" where
  "mpc_run sha calls s = foldl (mpc_exec sha) s calls"

lemma mpc_run_simps [simp]:
  "mpc_run sha [] s = s" "mpc_run sha (c # cs) s = mpc_run sha cs (mpc_exec sha s c)"
  by (simp_all add: mpc_run_def)

lemma mpc_run_preserves:
  assumes "P s" "\<And>s c. c \<in> set calls \<Longrightarrow> P s \<Longrightarrow> P (mpc_exec sha s c)"
  shows "P (mpc_run sha calls s)"
  using assms by (induction calls arbitrary: s) auto

text \<open>The nonce a call carries, and the party it submits for.\<close>

fun call_nonce :: "mpc_call \<Rightarrow> u64 option" where
  "call_nonce (CallCommit m) = Some (cs_nonce m)"
| "call_nonce (CallReveal m) = Some (rs_nonce m)"
| "call_nonce (CallAggregate m) = Some (am_nonce m)"
| "call_nonce _ = None"

fun call_party :: "mpc_call \<Rightarrow> string option" where
  "call_party (CallShare m) = Some (ss_party_id m)"
| "call_party (CallCommit m) = Some (cs_party_id m)"
| "call_party (CallReveal m) = Some (rs_party_id m)"
| "call_party _ = None"

text \<open>What one call can do to a session: each line is a rule the proofs below case on.\<close>

inductive mpc_effect :: "(bytes \<Rightarrow> bytes) \<Rightarrow> mpc_call \<Rightarrow> mpc_session \<Rightarrow> mpc_session \<Rightarrow> bool" for sha where
  eff_none: "mpc_effect sha c s s"
| eff_register: "mpc_effect sha (CallRegister p) s (s\<lparr>ms_parties := insert p (ms_parties s)\<rparr>)"
| eff_share: "ss_party_id m \<in> ms_parties s \<Longrightarrow> hm_get (ms_shares s) (ss_party_id m) = None \<Longrightarrow>
    mpc_effect sha (CallShare m) s (s\<lparr>ms_shares := hm_insert (ss_party_id m) (ss_share m) (ms_shares s)\<rparr>)"
| eff_nonce: "call_nonce c = Some n \<Longrightarrow> mpc_effect sha c s (s\<lparr>ms_seen_nonces := insert n (ms_seen_nonces s)\<rparr>)"
| eff_commit: "cs_party_id m \<in> ms_parties s \<Longrightarrow> hm_get (ms_commitments s) (cs_party_id m) = None \<Longrightarrow>
    mpc_effect sha (CallCommit m) s
      (s\<lparr>ms_seen_nonces := insert (cs_nonce m) (ms_seen_nonces s),
         ms_commitments := hm_insert (cs_party_id m) (cs_commitment m) (ms_commitments s)\<rparr>)"
| eff_reveal: "rs_party_id m \<in> ms_parties s \<Longrightarrow> hm_get (ms_shares s) (rs_party_id m) = None \<Longrightarrow>
    hm_get (ms_commitments s) (rs_party_id m) = Some (commitment_for sha (rs_share m)) \<Longrightarrow>
    mpc_effect sha (CallReveal m) s
      (s\<lparr>ms_seen_nonces := insert (rs_nonce m) (ms_seen_nonces s),
         ms_shares := hm_insert (rs_party_id m) (rs_share m) (ms_shares s)\<rparr>)"
| eff_advance: "ms_round s < mp_max_rounds (ms_policy s) \<Longrightarrow>
    mpc_effect sha CallAdvance s (s\<lparr>ms_round := ms_round s + 1\<rparr>)"

inductive_cases mpc_effectE: "mpc_effect sha c s s'"

lemma admit_cases:
  "admit rnd n body s = (if rnd \<noteq> ms_round s then (Inl (RoundMismatch (ms_round s) rnd), s)
     else if n \<in> ms_seen_nonces s then (Inl (ReplayDetected n), s)
     else body (s\<lparr>ms_seen_nonces := insert n (ms_seen_nonces s)\<rparr>))"
  by (simp add: admit_def ensure_round_def register_nonce_def)

text \<open>What a concrete run unfolds.\<close>

lemmas mpc_run_eval = mpc_new_def register_party_def submit_share_def submit_commit_def submit_reveal_def
  apply_aggregate_def advance_round_def admit_cases hm_contains_def commitment_for_def

lemma mpc_exec_effect: "mpc_effect sha c s (mpc_exec sha s c)"
proof (cases c)
  case (CallRegister p)
  then show ?thesis
    by (simp add: register_party_def eff_none eff_register)
next
  case (CallShare m)
  then show ?thesis
    by (simp add: submit_share_def hm_contains_def eff_none eff_share)
next
  case (CallCommit m)
  then show ?thesis
    using eff_commit [of m s sha]
    by (simp add: submit_commit_def admit_cases hm_contains_def eff_none eff_nonce)
next
  case (CallReveal m)
  then show ?thesis
    using eff_reveal [of m s sha]
    by (auto simp: submit_reveal_def admit_cases hm_contains_def eff_none eff_nonce split: option.splits)
next
  case (CallAggregate m)
  then show ?thesis
    by (auto simp: apply_aggregate_def admit_cases eff_none eff_nonce split: sum.splits)
next
  case CallAdvance
  then show ?thesis
    by (simp add: advance_round_def eff_none eff_advance)
qed

section \<open>The session invariant\<close>

definition mpc_inv :: "mpc_policy \<Rightarrow> mpc_session \<Rightarrow> bool" where
  "mpc_inv pol s =
     (ms_policy s = pol \<and> 1 \<le> ms_round s \<and> ms_round s \<le> mp_max_rounds pol \<and>
      fst ` set (ms_shares s) \<subseteq> ms_parties s \<and> fst ` set (ms_commitments s) \<subseteq> ms_parties s \<and>
      hm_wf (ms_shares s) \<and> hm_wf (ms_commitments s))"

lemma word_less_inc: "(x :: u32) < y \<Longrightarrow> 1 \<le> x \<Longrightarrow> 1 \<le> x + 1 \<and> x + 1 \<le> y"
proof -
  assume l: "x < y" "1 \<le> x"
  have "unat x + 1 < 2 ^ 32"
    using l(1) unsigned_less [of y, where ?'a = nat] by (simp add: word_less_nat_alt)
  then have "unat (x + 1) = unat x + 1"
    by (simp add: unat_word_ariths)
  then show ?thesis
    using l by (simp add: word_le_nat_alt word_less_nat_alt)
qed

lemma mpc_inv_effect:
  assumes "mpc_effect sha c s s'" "mpc_inv pol s"
  shows "mpc_inv pol s'"
  using assms word_less_inc [of "ms_round s" "mp_max_rounds pol"]
  by (elim mpc_effectE) (auto simp: mpc_inv_def hm_keys_insert)

lemma one_le_u32: "(1 :: u32) \<le> r \<longleftrightarrow> r \<noteq> 0"
  by (metis word_gt_0 word_less_sub1 inc_le add_0 not_less word_less_1)

lemma mpc_policy_new_rounds:
  "mpc_policy_new n t r = Inr pol \<Longrightarrow> 1 \<le> mp_max_rounds pol \<and> 0 < mp_threshold pol \<and>
    mp_threshold pol \<le> mp_total_parties pol"
  by (auto simp: mpc_policy_new_def one_le_u32 split: if_splits)

lemma mpc_inv_run:
  "mpc_inv pol s \<Longrightarrow> mpc_inv pol (mpc_run sha calls s)"
  by (rule mpc_run_preserves) (auto intro: mpc_inv_effect mpc_exec_effect)

lemma mpc_inv_new: "mpc_policy_new n t r = Inr pol \<Longrightarrow> mpc_inv pol (mpc_new pol)"
  using mpc_policy_new_rounds [of n t r pol] by (simp add: mpc_inv_def mpc_new_def)

text \<open>
  Every session run under a policy the constructor accepted keeps its round between 1 and the
  round limit, holds at most one share and one commitment per party, each of a registered party, and
  never changes its policy.
\<close>

theorem mpc_session_invariant:
  assumes "mpc_policy_new parties threshold rounds = Inr pol"
  shows "case mpc_run sha calls (mpc_new pol) of s \<Rightarrow>
    ms_policy s = pol \<and> 1 \<le> ms_round s \<and> ms_round s \<le> rounds \<and>
    fst ` set (ms_shares s) \<subseteq> ms_parties s \<and> fst ` set (ms_commitments s) \<subseteq> ms_parties s \<and>
    distinct (map fst (ms_shares s)) \<and> distinct (map fst (ms_commitments s))"
proof -
  have "mp_max_rounds pol = rounds"
    using assms by (auto simp: mpc_policy_new_def split: if_splits)
  then show ?thesis
    using mpc_inv_run [OF mpc_inv_new [OF assms], of sha calls]
    by (simp add: mpc_inv_def hm_wf_def)
qed

theorem mpc_session_invariant_witness:
  "ms_round (mpc_run (\<lambda>x. x) [CallAdvance, CallRegister ''p'', CallAdvance]
     (mpc_new \<lparr>mp_total_parties = 1, mp_threshold = 1, mp_max_rounds = 2\<rparr>)) \<le> 2"
  using mpc_session_invariant [of 1 1 2 "\<lparr>mp_total_parties = 1, mp_threshold = 1, mp_max_rounds = 2\<rparr>"
      "\<lambda>x. x" "[CallAdvance, CallRegister ''p'', CallAdvance]"]
  by (simp add: mpc_policy_new_def)

section \<open>Finalisation\<close>

lemma sort_keys: "hm_wf m \<Longrightarrow> sort (map fst m) = sorted_list_of_set (fst ` set m)"
  by (simp add: hm_wf_def sorted_list_of_set_sort_remdups distinct_remdups_id flip: set_map)

text \<open>
  The digest does not depend on the order in which the shares arrived: two well-formed sessions
  with the same threshold and the same share of every party finalise alike, to the same digest or
  the same error.
\<close>

theorem finalize_order_independent:
  assumes "hm_wf (ms_shares s)" "hm_wf (ms_shares s')"
    and "hm_get (ms_shares s) = hm_get (ms_shares s')"
    and "mp_threshold (ms_policy s) = mp_threshold (ms_policy s')"
  shows "finalize_digest sha s = finalize_digest sha s'"
proof -
  have keys: "fst ` set (ms_shares s) = fst ` set (ms_shares s')"
    using assms(3) by (metis dom_map_of_conv_image_fst)
  moreover have "length (ms_shares s) = card (fst ` set (ms_shares s))"
    "length (ms_shares s') = card (fst ` set (ms_shares s'))"
    using assms(1,2) by (metis hm_wf_def distinct_card length_map set_map)+
  ultimately have "length (ms_shares s) = length (ms_shares s')"
    by simp
  then show ?thesis
    using assms(3,4) by (simp add: finalize_digest_def can_finalize_def sort_keys assms(1,2) keys)
qed

theorem finalize_order_independent_witness:
  "finalize_digest rev (mpc_run rev [CallRegister ''a'', CallRegister ''b'',
      CallShare \<lparr>ss_party_id = ''b'', ss_share = [2]\<rparr>, CallShare \<lparr>ss_party_id = ''a'', ss_share = [1]\<rparr>]
      (mpc_new \<lparr>mp_total_parties = 2, mp_threshold = 2, mp_max_rounds = 1\<rparr>)) =
   finalize_digest rev (mpc_run rev [CallRegister ''a'', CallRegister ''b'',
      CallShare \<lparr>ss_party_id = ''a'', ss_share = [1]\<rparr>, CallShare \<lparr>ss_party_id = ''b'', ss_share = [2]\<rparr>]
      (mpc_new \<lparr>mp_total_parties = 2, mp_threshold = 2, mp_max_rounds = 1\<rparr>))"
  by (rule finalize_order_independent)
    (auto simp: mpc_run_eval hm_wf_def)

section \<open>Commitments\<close>

interpretation mpc_commit: hash_commitment sha "\<lambda>_. id" "\<lambda>_. commitment_for sha"
  "\<lambda>_ c x. c = commitment_for sha x" for sha
  by unfold_locales (simp_all add: commitment_for_def)

definition shares_committed :: "(bytes \<Rightarrow> bytes) \<Rightarrow> mpc_session \<Rightarrow> bool" where
  "shares_committed sha s = (\<forall>p x. hm_get (ms_shares s) p = Some x \<longrightarrow>
     hm_get (ms_commitments s) p = Some (commitment_for sha x))"

fun is_bare_share :: "mpc_call \<Rightarrow> bool" where
  "is_bare_share (CallShare m) = True"
| "is_bare_share _ = False"

lemma shares_committed_effect:
  assumes "mpc_effect sha c s s'" "shares_committed sha s" "\<not> is_bare_share c"
  shows "shares_committed sha s'"
  using assms(1)
proof cases
  case (eff_share m)
  then show ?thesis using assms(3) by simp
next
  case (eff_commit m)
  have "p \<noteq> cs_party_id m" if "hm_get (ms_shares s) p = Some x" for p x
    using assms(2) eff_commit that unfolding shares_committed_def by force
  then show ?thesis
    using assms(2) eff_commit by (auto simp: shares_committed_def store_simps)
next
  case (eff_reveal m)
  then show ?thesis
    using assms(2) by (auto simp: shares_committed_def store_simps)
qed (use assms(2) in \<open>auto simp: shares_committed_def\<close>)

lemma commitment_kept_effect:
  assumes "mpc_effect sha c s s'" "hm_get (ms_commitments s) p = Some d"
  shows "hm_get (ms_commitments s') p = Some d"
  using assms by (elim mpc_effectE) (auto simp: store_simps)

lemma commitment_kept:
  "hm_get (ms_commitments s) p = Some d \<Longrightarrow> hm_get (ms_commitments (mpc_run sha calls s)) p = Some d"
  by (rule mpc_run_preserves) (auto intro: commitment_kept_effect mpc_exec_effect)

lemma shares_committed_run:
  "list_all (\<lambda>c. \<not> is_bare_share c) calls \<Longrightarrow> shares_committed sha s \<Longrightarrow>
    shares_committed sha (mpc_run sha calls s)"
  by (rule mpc_run_preserves) (auto simp: list_all_iff intro: shares_committed_effect mpc_exec_effect)

lemma shares_committed_new: "shares_committed sha (mpc_new pol)"
  by (simp add: shares_committed_def mpc_new_def)

text \<open>Where the share of a party comes from: a reveal that opened its commitment, or a bare share.\<close>

definition bare_share :: "string \<Rightarrow> bytes \<Rightarrow> mpc_call" where
  "bare_share p x = CallShare (share_submission_new p x)"

definition share_from :: "(bytes \<Rightarrow> bytes) \<Rightarrow> mpc_call list \<Rightarrow> mpc_session \<Rightarrow> bool" where
  "share_from sha calls s = (\<forall>p x. hm_get (ms_shares s) p = Some x \<longrightarrow>
     hm_get (ms_commitments s) p = Some (commitment_for sha x) \<or> bare_share p x \<in> set calls)"

lemma share_from_effect:
  assumes "mpc_effect sha c s s'" "share_from sha calls s"
  shows "share_from sha (calls @ [c]) s'"
  using assms(1)
proof cases
  case (eff_share m)
  then have "c = bare_share (ss_party_id m) (ss_share m)"
    by (simp add: bare_share_def share_submission_new_def)
  then show ?thesis
    using assms(2) eff_share by (auto simp: share_from_def store_simps)
next
  case (eff_commit m)
  have "p \<noteq> cs_party_id m" if "hm_get (ms_commitments s) p = Some (commitment_for sha x)" for p x
    using that eff_commit by auto
  then show ?thesis
    using assms(2) eff_commit by (fastforce simp: share_from_def store_simps)
next
  case (eff_reveal m)
  then show ?thesis
    using assms(2) by (auto simp: share_from_def store_simps)
qed (use assms(2) in \<open>auto simp: share_from_def\<close>)

lemma share_from_run:
  "share_from sha done s \<Longrightarrow> share_from sha (done @ calls) (mpc_run sha calls s)"
proof (induction calls arbitrary: s "done")
  case (Cons c calls)
  have "share_from sha (done @ [c]) (mpc_exec sha s c)"
    by (rule share_from_effect [OF mpc_exec_effect Cons.prems])
  then show ?case
    using Cons.IH by fastforce
qed simp

lemma share_from_new: "share_from sha calls (mpc_run sha calls (mpc_new pol))"
  using share_from_run [of sha "[]" "mpc_new pol" calls] by (simp add: share_from_def mpc_new_def)

text \<open>
  C9. Commit before reveal.  Once a party has committed to \<open>c\<close>, whatever calls follow and whoever makes
  them, a share the session holds for it hashes to \<open>c\<close>, unless exactly that share was handed in for the
  party by the unnumbered \<open>submit_share\<close>, before or after the commitment: that call alone escapes the
  commitment.  So two continuations that leave different shares for the party exhibit a SHA-256 collision
  or a \<open>submit_share\<close> call with one of the two.
\<close>

theorem mpc_reveal_bound_to_commitment:
  assumes "hm_get (ms_commitments (mpc_run sha before (mpc_new pol))) p = Some c"
    and "hm_get (ms_shares (mpc_run sha (before @ after) (mpc_new pol))) p = Some x"
    and "hm_get (ms_shares (mpc_run sha (before @ after') (mpc_new pol))) p = Some y"
  shows "(sha x = c \<or> CallShare (share_submission_new p x) \<in> set (before @ after)) \<and>
    (x = y \<or> x \<noteq> y \<and> sha x = sha y \<or> CallShare (share_submission_new p x) \<in> set (before @ after) \<or>
     CallShare (share_submission_new p y) \<in> set (before @ after'))"
proof -
  have opened: "sha z = c \<or> CallShare (share_submission_new p z) \<in> set (before @ cs)"
    if "hm_get (ms_shares (mpc_run sha (before @ cs) (mpc_new pol))) p = Some z" for cs z
  proof -
    have "hm_get (ms_commitments (mpc_run sha (before @ cs) (mpc_new pol))) p = Some c"
      using commitment_kept [OF assms(1), of sha cs] by (simp add: mpc_run_def)
    moreover have "hm_get (ms_commitments (mpc_run sha (before @ cs) (mpc_new pol))) p = Some (sha z) \<or>
        CallShare (share_submission_new p z) \<in> set (before @ cs)"
      using share_from_new [of sha "before @ cs" pol] that
      unfolding share_from_def bare_share_def commitment_for_def by blast
    ultimately show ?thesis
      by auto
  qed
  show ?thesis
    using opened [OF assms(2)] opened [OF assms(3)] by auto
qed

theorem mpc_reveal_bound_to_commitment_witness:
  "rev [3, 4] = ([4, 3] :: bytes) \<or> CallShare (share_submission_new ''p'' [3, 4]) \<in>
     set [CallRegister ''p'', CallCommit \<lparr>cs_party_id = ''p'', cs_commitment = [4, 3], cs_nonce = 1, cs_round = 1\<rparr>,
       CallReveal \<lparr>rs_party_id = ''p'', rs_share = [3, 4], rs_nonce = 2, rs_round = 1\<rparr>]"
proof -
  let ?before = "[CallRegister ''p'', CallCommit \<lparr>cs_party_id = ''p'', cs_commitment = [4, 3], cs_nonce = 1, cs_round = 1\<rparr>]"
  let ?after = "[CallReveal \<lparr>rs_party_id = ''p'', rs_share = [3, 4], rs_nonce = 2, rs_round = 1\<rparr>]"
  let ?after' = "[CallShare \<lparr>ss_party_id = ''p'', ss_share = [9]\<rparr>]"
  let ?pol = "\<lparr>mp_total_parties = 1, mp_threshold = 1, mp_max_rounds = 2\<rparr>"
  have "hm_get (ms_commitments (mpc_run rev ?before (mpc_new ?pol))) ''p'' = Some [4, 3]"
    "hm_get (ms_shares (mpc_run rev (?before @ ?after) (mpc_new ?pol))) ''p'' = Some [3, 4]"
    "hm_get (ms_shares (mpc_run rev (?before @ ?after') (mpc_new ?pol))) ''p'' = Some [9]"
    by (simp_all add: mpc_run_eval)
  from mpc_reveal_bound_to_commitment [OF this] show ?thesis
    by simp
qed

text \<open>
  The plain share call is outside that protocol.  Whatever value a registered party has committed
  to, \<open>submit_share\<close> accepts any share from it while it has none, in any round and with no nonce,
  and from then on the digest is computed over that share and an honest reveal is refused.
\<close>

theorem submit_share_bypasses_commitment:
  assumes "p \<in> ms_parties s" "hm_get (ms_shares s) p = None"
    and "s' = snd (submit_share \<lparr>ss_party_id = p, ss_share = x\<rparr> s)"
  shows "hm_get (ms_shares s') p = Some x \<and> ms_commitments s' = ms_commitments s \<and>
    ms_seen_nonces s' = ms_seen_nonces s \<and>
    isl (fst (submit_reveal sha \<lparr>rs_party_id = p, rs_share = y, rs_nonce = n, rs_round = r\<rparr> s'))"
  using assms
  by (auto simp: submit_share_def hm_contains_def store_simps submit_reveal_def admit_cases)

theorem submit_share_bypasses_commitment_witness:
  "hm_get (ms_shares (snd (submit_share \<lparr>ss_party_id = ''p'', ss_share = [9]\<rparr>
     \<lparr>ms_policy = \<lparr>mp_total_parties = 1, mp_threshold = 1, mp_max_rounds = 2\<rparr>, ms_parties = {''p''},
      ms_commitments = [(''p'', [4, 3])], ms_shares = [], ms_seen_nonces = {1}, ms_session_nonce = 0,
      ms_round = 1\<rparr>))) ''p'' = Some [9]"
  by (rule submit_share_bypasses_commitment [THEN conjunct1]) simp_all

section \<open>Nonces\<close>

lemma nonce_kept_effect: "mpc_effect sha c s s' \<Longrightarrow> n \<in> ms_seen_nonces s \<Longrightarrow> n \<in> ms_seen_nonces s'"
  by (elim mpc_effectE) auto

lemma nonce_kept: "n \<in> ms_seen_nonces s \<Longrightarrow> n \<in> ms_seen_nonces (mpc_run sha calls s)"
  by (rule mpc_run_preserves) (auto intro: nonce_kept_effect mpc_exec_effect)

text \<open>The round of a numbered message, and what a call answers.\<close>

fun call_round :: "mpc_call \<Rightarrow> u32 option" where
  "call_round (CallCommit m) = Some (cs_round m)"
| "call_round (CallReveal m) = Some (rs_round m)"
| "call_round (CallAggregate m) = Some (am_round m)"
| "call_round _ = None"

fun mpc_answer :: "(bytes \<Rightarrow> bytes) \<Rightarrow> mpc_session \<Rightarrow> mpc_call \<Rightarrow> mpc_error + unit" where
  "mpc_answer sha s (CallRegister p) = fst (register_party p s)"
| "mpc_answer sha s (CallShare m) = fst (submit_share m s)"
| "mpc_answer sha s (CallCommit m) = fst (submit_commit m s)"
| "mpc_answer sha s (CallReveal m) = fst (submit_reveal sha m s)"
| "mpc_answer sha s (CallAggregate m) = fst (apply_aggregate sha m s)"
| "mpc_answer sha s CallAdvance = Inr ()"

lemma wrong_round_refused:
  assumes "call_round c = Some r" "r \<noteq> ms_round s"
  shows "mpc_exec sha s c = s \<and> mpc_answer sha s c = Inl (RoundMismatch (ms_round s) r)"
  using assms by (cases c) (simp_all add: submit_commit_def submit_reveal_def apply_aggregate_def admit_cases)

lemma seen_nonce_refused:
  assumes "call_round c = Some (ms_round s)" "call_nonce c = Some n" "n \<in> ms_seen_nonces s"
  shows "mpc_exec sha s c = s \<and> mpc_answer sha s c = Inl (ReplayDetected n)"
  using assms by (cases c) (simp_all add: submit_commit_def submit_reveal_def apply_aggregate_def admit_cases)

lemma nonce_consumed:
  assumes "call_round c = Some (ms_round s)" "call_nonce c = Some n"
  shows "n \<in> ms_seen_nonces (mpc_exec sha s c)"
  using assms by (cases c) (auto simp: submit_commit_def submit_reveal_def apply_aggregate_def admit_cases
      split: option.splits sum.splits)

text \<open>
  C30. Nonces.  A commitment, reveal or aggregate message for another round than the current one is refused
  and changes nothing, its nonce included.  One for the current round consumes its nonce whether it is
  accepted or refused (for an unknown party, a duplicate, a share that does not open the commitment, a
  wrong digest): after any further calls, every commitment, reveal or aggregate message with that nonce is
  refused and changes nothing.  An outsider who guesses a nonce can thus block the message that would have
  used it.
\<close>

theorem mpc_nonce_used_once:
  assumes "call_nonce c = Some n" "call_round c = Some r" "call_nonce c' = Some n" "call_round c' = Some r'"
  shows "if r = ms_round s
    then (let s' = mpc_run sha calls (mpc_exec sha s c)
          in mpc_exec sha s' c' = s' \<and>
             mpc_answer sha s' c' = Inl (if r' = ms_round s' then ReplayDetected n else RoundMismatch (ms_round s') r'))
    else mpc_exec sha s c = s \<and> mpc_answer sha s c = Inl (RoundMismatch (ms_round s) r)"
proof (cases "r = ms_round s")
  case True
  let ?s' = "mpc_run sha calls (mpc_exec sha s c)"
  have seen: "n \<in> ms_seen_nonces ?s'"
    using assms(1,2) True by (intro nonce_kept nonce_consumed) simp_all
  show ?thesis
    using True seen_nonce_refused [OF _ assms(3) seen, of sha] wrong_round_refused [OF assms(4), of ?s' sha] assms(4)
    by (cases "r' = ms_round ?s'") (simp_all add: Let_def)
next
  case False
  then show ?thesis
    using wrong_round_refused [OF assms(2)] by simp
qed

theorem mpc_nonce_used_once_witness:
  "mpc_answer rev (mpc_run rev [CallCommit \<lparr>cs_party_id = ''p'', cs_commitment = [4], cs_nonce = 8, cs_round = 1\<rparr>]
      (mpc_exec rev (mpc_run rev [CallRegister ''p''] (mpc_new \<lparr>mp_total_parties = 1, mp_threshold = 1, mp_max_rounds = 2\<rparr>))
        (CallReveal \<lparr>rs_party_id = ''p'', rs_share = [9], rs_nonce = 7, rs_round = 1\<rparr>)))
     (CallReveal \<lparr>rs_party_id = ''p'', rs_share = [4], rs_nonce = 7, rs_round = 1\<rparr>) = Inl (ReplayDetected 7)"
  using mpc_nonce_used_once [of "CallReveal \<lparr>rs_party_id = ''p'', rs_share = [9], rs_nonce = 7, rs_round = 1\<rparr>" 7 1
      "CallReveal \<lparr>rs_party_id = ''p'', rs_share = [4], rs_nonce = 7, rs_round = 1\<rparr>" 1
      "mpc_run rev [CallRegister ''p''] (mpc_new \<lparr>mp_total_parties = 1, mp_threshold = 1, mp_max_rounds = 2\<rparr>)"
      rev "[CallCommit \<lparr>cs_party_id = ''p'', cs_commitment = [4], cs_nonce = 8, cs_round = 1\<rparr>]"]
  by (simp add: mpc_run_eval)

section \<open>Liveness\<close>

lemma party_kept_effect: "mpc_effect sha c s s' \<Longrightarrow> p \<in> ms_parties s \<Longrightarrow> p \<in> ms_parties s'"
  by (elim mpc_effectE) auto

lemma party_kept: "p \<in> ms_parties s \<Longrightarrow> p \<in> ms_parties (mpc_run sha calls s)"
  by (rule mpc_run_preserves) (auto intro: party_kept_effect mpc_exec_effect)

lemma share_kept_effect:
  assumes "mpc_effect sha c s s'" "hm_get (ms_shares s) p = Some x"
  shows "hm_get (ms_shares s') p = Some x"
  using assms by (elim mpc_effectE) (auto simp: store_simps)

lemma share_kept: "hm_get (ms_shares s) p = Some x \<Longrightarrow> hm_get (ms_shares (mpc_run sha calls s)) p = Some x"
  by (rule mpc_run_preserves) (auto intro: share_kept_effect mpc_exec_effect)

lemma mpc_run_append: "mpc_run sha (a @ b) s = mpc_run sha b (mpc_run sha a s)"
  by (simp add: mpc_run_def)

lemma party_registered:
  assumes "CallRegister p \<in> set a"
  shows "p \<in> ms_parties (mpc_run sha a s)"
proof -
  obtain a1 a2 where "a = a1 @ CallRegister p # a2"
    using assms by (meson split_list)
  then show ?thesis
    by (simp add: mpc_run_append register_party_def party_kept)
qed

lemma seen_nonces_effect:
  "mpc_effect sha c s s' \<Longrightarrow> n \<in> ms_seen_nonces s' \<Longrightarrow> n \<in> ms_seen_nonces s \<or> call_nonce c = Some n"
  by (elim mpc_effectE) auto

lemma nonce_unseen:
  "n \<notin> ms_seen_nonces s \<Longrightarrow> Some n \<notin> call_nonce ` set a \<Longrightarrow> n \<notin> ms_seen_nonces (mpc_run sha a s)"
proof (induction a arbitrary: s)
  case (Cons c a)
  then show ?case
    using seen_nonces_effect [OF mpc_exec_effect, of n sha s c] by (auto dest: sym)
qed simp

lemma silent_effect:
  assumes "mpc_effect sha c s s'" "call_party c \<noteq> Some p"
  shows "hm_get (ms_shares s') p = hm_get (ms_shares s) p"
    and "hm_get (ms_commitments s') p = hm_get (ms_commitments s) p"
  using assms by (elim mpc_effectE; auto simp: store_simps)+

lemma silent_run:
  "Some p \<notin> call_party ` set a \<Longrightarrow> hm_get (ms_shares (mpc_run sha a s)) p = hm_get (ms_shares s) p \<and>
    hm_get (ms_commitments (mpc_run sha a s)) p = hm_get (ms_commitments s) p"
proof (induction a arbitrary: s)
  case (Cons c a)
  then show ?case
    using silent_effect [OF mpc_exec_effect, of c p sha s] by auto
qed simp

text \<open>
  Party \<open>p\<close> takes part in a run: it is registered, commits to its share in the round then current with a
  nonce not used before, and later reveals that share likewise, submitting nothing else before its reveal.
  Everything else in the run is arbitrary.
\<close>

definition takes_part :: "(bytes \<Rightarrow> bytes) \<Rightarrow> mpc_policy \<Rightarrow> mpc_call list \<Rightarrow> string \<Rightarrow> bytes \<Rightarrow> bool" where
  "takes_part sha pol calls p x \<longleftrightarrow> (\<exists>a n b n' c.
     let s = mpc_run sha a (mpc_new pol);
         commit = CallCommit (commit_submission_new p (commitment_for sha x) n (current_round s));
         s' = mpc_run sha (commit # b) s;
         reveal = CallReveal (reveal_submission_new p x n' (current_round s'))
     in calls = a @ commit # b @ reveal # c \<and> CallRegister p \<in> set a \<and>
        Some p \<notin> call_party ` set (a @ b) \<and>
        Some n \<notin> call_nonce ` set a \<and> Some n' \<notin> call_nonce ` set (a @ commit # b))"

lemma takes_part_share:
  assumes "takes_part sha pol calls p x"
  shows "hm_get (ms_shares (mpc_run sha calls (mpc_new pol))) p = Some x"
proof -
  obtain a n b n' c s commit s' reveal where
    s: "s = mpc_run sha a (mpc_new pol)"
    and commit: "commit = CallCommit (commit_submission_new p (commitment_for sha x) n (ms_round s))"
    and s': "s' = mpc_run sha (commit # b) s"
    and reveal: "reveal = CallReveal (reveal_submission_new p x n' (ms_round s'))"
    and calls: "calls = a @ commit # b @ reveal # c"
    and reg: "CallRegister p \<in> set a" and silent: "Some p \<notin> call_party ` set (a @ b)"
    and fresh: "Some n \<notin> call_nonce ` set a" "Some n' \<notin> call_nonce ` set (a @ commit # b)"
    using assms unfolding takes_part_def Let_def current_round_def by blast
  have none: "hm_get (ms_shares s) p = None" "hm_get (ms_commitments s) p = None"
    using silent silent_run [of p a sha "mpc_new pol"] unfolding s by (auto simp: mpc_new_def)
  have n: "n \<notin> ms_seen_nonces s"
    unfolding s using fresh(1) by (intro nonce_unseen) (simp_all add: mpc_new_def)
  let ?t = "mpc_exec sha s commit"
  have t: "hm_get (ms_shares ?t) p = None" "hm_get (ms_commitments ?t) p = Some (commitment_for sha x)"
    using none n party_registered [OF reg, of sha "mpc_new pol"]
    by (simp_all add: commit mpc_messages submit_commit_def admit_cases hm_contains_def store_simps flip: s)
  have st: "s' = mpc_run sha b ?t"
    by (simp add: s')
  have u: "hm_get (ms_shares s') p = None" "hm_get (ms_commitments s') p = Some (commitment_for sha x)"
    using silent t silent_run [of p b sha ?t] by (simp_all add: st image_Un)
  have "s' = mpc_run sha (a @ commit # b) (mpc_new pol)"
    by (simp add: mpc_run_append s' s)
  then have "n' \<notin> ms_seen_nonces s'" "p \<in> ms_parties s'"
    using nonce_unseen [OF _ fresh(2), of "mpc_new pol" sha] party_registered [of p "a @ commit # b" sha] reg
    by (simp_all add: mpc_new_def)
  then have "hm_get (ms_shares (mpc_exec sha s' reveal)) p = Some x"
    using u by (simp add: reveal mpc_messages submit_reveal_def admit_cases hm_contains_def store_simps)
  moreover have "mpc_run sha calls (mpc_new pol) = mpc_run sha c (mpc_exec sha s' reveal)"
    by (simp add: calls mpc_run_append s s')
  ultimately show ?thesis
    by (simp add: share_kept)
qed

text \<open>
  C10. Once threshold many parties have taken part, whatever anyone else submitted in between and in whatever
  order, the session finalises, and the coordinator's message carrying that digest is accepted with any
  nonce not used before.
\<close>

theorem mpc_threshold_finalizes:
  assumes "mpc_policy_new parties threshold rounds = Inr pol"
    and "\<forall>p\<in>H. \<exists>x. takes_part sha pol calls p x" "threshold \<le> card H"
    and "s = mpc_run sha calls (mpc_new pol)" "n \<notin> ms_seen_nonces s"
  shows "\<exists>d. finalize_digest sha s = Inr d \<and>
    fst (apply_aggregate sha (aggregate_message_new (current_round s) n d) s) = Inr ()"
proof -
  have inv: "mpc_inv pol s" "mp_threshold pol = threshold"
    using mpc_inv_run [OF mpc_inv_new [OF assms(1)], of sha calls] assms(1,4)
    by (auto simp: mpc_policy_new_def split: if_splits)
  have "H \<subseteq> fst ` set (ms_shares s)"
    using assms(2,4) takes_part_share by (force simp: dom_map_of_conv_image_fst [symmetric])
  then have "card H \<le> length (ms_shares s)"
    by (metis card_length card_mono finite_imageI finite_set le_trans length_map set_map)
  then have "can_finalize s"
    using assms(3) inv by (simp add: can_finalize_def mpc_inv_def)
  then obtain d where "finalize_digest sha s = Inr d"
    by (simp add: finalize_digest_def)
  moreover have "finalize_digest sha (s\<lparr>ms_seen_nonces := N\<rparr>) = finalize_digest sha s" for N
    by (simp add: finalize_digest_def can_finalize_def)
  ultimately show ?thesis
    using assms(5) by (simp add: apply_aggregate_def admit_cases mpc_messages)
qed

definition demo_policy :: mpc_policy where
  "demo_policy = \<lparr>mp_total_parties = 2, mp_threshold = 2, mp_max_rounds = 2\<rparr>"

definition demo_calls :: "mpc_call list" where
  "demo_calls =
     [CallRegister ''p'', CallRegister ''q'', CallCommit (commit_submission_new ''p'' [2, 1] 1 1),
      CallCommit (commit_submission_new ''q'' [4, 3] 2 1), CallCommit (commit_submission_new ''eve'' [] 9 1), CallAdvance,
      CallReveal (reveal_submission_new ''q'' [3, 4] 4 2), CallReveal (reveal_submission_new ''p'' [1, 2] 3 2)]"

lemma demo_takes_part:
  "takes_part rev demo_policy demo_calls ''p'' [1, 2]" "takes_part rev demo_policy demo_calls ''q'' [3, 4]"
proof -
  show "takes_part rev demo_policy demo_calls ''p'' [1, 2]"
    unfolding takes_part_def
    by (intro exI [of _ "take 2 demo_calls"] exI [of _ 1] exI [of _ "take 4 (drop 3 demo_calls)"]
          exI [of _ 3] exI [of _ "[]"]) code_simp
  show "takes_part rev demo_policy demo_calls ''q'' [3, 4]"
    unfolding takes_part_def
    by (intro exI [of _ "take 3 demo_calls"] exI [of _ 2] exI [of _ "take 2 (drop 4 demo_calls)"]
          exI [of _ 4] exI [of _ "drop 7 demo_calls"]) code_simp
qed

theorem mpc_threshold_finalizes_witness:
  "\<exists>d. finalize_digest rev (mpc_run rev demo_calls (mpc_new demo_policy)) = Inr d"
proof -
  have "7 \<notin> ms_seen_nonces (mpc_run rev demo_calls (mpc_new demo_policy))"
    by code_simp
  moreover have "mpc_policy_new 2 2 2 = Inr demo_policy"
    by (simp add: mpc_policy_new_def demo_policy_def)
  ultimately show ?thesis
    using mpc_threshold_finalizes [of 2 2 2 demo_policy "{''p'', ''q''}" rev demo_calls _ 7] demo_takes_part by auto
qed

text \<open>The digest is not injective in the shares: party names and shares are hashed without a separator, so
  a byte can move between them.\<close>

lemma finalize_digest_ambiguous:
  "finalize_digest sha (s\<lparr>ms_shares := [(''a'', 98 # x)]\<rparr>) = finalize_digest sha (s\<lparr>ms_shares := [(''ab'', x)]\<rparr>)"
  by (simp add: finalize_digest_def can_finalize_def as_bytes_def)

end
