(* ===== verification/Adv_Sharing.thy ===== *)
theory Adv_Sharing
  imports Commitment
begin

unbundle bit_operations_syntax

text \<open>
  \<open>src/advanced_secret_sharing.rs\<close>: authenticated shares, share commitments and proactive refresh.
  SHA-256 is the parameter \<open>sha\<close> and HMAC-SHA-256 the parameter \<open>hmac\<close> (key, message).  The
  mask of a refresh is produced by a loop that ends because a digest is not empty; it is a partial
  function, and its result is proved to exist for every hash of 32 bytes.
\<close>

section \<open>Authenticated shares\<close>

datatype adv_error =
    IndexOutOfBounds | VerificationFailed | InvalidShareLength | InvalidThreshold
  | ParticipantMismatch | ProofVerificationFailed | MacAuthenticationFailed | EmptyMacKey

record authenticated_share =
  as_participant_id :: string
  as_share_bytes :: bytes
  as_epoch :: u64
  as_mac :: bytes

definition compute_mac ::
  "(bytes \<Rightarrow> bytes \<Rightarrow> bytes) \<Rightarrow> string \<Rightarrow> bytes \<Rightarrow> u64 \<Rightarrow> bytes \<Rightarrow> bytes \<Rightarrow> bytes" where
  "compute_mac hmac participant_id share_bytes epoch ctx key =
     hmac key (as_bytes participant_id @ share_bytes @ to_le_bytes epoch @ ctx)"

definition authenticate_share ::
  "(bytes \<Rightarrow> bytes \<Rightarrow> bytes) \<Rightarrow> string \<Rightarrow> bytes \<Rightarrow> u64 \<Rightarrow> bytes \<Rightarrow> bytes
     \<Rightarrow> adv_error + authenticated_share" where
  "authenticate_share hmac participant_id share_bytes epoch ctx key =
     (if key = [] then Inl EmptyMacKey
      else Inr \<lparr>as_participant_id = participant_id, as_share_bytes = share_bytes, as_epoch = epoch,
                as_mac = compute_mac hmac participant_id share_bytes epoch ctx key\<rparr>)"

definition verify_authenticated_share ::
  "(bytes \<Rightarrow> bytes \<Rightarrow> bytes) \<Rightarrow> authenticated_share \<Rightarrow> bytes \<Rightarrow> bytes \<Rightarrow> adv_error + unit" where
  "verify_authenticated_share hmac a ctx key =
     (if key = [] then Inl EmptyMacKey
      else if compute_mac hmac (as_participant_id a) (as_share_bytes a) (as_epoch a) ctx key \<noteq> as_mac a
      then Inl MacAuthenticationFailed
      else Inr ())"

section \<open>Commitments\<close>

record vss_commitment =
  vc_index :: u8
  vc_commitment :: bytes

record verified_share =
  vs_index :: u8
  vs_share :: bytes

record participant_share =
  ps_participant_id :: string
  ps_share :: bytes

definition participant_share_new :: "string \<Rightarrow> bytes \<Rightarrow> participant_share" where
  "participant_share_new participant_id x = \<lparr>ps_participant_id = participant_id, ps_share = x\<rparr>"

definition commitment_hash :: "(bytes \<Rightarrow> bytes) \<Rightarrow> u8 \<Rightarrow> bytes \<Rightarrow> bytes" where
  "commitment_hash sha index share_bytes = sha ([index] @ share_bytes)"

definition create_commitments :: "(bytes \<Rightarrow> bytes) \<Rightarrow> bytes list \<Rightarrow> vss_commitment list" where
  "create_commitments sha shares =
     map (\<lambda>(idx, sh). \<lparr>vc_index = of_nat idx, vc_commitment = commitment_hash sha (of_nat idx) sh\<rparr>)
       (enumerate 0 shares)"

definition verify_share :: "(bytes \<Rightarrow> bytes) \<Rightarrow> bytes \<Rightarrow> vss_commitment \<Rightarrow> adv_error + verified_share" where
  "verify_share sha share_bytes c =
     (if commitment_hash sha (vc_index c) share_bytes \<noteq> vc_commitment c then Inl VerificationFailed
      else Inr \<lparr>vs_index = vc_index c, vs_share = share_bytes\<rparr>)"

section \<open>Proactive refresh\<close>

record refresh_proof =
  rp_transcript_hash :: bytes

record reshare_plan =
  rs_old_threshold :: nat
  rs_new_threshold :: nat
  rs_old_epoch :: u64
  rs_new_epoch :: u64
  rs_refreshed :: "participant_share list"
  rs_proof :: refresh_proof

text \<open>The refresher is its epoch; the default epoch is 1.\<close>

type_synonym proactive_refresher = u64

definition refresher_default :: proactive_refresher where
  "refresher_default = 1"

definition refresher_new :: proactive_refresher where
  "refresher_new = refresher_default"

definition advance_epoch :: "u64 \<Rightarrow> u64" where
  "advance_epoch epoch = saturating_add epoch 1"

partial_function (option) mask_loop ::
  "(bytes \<Rightarrow> bytes) \<Rightarrow> bytes \<Rightarrow> u64 \<Rightarrow> nat \<Rightarrow> u64 \<Rightarrow> bytes \<Rightarrow> bytes option" where
  "mask_loop sha seed epoch len counter output =
     (if length output < len
      then mask_loop sha seed epoch len (saturating_add counter 1)
             (output @ sha (seed @ to_le_bytes epoch @ to_le_bytes counter))
      else Some (take len output))"

definition refresh_mask :: "(bytes \<Rightarrow> bytes) \<Rightarrow> u64 \<Rightarrow> bytes \<Rightarrow> nat \<Rightarrow> bytes option" where
  "refresh_mask sha epoch seed len = mask_loop sha seed epoch len 0 []"

definition refresh_share ::
  "(bytes \<Rightarrow> bytes) \<Rightarrow> u64 \<Rightarrow> bytes \<Rightarrow> bytes \<Rightarrow> (adv_error + bytes) option" where
  "refresh_share sha epoch share_bytes seed =
     (if share_bytes = [] then Some (Inl InvalidShareLength)
      else map_option (\<lambda>m. Inr (map (\<lambda>(v, noise). v XOR noise) (zip share_bytes m)))
             (refresh_mask sha epoch seed (length share_bytes)))"

definition validate_thresholds :: "nat \<Rightarrow> nat \<Rightarrow> nat \<Rightarrow> nat \<Rightarrow> adv_error + unit" where
  "validate_thresholds old_parties new_parties old_threshold new_threshold =
     (if old_threshold = 0 \<or> old_parties < old_threshold then Inl InvalidThreshold
      else if new_threshold = 0 \<or> new_parties < new_threshold then Inl InvalidThreshold
      else Inr ())"

definition build_refresh_proof ::
  "(bytes \<Rightarrow> bytes) \<Rightarrow> u64 \<Rightarrow> u64 \<Rightarrow> nat \<Rightarrow> nat \<Rightarrow> string list \<Rightarrow> participant_share list \<Rightarrow> refresh_proof" where
  "build_refresh_proof sha old_epoch new_epoch old_threshold new_threshold participants refreshed =
     \<lparr>rp_transcript_hash = sha
        (to_le_bytes old_epoch @ to_le_bytes new_epoch @
         to_le_bytes (of_nat old_threshold) @ to_le_bytes (of_nat new_threshold) @
         concat (map as_bytes participants) @
         concat (map (\<lambda>i. as_bytes (ps_participant_id i) @ commitment_hash sha 0 (ps_share i)) refreshed))\<rparr>"

definition verify_reshare_plan :: "(bytes \<Rightarrow> bytes) \<Rightarrow> reshare_plan \<Rightarrow> bool" where
  "verify_reshare_plan sha plan =
     (build_refresh_proof sha (rs_old_epoch plan) (rs_new_epoch plan) (rs_old_threshold plan)
        (rs_new_threshold plan) (map ps_participant_id (rs_refreshed plan)) (rs_refreshed plan)
      = rs_proof plan)"

text \<open>The loop over the new roster; the first refresh that fails ends it.\<close>

fun reshare_loop ::
  "(bytes \<Rightarrow> bytes) \<Rightarrow> u64 \<Rightarrow> participant_share list \<Rightarrow> bytes \<Rightarrow> nat \<Rightarrow> string list
     \<Rightarrow> (adv_error + participant_share list) option" where
  "reshare_loop sha epoch current seed idx [] = Some (Inr [])"
| "reshare_loop sha epoch current seed idx (p # ps) =
     (case refresh_share sha epoch (ps_share (current ! (idx mod length current)))
             (seed @ as_bytes p @ to_le_bytes (of_nat idx)) of
        None \<Rightarrow> None
      | Some (Inl e) \<Rightarrow> Some (Inl e)
      | Some (Inr next_share) \<Rightarrow>
          map_option (map_sum id ((#) \<lparr>ps_participant_id = p, ps_share = next_share\<rparr>))
            (reshare_loop sha epoch current seed (Suc idx) ps))"

text \<open>Returns the result and the refresher's new epoch.\<close>

definition reshare_for_participants ::
  "(bytes \<Rightarrow> bytes) \<Rightarrow> participant_share list \<Rightarrow> string list \<Rightarrow> nat \<Rightarrow> nat \<Rightarrow> bytes \<Rightarrow> u64
     \<Rightarrow> ((adv_error + reshare_plan) \<times> u64) option" where
  "reshare_for_participants sha current next_participants old_threshold new_threshold seed epoch =
     (case validate_thresholds (length current) (length next_participants) old_threshold new_threshold of
        Inl e \<Rightarrow> Some (Inl e, epoch)
      | Inr _ \<Rightarrow>
          if current = [] \<or> next_participants = [] then Some (Inl ParticipantMismatch, epoch)
          else
            let epoch' = advance_epoch epoch
            in (case reshare_loop sha epoch' current seed 0 next_participants of
                  None \<Rightarrow> None
                | Some (Inl e) \<Rightarrow> Some (Inl e, epoch')
                | Some (Inr refreshed) \<Rightarrow>
                    let plan = \<lparr>rs_old_threshold = old_threshold, rs_new_threshold = new_threshold,
                          rs_old_epoch = epoch, rs_new_epoch = epoch', rs_refreshed = refreshed,
                          rs_proof = build_refresh_proof sha epoch epoch' old_threshold new_threshold
                                       next_participants refreshed\<rparr>
                    in if \<not> verify_reshare_plan sha plan then Some (Inl ProofVerificationFailed, epoch')
                       else Some (Inr plan, epoch')))"

section \<open>What the tag of a share binds\<close>

definition mac_preimage :: "string \<Rightarrow> bytes \<Rightarrow> u64 \<Rightarrow> bytes \<Rightarrow> bytes" where
  "mac_preimage participant_id share_bytes epoch ctx =
     (as_bytes participant_id @ share_bytes) @ to_le_bytes epoch @ ctx"

lemma mac_preimage_eq_iff:
  "mac_preimage p x e ctx = mac_preimage q y f ctx \<longleftrightarrow> as_bytes p @ x = as_bytes q @ y \<and> e = f"
proof -
  have "(as_bytes p @ x) @ to_le_bytes e = (as_bytes q @ y) @ to_le_bytes f \<longleftrightarrow>
      as_bytes p @ x = as_bytes q @ y \<and> e = f"
    by (subst append_eq_append_conv) simp_all
  then show ?thesis
    by (metis mac_preimage_def append_assoc append_same_eq)
qed

text \<open>
  The tag binds the epoch, and the identifier and the share only run together.  A share made for
  \<open>p\<close>, \<open>x\<close> and epoch \<open>e\<close> verifies, and its tag verifies on another identifier, share and
  epoch exactly when the two are authenticated by the same bytes (same epoch, same concatenation of
  identifier and share) or by different bytes with the same HMAC.  So bytes can be moved between the
  end of the identifier and the start of the share without detection.
\<close>

theorem mac_binds_epoch_and_concatenation:
  assumes "authenticate_share hmac p x e ctx key = Inr a"
  shows "verify_authenticated_share hmac a ctx key = Inr () \<and>
    (verify_authenticated_share hmac
       (a\<lparr>as_participant_id := q, as_share_bytes := y, as_epoch := f\<rparr>) ctx key = Inr () \<longleftrightarrow>
     e = f \<and> as_bytes p @ x = as_bytes q @ y \<or>
     mac_preimage p x e ctx \<noteq> mac_preimage q y f ctx \<and>
       hmac key (mac_preimage p x e ctx) = hmac key (mac_preimage q y f ctx))"
proof -
  have "compute_mac hmac p x e ctx key = hmac key (mac_preimage p x e ctx)" for p x e
    by (simp add: compute_mac_def mac_preimage_def)
  then have v: "verify_authenticated_share hmac
      \<lparr>as_participant_id = r, as_share_bytes = z, as_epoch = g, as_mac = m\<rparr> ctx key = Inr () \<longleftrightarrow>
      key \<noteq> [] \<and> hmac key (mac_preimage r z g ctx) = m" for r z g m
    by (simp add: verify_authenticated_share_def)
  have "key \<noteq> []" and a: "a = \<lparr>as_participant_id = p, as_share_bytes = x, as_epoch = e,
      as_mac = hmac key (mac_preimage p x e ctx)\<rparr>"
    using assms by (simp_all add: authenticate_share_def compute_mac_def mac_preimage_def split: if_splits)
  then have "verify_authenticated_share hmac
      (a\<lparr>as_participant_id := q, as_share_bytes := y, as_epoch := f\<rparr>) ctx key = Inr () \<longleftrightarrow>
      hmac key (mac_preimage q y f ctx) = hmac key (mac_preimage p x e ctx)"
    by (simp add: v)
  moreover have "verify_authenticated_share hmac a ctx key = Inr ()"
    using \<open>key \<noteq> []\<close> by (simp add: a v)
  ultimately show ?thesis
    using mac_preimage_eq_iff [of p x e ctx q y f] by metis
qed

theorem mac_binds_epoch_and_concatenation_witness:
  "verify_authenticated_share (\<lambda>k m. k @ m)
     \<lparr>as_participant_id = ''abc'', as_share_bytes = [1], as_epoch = 3,
      as_mac = [7] @ mac_preimage ''ab'' [99, 1] 3 []\<rparr> [] [7] = Inr ()"
  using mac_binds_epoch_and_concatenation [where hmac = "\<lambda>k m. k @ m" and p = "''ab''" and x = "[99, 1]"
      and e = 3 and ctx = "[]" and key = "[7]" and q = "''abc''" and y = "[1]" and f = 3]
  by (simp add: authenticate_share_def compute_mac_def mac_preimage_def of_char_def)

section \<open>Share commitments\<close>

interpretation vss: hash_commitment sha "\<lambda>i x. i # x" "commitment_hash sha"
  "\<lambda>i c x. verify_share sha x \<lparr>vc_index = i, vc_commitment = c\<rparr> = Inr \<lparr>vs_index = i, vs_share = x\<rparr>" for sha
  by unfold_locales (auto simp: commitment_hash_def verify_share_def)

lemma create_commitments_nth:
  "i < length shares \<Longrightarrow> create_commitments sha shares ! i =
    \<lparr>vc_index = of_nat i, vc_commitment = commitment_hash sha (of_nat i) (shares ! i)\<rparr>"
  by (simp add: create_commitments_def nth_enumerate_eq)

text \<open>
  Commitments are complete and binding: the commitment made for the share at position \<open>i\<close>
  accepts that share, under the index \<open>i mod 256\<close> (the position is truncated to a byte), and if it
  accepts another share then the two are a SHA-256 collision.
\<close>

theorem commitments_complete_and_binding:
  assumes "i < length shares" "c = create_commitments sha shares ! i"
  shows "verify_share sha (shares ! i) c = Inr \<lparr>vs_index = of_nat i, vs_share = shares ! i\<rparr> \<and>
    unat (vc_index c) = i mod 256 \<and>
    (isl (verify_share sha y c) \<or> y = shares ! i \<or>
     vc_index c # y \<noteq> vc_index c # shares ! i \<and> sha (vc_index c # y) = sha (vc_index c # shares ! i))"
proof -
  have c: "c = \<lparr>vc_index = of_nat i, vc_commitment = commitment_hash sha (of_nat i) (shares ! i)\<rparr>"
    using assms by (simp add: create_commitments_nth)
  have "isl (verify_share sha y c) \<or> verify_share sha y c = Inr \<lparr>vs_index = of_nat i, vs_share = y\<rparr>"
    by (simp add: verify_share_def c)
  then show ?thesis
    using vss.complete [where sha = sha and k = "of_nat i" and x = "shares ! i"]
      vss.binding [where sha = sha and k = "of_nat i" and c = "vc_commitment c" and x = y and y = "shares ! i"]
    by (auto simp: c unat_of_nat)
qed

theorem commitments_complete_and_binding_witness:
  "verify_share rev [5, 6] (create_commitments rev [[1], [5, 6]] ! 1) = Inr \<lparr>vs_index = 1, vs_share = [5, 6]\<rparr>"
  using commitments_complete_and_binding [of 1 "[[1], [5, 6 :: u8]]" _ rev] by simp

section \<open>Refreshing one share\<close>

definition digest32 :: "(bytes \<Rightarrow> bytes) \<Rightarrow> bool" where
  "digest32 sha = (\<forall>x. length (sha x) = 32)"

lemma mask_loop_returns:
  assumes "digest32 sha"
  shows "\<exists>m. mask_loop sha seed epoch len c out = Some m \<and> length m = len"
proof (induction "len - length out" arbitrary: c out rule: less_induct)
  case less
  show ?case
  proof (cases "length out < len")
    case True
    have "length (sha x) = 32" for x
      using assms by (simp add: digest32_def)
    then have "len - length (out @ sha x) < len - length out" for x
      using True by simp
    then show ?thesis
      using less [of "out @ sha (seed @ to_le_bytes epoch @ to_le_bytes c)" "saturating_add c 1"] True
      by (subst mask_loop.simps) simp
  next
    case False
    then show ?thesis
      by (subst mask_loop.simps) simp
  qed
qed

lemma refresh_mask_returns:
  "digest32 sha \<Longrightarrow> \<exists>m. refresh_mask sha epoch seed len = Some m \<and> length m = len"
  unfolding refresh_mask_def by (rule mask_loop_returns)

text \<open>The share combined with its mask.\<close>

definition masked :: "(bytes \<Rightarrow> bytes) \<Rightarrow> u64 \<Rightarrow> bytes \<Rightarrow> bytes \<Rightarrow> bytes" where
  "masked sha epoch seed x = map2 (XOR) x (the (refresh_mask sha epoch seed (length x)))"

lemma refresh_share_masked:
  assumes "digest32 sha"
  shows "refresh_share sha epoch x seed =
    Some (if x = [] then Inl InvalidShareLength else Inr (masked sha epoch seed x))"
  using refresh_mask_returns [OF assms, of epoch seed "length x"]
  by (auto simp: refresh_share_def masked_def)

lemma length_masked:
  "digest32 sha \<Longrightarrow> length (masked sha epoch seed x) = length x"
  using refresh_mask_returns [of sha epoch seed "length x"] by (auto simp: masked_def)

lemma map2_xor_involution:
  "length (x :: bytes) = length m \<Longrightarrow> map2 (XOR) (map2 (XOR) x m) m = x"
  by (induction x m rule: list_induct2) (simp_all add: xor.assoc)

lemma masked_masked:
  assumes "digest32 sha"
  shows "masked sha epoch seed (masked sha epoch seed x) = x"
proof -
  obtain m where m: "refresh_mask sha epoch seed (length x) = Some m" "length m = length x"
    using refresh_mask_returns [OF assms] by blast
  then have "masked sha epoch seed x = map2 (XOR) x m"
    by (simp add: masked_def)
  then show ?thesis
    using m map2_xor_involution [of x m] length_masked [OF assms, of epoch seed x] by (simp add: masked_def)
qed

text \<open>
  The mask loop always ends, a refresh of a non-empty share always succeeds and keeps its length,
  and refreshing again with the same seed in the same epoch gives the share back; the empty share is
  refused.
\<close>

theorem refresh_share_involution:
  assumes "\<forall>x. length (sha x) = 32"
  shows "refresh_share sha epoch [] seed = Some (Inl InvalidShareLength) \<and>
    (\<exists>y. refresh_share sha epoch (b # x) seed = Some (Inr y) \<and> length y = length (b # x) \<and>
         refresh_share sha epoch y seed = Some (Inr (b # x)))"
proof -
  have d: "digest32 sha"
    using assms by (simp add: digest32_def)
  have "masked sha epoch seed (b # x) \<noteq> []"
    using length_masked [OF d, of epoch seed "b # x"] by (metis length_0_conv list.discI)
  then show ?thesis
    using length_masked [OF d] masked_masked [OF d] by (simp add: refresh_share_masked [OF d])
qed

theorem refresh_share_involution_witness:
  "\<exists>y. refresh_share (\<lambda>x. replicate 32 (last x + 5)) 1 [9, 8] [3] = Some (Inr y) \<and> length y = 2"
  using refresh_share_involution [of "\<lambda>x. replicate 32 (last x + 5)" 1 "[3]" 9 "[8]"] by auto

section \<open>The mask as a stream\<close>

definition mask_block :: "(bytes \<Rightarrow> bytes) \<Rightarrow> u64 \<Rightarrow> bytes \<Rightarrow> nat \<Rightarrow> bytes" where
  "mask_block sha epoch seed i = sha (seed @ to_le_bytes epoch @ to_le_bytes (of_nat i))"

definition mask_stream :: "(bytes \<Rightarrow> bytes) \<Rightarrow> u64 \<Rightarrow> bytes \<Rightarrow> nat \<Rightarrow> bytes" where
  "mask_stream sha epoch seed n = concat (map (mask_block sha epoch seed) [0..<n])"

lemma length_mask_stream: "digest32 sha \<Longrightarrow> length (mask_stream sha epoch seed n) = 32 * n"
  by (induction n) (simp_all add: mask_stream_def mask_block_def digest32_def)

lemma saturating_Suc: "n < 2 ^ 64 - 1 \<Longrightarrow> saturating_add (of_nat n) 1 = of_nat (Suc n)"
  by (simp add: word_unat_eq_iff unat_saturating_add unat_of_nat del: of_nat_Suc)

lemma mask_loop_stream:
  assumes "digest32 sha" "len < 2 ^ 64" "32 * k < len + 32"
  shows "mask_loop sha seed epoch len (of_nat k) (mask_stream sha epoch seed k) =
    Some (take len (mask_stream sha epoch seed ((len + 31) div 32)))"
  using assms(3)
proof (induction "(len + 31) div 32 - k" arbitrary: k)
  case 0
  then have "k = (len + 31) div 32"
    by simp
  moreover have "len \<le> 32 * ((len + 31) div 32)"
    by presburger
  ultimately show ?case
    using length_mask_stream [OF assms(1), of epoch seed k] by (subst mask_loop.simps) simp
next
  case (Suc n)
  then have "32 * k < len"
    by simp
  moreover have "saturating_add (of_nat k) 1 = of_nat (Suc k)"
    using \<open>32 * k < len\<close> assms(2) by (intro saturating_Suc) simp
  moreover have "mask_stream sha epoch seed k @ sha (seed @ to_le_bytes epoch @ to_le_bytes (of_nat k)) =
      mask_stream sha epoch seed (Suc k)"
    by (simp add: mask_stream_def mask_block_def)
  ultimately show ?case
    using Suc.hyps(1) [of "Suc k"] Suc.hyps(2) length_mask_stream [OF assms(1), of epoch seed k]
    by (subst mask_loop.simps) (simp del: of_nat_Suc)
qed

text \<open>
  C40. The mask loop ends for every length a machine can hold, and a refresh is the exclusive or of the
  share with the first bytes of a counter-mode stream: the digests of seed, epoch and block number, as
  many blocks as the length needs, none twice.
\<close>

theorem refresh_is_counter_stream:
  assumes "\<forall>x. length (sha x) = 32" "length share_bytes < 2 ^ 64" "share_bytes \<noteq> []"
  shows "refresh_share sha epoch share_bytes seed =
    Some (Inr (map2 (XOR) share_bytes
      (take (length share_bytes) (concat (map (\<lambda>i. sha (seed @ to_le_bytes epoch @ to_le_bytes (of_nat i)))
         [0..<(length share_bytes + 31) div 32])))))"
proof -
  have d: "digest32 sha"
    using assms(1) by (simp add: digest32_def)
  have "refresh_mask sha epoch seed (length share_bytes) =
      Some (take (length share_bytes) (mask_stream sha epoch seed ((length share_bytes + 31) div 32)))"
    using mask_loop_stream [OF d assms(2), of 0 seed epoch] by (simp add: refresh_mask_def mask_stream_def)
  then show ?thesis
    using assms(3) by (simp add: refresh_share_def mask_stream_def mask_block_def [abs_def])
qed

theorem refresh_is_counter_stream_witness:
  "refresh_share (\<lambda>x. replicate 32 (last x + 5)) 1 [9, 8] [3] = Some (Inr [9 XOR 5, 8 XOR 5])"
proof -
  have l: "last (to_le_bytes (of_nat 0)) = 0"
    by (simp add: to_le_bytes_def last_map)
  have "refresh_share (\<lambda>x. replicate 32 (last x + 5)) 1 [9, 8] [3] = Some (Inr (map2 (XOR) [9, 8]
      (take (length [9, 8 :: u8]) (concat (map (\<lambda>i. replicate 32 (last ([3] @ to_le_bytes 1 @ to_le_bytes (of_nat i)) + 5))
         [0..<(length [9, 8 :: u8] + 31) div 32])))))"
    by (rule refresh_is_counter_stream) simp_all
  also have "\<dots> = Some (Inr [9 XOR 5, 8 XOR 5])"
  proof -
    have "to_le_bytes x \<noteq> []" for x
      by (metis length_to_le_bytes list.size(3) zero_neq_numeral)
    moreover have "take 2 (replicate 32 (5 :: u8)) = [5, 5]"
      by (simp add: take_Cons' eval_nat_numeral)
    ultimately show ?thesis
      using l by (simp add: last_append)
  qed
  finally show ?thesis .
qed

section \<open>Re-sharing\<close>

definition reshare_source :: "participant_share list \<Rightarrow> nat \<Rightarrow> bytes" where
  "reshare_source current idx = ps_share (current ! (idx mod length current))"

definition reshare_seed :: "bytes \<Rightarrow> string \<Rightarrow> nat \<Rightarrow> bytes" where
  "reshare_seed seed p idx = seed @ as_bytes p @ to_le_bytes (of_nat idx)"

definition reshared ::
  "(bytes \<Rightarrow> bytes) \<Rightarrow> u64 \<Rightarrow> participant_share list \<Rightarrow> bytes \<Rightarrow> nat \<Rightarrow> string list \<Rightarrow> participant_share list" where
  "reshared sha epoch current seed idx ps =
     map (\<lambda>(i, p). \<lparr>ps_participant_id = p, ps_share = masked sha epoch (reshare_seed seed p i) (reshare_source current i)\<rparr>)
       (enumerate idx ps)"

lemma reshare_loop_spec:
  assumes "digest32 sha"
  shows "reshare_loop sha epoch current seed idx ps =
    Some (if \<exists>i \<in> {idx..<idx + length ps}. reshare_source current i = [] then Inl InvalidShareLength
          else Inr (reshared sha epoch current seed idx ps))"
proof (induction ps arbitrary: idx)
  case Nil
  then show ?case by (simp add: reshared_def)
next
  case (Cons p ps)
  have "{idx..<idx + length (p # ps)} = insert idx {Suc idx..<Suc idx + length ps}"
    by auto
  then show ?case
    using Cons.IH [of "Suc idx"]
    by (simp add: refresh_share_masked [OF assms] reshared_def reshare_source_def reshare_seed_def)
qed

lemma map_ids_reshared [simp]: "map ps_participant_id (reshared sha epoch current seed idx ps) = ps"
  by (induction ps arbitrary: idx) (simp_all add: reshared_def)

text \<open>The specification of a re-sharing, in closed form: the saturating epoch, the stream that masks a
  share, the shares of the new roster in order, and the bytes the proof hashes.\<close>

definition next_epoch :: "u64 \<Rightarrow> u64" where
  "next_epoch epoch = (if epoch = - 1 then epoch else epoch + 1)"

definition keystream :: "(bytes \<Rightarrow> bytes) \<Rightarrow> u64 \<Rightarrow> bytes \<Rightarrow> nat \<Rightarrow> bytes" where
  "keystream sha epoch seed len =
     take len (concat (map (\<lambda>i. sha (seed @ to_le_bytes epoch @ to_le_bytes (of_nat i))) [0..<(len + 31) div 32]))"

definition new_share ::
  "(bytes \<Rightarrow> bytes) \<Rightarrow> u64 \<Rightarrow> participant_share list \<Rightarrow> bytes \<Rightarrow> string list \<Rightarrow> nat \<Rightarrow> bytes" where
  "new_share sha epoch current seed next i =
     (let source = ps_share (current ! (i mod length current))
      in map2 (XOR) source (keystream sha epoch (seed @ as_bytes (next ! i) @ to_le_bytes (of_nat i)) (length source)))"

definition transcript :: "(bytes \<Rightarrow> bytes) \<Rightarrow> u64 \<Rightarrow> u64 \<Rightarrow> nat \<Rightarrow> nat \<Rightarrow> (string \<times> bytes) list \<Rightarrow> bytes" where
  "transcript sha old new t1 t2 roster =
     to_le_bytes old @ to_le_bytes new @ to_le_bytes (of_nat t1 :: u64) @ to_le_bytes (of_nat t2 :: u64) @
     concat (map (\<lambda>(p, x). as_bytes p) roster) @ concat (map (\<lambda>(p, x). as_bytes p @ sha (0 # x)) roster)"

lemma advance_next_epoch: "advance_epoch epoch = next_epoch epoch"
proof -
  have m: "unat (- 1 :: u64) = 2 ^ 64 - 1"
    by (simp add: unsigned_minus_1_eq_mask mask_eq_exp_minus_1)
  have "unat epoch < 2 ^ 64 - 1" if "epoch \<noteq> - 1"
  proof -
    have "unat epoch \<noteq> 2 ^ 64 - 1"
      using that m by (metis word_unat_eq_iff)
    then show ?thesis
      using unsigned_less [of epoch, where ?'a = nat] by simp
  qed
  then show ?thesis
    using m by (auto simp: advance_epoch_def next_epoch_def word_unat_eq_iff unat_saturating_add unat_word_ariths)
qed

lemma masked_keystream:
  assumes "digest32 sha" "length x < 2 ^ 64"
  shows "masked sha epoch seed x = map2 (XOR) x (keystream sha epoch seed (length x))"
  using mask_loop_stream [OF assms, of 0 seed epoch]
  by (simp add: masked_def refresh_mask_def mask_stream_def keystream_def mask_block_def [abs_def])

lemma reshared_new_shares:
  assumes "digest32 sha" "current \<noteq> []" "\<forall>c\<in>set current. length (ps_share c) < 2 ^ 64"
  shows "reshared sha epoch current seed 0 next =
    map (\<lambda>i. \<lparr>ps_participant_id = next ! i, ps_share = new_share sha epoch current seed next i\<rparr>) [0..<length next]"
proof -
  have "length (reshare_source current i) < 2 ^ 64" for i
    using assms(2,3) by (simp add: reshare_source_def)
  then have "masked sha epoch (reshare_seed seed (next ! i) i) (reshare_source current i) = new_share sha epoch current seed next i" for i
    by (simp add: masked_keystream [OF assms(1)] new_share_def Let_def reshare_source_def reshare_seed_def)
  then show ?thesis
    by (intro nth_equalityI) (simp_all add: reshared_def nth_enumerate_eq)
qed

text \<open>
  C24. The complete outcome of a re-sharing.  It always returns.  With thresholds outside \<open>1..parties\<close> it
  is refused and the epoch stays.  Otherwise the refresher's epoch advances by one (and stays at its
  largest value), and if a share that is used is empty the answer is an error, the epoch having advanced
  all the same.  In every other case the answer is exactly this plan, which \<open>verify_reshare_plan\<close>
  accepts: both thresholds as given, the epoch before and the epoch after, the new roster in order, each
  member with the old share at its position modulo their number, masked with the stream of the new epoch for its name
  and position, and the digest of all that.
\<close>

theorem reshare_outcome:
  assumes "\<forall>x. length (sha x) = 32" "\<forall>c\<in>set current. length (ps_share c) < 2 ^ 64"
  shows "let new = next_epoch epoch;
             shares = map (new_share sha new current seed next) [0..<length next];
             r = reshare_for_participants sha current next t1 t2 seed epoch
         in if t1 < 1 \<or> length current < t1 \<or> t2 < 1 \<or> length next < t2 then r = Some (Inl InvalidThreshold, epoch)
            else if \<exists>i<length next. ps_share (current ! (i mod length current)) = []
            then r = Some (Inl InvalidShareLength, new)
            else (\<exists>plan. r = Some (Inr plan, new) \<and> verify_reshare_plan sha plan \<and>
                   rs_old_threshold plan = t1 \<and> rs_new_threshold plan = t2 \<and>
                   rs_old_epoch plan = epoch \<and> rs_new_epoch plan = new \<and>
                   map ps_participant_id (rs_refreshed plan) = next \<and> map ps_share (rs_refreshed plan) = shares \<and>
                   rp_transcript_hash (rs_proof plan) = sha (transcript sha epoch new t1 t2 (zip next shares)))"
proof -
  have d: "digest32 sha"
    using assms(1) by (simp add: digest32_def)
  define new where "new = next_epoch epoch"
  define shares where "shares = map (new_share sha new current seed next) [0..<length next]"
  define refreshed where "refreshed = reshared sha new current seed 0 next"
  have bad: "(\<exists>i\<in>{0..<length next}. reshare_source current i = []) \<longleftrightarrow>
      (\<exists>i<length next. ps_share (current ! (i mod length current)) = [])"
    by (auto simp: reshare_source_def)
  have ids: "map (\<lambda>(p, x). as_bytes p) (zip next shares) = map as_bytes next"
    by (rule nth_equalityI) (simp_all add: shares_def)
  have ref: "refreshed = map (\<lambda>(p, x). \<lparr>ps_participant_id = p, ps_share = x\<rparr>) (zip next shares)" if "current \<noteq> []"
    unfolding refreshed_def reshared_new_shares [OF d that assms(2)] shares_def
    by (intro nth_equalityI) simp_all
  then have "map ps_participant_id refreshed = next" "map ps_share refreshed = shares" if "current \<noteq> []"
    using that by (auto simp: shares_def comp_def case_prod_beta)
  moreover have "rp_transcript_hash (build_refresh_proof sha epoch new t1 t2 next refreshed) =
      sha (transcript sha epoch new t1 t2 (zip next shares))" if "current \<noteq> []"
    unfolding transcript_def ids ref [OF that]
    by (simp add: build_refresh_proof_def commitment_hash_def comp_def case_prod_unfold)
  ultimately show ?thesis
    unfolding Let_def new_def [symmetric] shares_def [symmetric]
    by (auto simp: reshare_for_participants_def validate_thresholds_def Let_def reshare_loop_spec [OF d] bad
        advance_next_epoch new_def [symmetric] refreshed_def [symmetric] verify_reshare_plan_def)
qed

theorem reshare_outcome_witness:
  "\<exists>plan. reshare_for_participants (\<lambda>x. replicate 32 1) [\<lparr>ps_participant_id = ''a'', ps_share = [4]\<rparr>]
     [''b'', ''c''] 1 2 [] 7 = Some (Inr plan, 8) \<and> rs_old_epoch plan = 7 \<and> rs_new_epoch plan = 8 \<and>
     map ps_participant_id (rs_refreshed plan) = [''b'', ''c'']"
  using reshare_outcome [of "\<lambda>x. replicate 32 1" "[\<lparr>ps_participant_id = ''a'', ps_share = [4]\<rparr>]" 7 "[]"
      "[''b'', ''c'']" 1 2]
  by (auto simp: Let_def next_epoch_def)

end
