(* ===== verification/Reshare.thy ===== *)
theory Reshare
  imports Shamir Adv_Sharing
begin

text \<open>
  The shares of \<open>src/shamir.rs\<close> under the re-sharing of \<open>src/advanced_secret_sharing.rs\<close>: what
  \<open>reconstruct\<close> computes from any data under the indices \<open>split\<close> gave, and what a re-sharing
  therefore does to the secret.
\<close>

section \<open>Reconstruction is linear in the data\<close>

text \<open>The Lagrange weight of the holder at position \<open>j\<close>, whose index is \<open>j + 1\<close>, among the holders at
  the positions \<open>J\<close>.\<close>

definition weight :: "nat set \<Rightarrow> nat \<Rightarrow> gf251" where
  "weight J j = (\<Prod>k \<in> J - {j}. (0 - of_nat (k + 1)) / (of_nat (j + 1) - of_nat (k + 1)))"

definition with_data :: "share list \<Rightarrow> (nat \<Rightarrow> bytes) \<Rightarrow> nat \<Rightarrow> share" where
  "with_data shares new j = (shares ! j)\<lparr>sh_data := new j\<rparr>"

lemma length_split: "split secret t n rand = Ok shares \<Longrightarrow> length shares = n"
  by (simp add: split_Ok_iff del: upt_Suc of_nat_Suc)

lemma split_index:
  assumes "split secret t n rand = Ok shares" "j < n"
  shows "unat (sh_index (shares ! j)) = j + 1" "j < 250"
proof -
  show j: "j < 250"
    using assms by (simp add: split_Ok_iff)
  show "unat (sh_index (shares ! j)) = j + 1"
    using assms unat_index [OF j] by (simp add: split_Ok_iff del: upt_Suc of_nat_Suc)
qed

lemma distinct_shares:
  assumes "split secret t n rand = Ok shares"
  shows "distinct shares"
  unfolding distinct_conv_nth
proof clarify
  fix i j
  assume "i < length shares" "j < length shares" "i \<noteq> j" "shares ! i = shares ! j"
  then show False
    using split_index(1) [OF assms, of i] split_index(1) [OF assms, of j] length_split [OF assms] by simp
qed

lemma node_with_data:
  assumes "split secret t n rand = Ok shares" "j < n"
  shows "node (with_data shares new j) = of_nat (j + 1)"
  using split_index(1) [OF assms] unfolding g8_unat by (simp add: with_data_def)

lemma nodes_differ: "j < 250 \<Longrightarrow> k < 250 \<Longrightarrow> j \<noteq> k \<Longrightarrow> (of_nat (j + 1) - of_nat (k + 1) :: gf251) \<noteq> 0"
  using of_nat_gf_inj [of "j + 1" "k + 1"] by (simp del: of_nat_Suc of_nat_add)

lemma interp_any_data:
  assumes sp: "split secret t n rand = Ok shares"
    and J: "distinct J" "set J \<subseteq> {..<n}" and b: "\<And>j. j \<in> set J \<Longrightarrow> b < length (new j)"
  defines "ss \<equiv> map (with_data shares new) J"
  shows "\<exists>r. interp_loop (enumerate 0 ss) b (enumerate 0 ss) 0 = Ok r \<and> unat r < 251 \<and>
    g16 r = (\<Sum>j \<in> set J. weight (set J) j * g8 (new j ! b))"
proof -
  let ?E = "enumerate 0 ss"
  have J_n: "J ! i < n" if "i < length J" for i
    using J(2) nth_mem [OF that] by auto
  have nd: "node (ss ! i) = of_nat (J ! i + 1)" if "i < length J" for i
    using node_with_data [OF sp J_n [OF that]] that by (simp add: ss_def)
  have diff: "node (ss ! i) - node (ss ! k) \<noteq> 0" if "i < length J" "k < length J" "i \<noteq> k" for i k
    unfolding nd [OF that(1)] nd [OF that(2)]
    by (intro nodes_differ split_index(2) [OF sp] J_n that(1,2)) (simp add: nth_eq_iff_index_eq [OF J(1) that(1,2)] that(3))
  have small: "small_indices ?E"
    using split_index [OF sp] J(2)
    by (fastforce simp: small_indices_def list_all_iff ss_def with_data_def in_set_enumerate_eq dest: J_n)
  have good: "b < length (sh_data s) \<and> (\<Prod>(j, s')\<leftarrow>?E. if i = j then 1 else node s - node s') \<noteq> 0"
    if "(i, s) \<in> set ?E" for i s
  proof -
    have i: "i < length J" "s = ss ! i"
      using that by (simp_all add: in_set_enumerate_eq ss_def)
    then have "b < length (sh_data s)"
      using b by (simp add: ss_def with_data_def)
    moreover have "(\<Prod>k<length ss. if i = k then 1 else node s - node (ss ! k)) \<noteq> 0"
      using diff [OF i(1)] by (auto simp: i(2) ss_def)
    ultimately show ?thesis
      by (simp add: prod_list_enumerate)
  qed
  obtain r where r: "interp_loop ?E b ?E 0 = Ok r" "unat r < 251"
    "g16 r = (\<Sum>(i, s)\<leftarrow>?E. basis_at ?E i s * g8 (sh_data s ! b))"
    using interp_loop_correct [OF small _ good, of 0 ?E] by auto
  have bij: "bij_betw ((!) J) {..<length J} (set J)"
    by (rule bij_betw_nth [OF J(1)]) simp_all
  have w: "basis_at ?E i (ss ! i) = weight (set J) (J ! i)" if i: "i < length J" for i
  proof -
    have "bij_betw ((!) J) ({..<length J} - {i}) (set J - {J ! i})"
      using bij_betw_DiffI [OF bij, of "{i}" "{J ! i}"] i by (simp add: bij_betw_def)
    then have "weight (set J) (J ! i) = (\<Prod>k \<in> {..<length J} - {i}. (0 - of_nat (J ! k + 1)) / (of_nat (J ! i + 1) - of_nat (J ! k + 1)))"
      unfolding weight_def by (rule prod.reindex_bij_betw [symmetric])
    also have "\<dots> = (\<Prod>k \<in> {..<length J} - {i}. (0 - node (ss ! k)) / (node (ss ! i) - node (ss ! k)))"
      by (intro prod.cong refl) (simp add: nd i del: of_nat_add)
    finally show ?thesis
      using basis_at_enumerate [of i ss] i by (simp add: ss_def)
  qed
  have "g16 r = (\<Sum>i<length J. weight (set J) (J ! i) * g8 (new (J ! i) ! b))"
    unfolding r(3) sum_list_enumerate
    by (intro sum.cong) (simp_all add: w, simp_all add: ss_def with_data_def)
  also have "\<dots> = (\<Sum>j \<in> set J. weight (set J) j * g8 (new j ! b))"
    by (rule sum.reindex_bij_betw [OF bij, of "\<lambda>j. weight (set J) j * g8 (new j ! b)"])
  finally show ?thesis
    using r(1,2) by blast
qed

lemma reconstruct_any_data:
  assumes sp: "split secret t n rand = Ok shares"
    and J: "distinct J" "set J \<subseteq> {..<n}" "J \<noteq> []" and len: "\<And>j. j \<in> set J \<Longrightarrow> length (new j) = l"
  shows "\<exists>got. reconstruct (map (with_data shares new) J) = Ok got \<and> length got = l \<and>
    (\<forall>b<l. unat (got ! b) < 251 \<and> g8 (got ! b) = (\<Sum>j \<in> set J. weight (set J) j * g8 (new j ! b)))"
proof -
  let ?ss = "map (with_data shares new) J"
  let ?P = "\<lambda>b r. interp_loop (enumerate 0 ?ss) b (enumerate 0 ?ss) 0 = Ok r \<and> unat r < 251 \<and>
      g16 r = (\<Sum>j \<in> set J. weight (set J) j * g8 (new j ! b))"
  have "\<exists>r. ?P b r" if "b < l" for b
    using that len by (intro interp_any_data [OF sp J(1,2)]) simp
  then have "\<forall>b. \<exists>r. b < l \<longrightarrow> ?P b r"
    by blast
  from choice [OF this] obtain r where "\<forall>b. b < l \<longrightarrow> ?P b (r b)"
    by (rule exE)
  then have r: "?P b (r b)" if "b < l" for b
    using that by (elim allE [of _ b] impE)
  have "length (sh_data (?ss ! 0)) = l"
    using J(3) len by (simp add: with_data_def)
  moreover have "reconstruct_bytes ?ss [0..<l] = Ok (map (\<lambda>b. ucast (r b)) [0..<l])"
    using r by (intro reconstruct_bytesI) auto
  moreover have "unat (ucast (r b) :: u8) < 251" "g8 (ucast (r b)) = (\<Sum>j \<in> set J. weight (set J) j * g8 (new j ! b))"
    if "b < l" for b
    using r [OF that] by (simp_all add: unat_ucast_16_8 g8_ucast)
  ultimately show ?thesis
    using J(3) by (intro exI [of _ "map (\<lambda>b. ucast (r b)) [0..<l]"]) (simp add: reconstruct_def)
qed

section \<open>The secret after a re-sharing\<close>

lemma plan_shares:
  assumes "digest32 sha" "\<forall>c \<in> set current. length (ps_share c) < 2 ^ 64"
    and "reshare_for_participants sha current next t1 t2 seed epoch = Some (Inr plan, e)"
  shows "verify_reshare_plan sha plan \<and> rs_refreshed plan =
    map (\<lambda>i. \<lparr>ps_participant_id = next ! i,
      ps_share = new_share sha (next_epoch epoch) current seed next i\<rparr>) [0..<length next]"
proof -
  have "current \<noteq> []" "verify_reshare_plan sha plan"
    "rs_refreshed plan = reshared sha (next_epoch epoch) current seed 0 next"
    using assms(3) by (auto simp: reshare_for_participants_def Let_def reshare_loop_spec [OF assms(1)]
        advance_next_epoch split: sum.splits if_splits)
  then show ?thesis
    by (simp add: reshared_new_shares [OF assms(1) _ assms(2)])
qed

text \<open>The share data of the holder at position \<open>j\<close>, before and after.\<close>

definition old_byte :: "share list \<Rightarrow> nat \<Rightarrow> nat \<Rightarrow> u8" where
  "old_byte shares b j = sh_data (shares ! j) ! b"

definition new_byte ::
  "(bytes \<Rightarrow> bytes) \<Rightarrow> u64 \<Rightarrow> bytes \<Rightarrow> string list \<Rightarrow> share list \<Rightarrow> nat \<Rightarrow> nat \<Rightarrow> u8" where
  "new_byte sha epoch seed next shares b j =
     old_byte shares b j XOR
     keystream sha epoch (seed @ as_bytes (next ! j) @ to_le_bytes (of_nat j)) (length (sh_data (shares ! j))) ! b"

lemma new_share_byte:
  assumes "digest32 sha" "length (sh_data (shares ! j)) < 2 ^ 64" "j < length shares" "length names = length shares"
    and "b < length (sh_data (shares ! j))"
  shows "length (new_share sha epoch (map2 participant_share_new names (map sh_data shares)) seed next j) =
      length (sh_data (shares ! j))"
    and "new_share sha epoch (map2 participant_share_new names (map sh_data shares)) seed next j ! b =
      new_byte sha epoch seed next shares b j"
proof -
  let ?x = "sh_data (shares ! j)" and ?s = "seed @ as_bytes (next ! j) @ to_le_bytes (of_nat j)"
  have "length (map2 (XOR) ?x (keystream sha epoch ?s (length ?x))) = length ?x"
    using length_masked [OF assms(1), of epoch ?s ?x] by (simp add: masked_keystream [OF assms(1,2)])
  then show "length (new_share sha epoch (map2 participant_share_new names (map sh_data shares)) seed next j) = length ?x"
    "new_share sha epoch (map2 participant_share_new names (map sh_data shares)) seed next j ! b =
      new_byte sha epoch seed next shares b j"
    using assms(3-5) by (simp_all add: new_share_def participant_share_new_def Let_def new_byte_def old_byte_def)
qed

text \<open>
  C21. What a verified re-sharing does to the secret.  Shares made by \<open>split\<close> are re-shared with any
  thresholds, seed and epoch; \<open>verify_reshare_plan\<close> accepts every plan returned.  Any threshold-many
  holders that keep their indices and put the refreshed share in place of the old reconstruct without
  an error, and what they get differs from the secret, in each byte, by the Lagrange-weighted sum of
  the changes of their share bytes, each change an exclusive or with a keystream byte.  So the secret
  is kept exactly when these sums all vanish in GF(251): nothing in the code makes them, since
  the masks are independent digests and not a sharing of zero.
\<close>

theorem reshare_secret_kept_iff:
  assumes "\<forall>x. length (sha x) = 32" "split secret threshold n rand = Ok shares"
    and "secret \<noteq> []" "length secret < 2 ^ 64" "length names = n"
    and "reshare_for_participants sha (map2 participant_share_new names (map sh_data shares)) next t1 t2 seed epoch
      = Some (Inr plan, e)"
    and "distinct J" "set J \<subseteq> {..<n}" "set J \<subseteq> {..<length next}" "threshold \<le> length J"
  defines "change b \<equiv> \<Sum>j \<in> set J. weight (set J) j *
      (g8 (new_byte sha (next_epoch epoch) seed next shares b j) - g8 (old_byte shares b j))"
  shows "verify_reshare_plan sha plan \<and>
    (\<exists>got. reconstruct (map (\<lambda>j. (shares ! j)\<lparr>sh_data := ps_share (rs_refreshed plan ! j)\<rparr>) J) = Ok got \<and>
       length got = length secret \<and>
       (\<forall>b < length secret. g8 (got ! b) = g8 (secret ! b) + change b) \<and>
       (got = secret \<longleftrightarrow> (\<forall>b < length secret. change b = 0)))"
proof -
  let ?current = "map2 participant_share_new names (map sh_data shares)"
  let ?new = "\<lambda>j. ps_share (rs_refreshed plan ! j)"
  have d: "digest32 sha" using assms(1) by (simp add: digest32_def)
  note n = length_split [OF assms(2)]
  have len: "length (sh_data (shares ! j)) = length secret" if "j < n" for j
    using share_shape(1) [OF assms(2)] that n by simp
  then have "\<forall>c \<in> set ?current. length (ps_share c) < 2 ^ 64"
    using assms(4,5) n by (auto simp: set_zip participant_share_new_def)
  note plan = plan_shares [OF d this assms(6)]
  have "?new j = new_share sha (next_epoch epoch) ?current seed next j" if "j \<in> set J" for j
    using plan assms(9) that by auto
  moreover have "j < length shares" "length (sh_data (shares ! j)) = length secret" if "j \<in> set J" for j
    using assms(8) n len that by auto
  ultimately have new: "length (?new j) = length secret"
      "b < length secret \<Longrightarrow> ?new j ! b = new_byte sha (next_epoch epoch) seed next shares b j" if "j \<in> set J" for b j
    using that new_share_byte [OF d, of shares j names 0] new_share_byte(2) [OF d, of shares j names b] assms(3-5) n
    by simp_all
  have J: "J \<noteq> []" using assms(2,10) by (auto simp: split_Ok_iff)
  have "map (with_data shares (\<lambda>j. sh_data (shares ! j))) J = map ((!) shares) J"
    by (simp add: with_data_def)
  moreover have "reconstruct (map ((!) shares) J) = Ok secret"
    using assms(7,8,10) n inj_on_nth [OF distinct_shares [OF assms(2)], of "set J"]
    by (intro reconstruct_split_core [OF assms(2)]) (auto simp: distinct_map)
  ultimately have same: "reconstruct (map (with_data shares (\<lambda>j. sh_data (shares ! j))) J) = Ok secret"
    by metis
  have "length (sh_data (shares ! j)) = length secret" if "j \<in> set J" for j
    using len assms(8) that by auto
  from reconstruct_any_data [where new = "\<lambda>j. sh_data (shares ! j)", OF assms(2,7,8) J this]
  have old: "g8 (secret ! b) = (\<Sum>j \<in> set J. weight (set J) j * g8 (old_byte shares b j))"
    if "b < length secret" for b
    unfolding same using that by (auto simp: old_byte_def)
  obtain got where got: "reconstruct (map (with_data shares ?new) J) = Ok got" "length got = length secret"
    "\<And>b. b < length secret \<Longrightarrow> unat (got ! b) < 251"
    "\<And>b. b < length secret \<Longrightarrow> g8 (got ! b) = (\<Sum>j \<in> set J. weight (set J) j * g8 (?new j ! b))"
    using reconstruct_any_data [where new = ?new, OF assms(2,7,8) J new(1)] by auto
  have step: "g8 (got ! b) = g8 (secret ! b) + change b" if "b < length secret" for b
    using that by (simp add: got(4) new(2) old change_def right_diff_distrib sum_subtractf)
  have "list_all (\<lambda>b. unat b < 251) secret"
    using assms(2) by (simp add: split_Ok_iff)
  then have "got ! b = secret ! b \<longleftrightarrow> change b = 0" if "b < length secret" for b
    using g8_inj [OF got(3) [OF that], of "secret ! b"] step [OF that] that by (auto simp: list_all_length)
  then have "got = secret \<longleftrightarrow> (\<forall>b < length secret. change b = 0)"
    using got(2) by (auto simp: list_eq_iff_nth_eq)
  then show ?thesis
    using plan got(1,2) step by (auto simp: with_data_def [abs_def])
qed

text \<open>A two-of-three sharing of \<open>hi\<close>, re-shared with a constant digest: the first two holders get the
  first byte wrong.\<close>

definition demo_digest :: "bytes \<Rightarrow> bytes" where
  "demo_digest x = replicate 32 1"

definition demo_shares :: "share list" where
  "demo_shares = [\<lparr>sh_index = 1, sh_data = [114, 115]\<rparr>, \<lparr>sh_index = 2, sh_data = [124, 125]\<rparr>,
     \<lparr>sh_index = 3, sh_data = [134, 135]\<rparr>]"

lemma demo_keystream: "keystream demo_digest epoch seed (Suc (Suc 0)) = [1, 1]"
  by (simp add: keystream_def demo_digest_def)

lemma demo_plan:
  "\<exists>plan. reshare_for_participants demo_digest (map2 participant_share_new [''a'', ''b'', ''c''] (map sh_data demo_shares))
     [''a'', ''b'', ''c''] 2 2 [] 1 = Some (Inr plan, advance_epoch 1)"
proof -
  have d: "digest32 demo_digest"
    by (simp add: digest32_def demo_digest_def)
  let ?current = "map2 participant_share_new [''a'', ''b'', ''c''] (map sh_data demo_shares)"
  have "\<forall>c \<in> set ?current. ps_share c \<noteq> []"
    by (simp add: demo_shares_def participant_share_new_def)
  moreover have "?current ! (i mod length ?current) \<in> set ?current" for i
    by (rule nth_mem, rule mod_less_divisor) (simp add: demo_shares_def)
  ultimately have "reshare_source ?current i \<noteq> []" for i
    unfolding reshare_source_def by blast
  then have "reshare_loop demo_digest (advance_epoch 1) ?current [] 0 [''a'', ''b'', ''c''] =
      Some (Inr (reshared demo_digest (advance_epoch 1) ?current [] 0 [''a'', ''b'', ''c'']))"
    unfolding reshare_loop_spec [OF d] by (simp del: list.map zip_Cons_Cons)
  moreover have "?current \<noteq> []" "length ?current = 3"
    by (simp_all add: demo_shares_def)
  ultimately show ?thesis
    by (simp del: reshare_loop.simps list.map zip_Cons_Cons
        add: reshare_for_participants_def validate_thresholds_def Let_def verify_reshare_plan_def)
qed

theorem reshare_secret_kept_iff_witness:
  "\<exists>plan e got. reshare_for_participants demo_digest
       (map2 participant_share_new [''a'', ''b'', ''c''] (map sh_data demo_shares)) [''a'', ''b'', ''c''] 2 2 [] 1
       = Some (Inr plan, e) \<and> verify_reshare_plan demo_digest plan \<and>
     reconstruct (map (\<lambda>j. (demo_shares ! j)\<lparr>sh_data := ps_share (rs_refreshed plan ! j)\<rparr>) [1, 0]) = Ok got \<and>
     got \<noteq> [104, 105]"
proof -
  obtain plan where plan: "reshare_for_participants demo_digest
      (map2 participant_share_new [''a'', ''b'', ''c''] (map sh_data demo_shares)) [''a'', ''b'', ''c''] 2 2 [] 1
      = Some (Inr plan, advance_epoch 1)"
    using demo_plan by blast
  let ?w = "\<lambda>b j. weight (set [1, 0]) j *
      (g8 (new_byte demo_digest (next_epoch 1) [] [''a'', ''b'', ''c''] demo_shares b j) - g8 (old_byte demo_shares b j))"
  have "verify_reshare_plan demo_digest plan \<and>
    (\<exists>got. reconstruct (map (\<lambda>j. (demo_shares ! j)\<lparr>sh_data := ps_share (rs_refreshed plan ! j)\<rparr>) [1, 0]) = Ok got \<and>
       length got = length [104, 105 :: u8] \<and>
       (\<forall>b < length [104, 105 :: u8]. g8 (got ! b) = g8 ([104, 105] ! b) + (\<Sum>j \<in> set [1, 0]. ?w b j)) \<and>
       (got = [104, 105] \<longleftrightarrow> (\<forall>b < length [104, 105 :: u8]. (\<Sum>j \<in> set [1, 0]. ?w b j) = 0)))"
    by (rule reshare_secret_kept_iff [OF _ split_example [folded demo_shares_def] _ _ _ plan])
      (simp_all add: demo_digest_def)
  moreover have "(\<Sum>j \<in> set [1, 0]. ?w 0 j) = 1"
    by (simp add: weight_def new_byte_def old_byte_def demo_shares_def demo_keystream insert_Diff_if)
  ultimately show ?thesis
    using plan by force
qed

end
