(* ===== verification/Utf8.thy ===== *)
theory Utf8
  imports Prelude
begin

text \<open>
  The two conversions of bytes to a string the source calls, \<open>String::from_utf8\<close> and
  \<open>String::from_utf8_lossy\<close> of the standard library, as the scan both perform: at each position
  either a well-formed sequence of 1 to 4 bytes, or a maximal ill-formed prefix, which the lossy
  conversion replaces by the three bytes of U+FFFD.
\<close>

definition is_cont :: "u8 \<Rightarrow> bool" where
  "is_cont b = (0x80 \<le> b \<and> b \<le> 0xBF)"

text \<open>The second byte allowed after a lead byte of three or four.\<close>

definition second_ok :: "u8 \<Rightarrow> u8 \<Rightarrow> bool" where
  "second_ok b c =
     (if b = 0xE0 then 0xA0 \<le> c \<and> c \<le> 0xBF
      else if b = 0xED then 0x80 \<le> c \<and> c \<le> 0x9F
      else if b = 0xF0 then 0x90 \<le> c \<and> c \<le> 0xBF
      else if b = 0xF4 then 0x80 \<le> c \<and> c \<le> 0x8F
      else is_cont c)"

definition char_width :: "u8 \<Rightarrow> nat" where
  "char_width b =
     (if b < 0x80 then 1 else if 0xC2 \<le> b \<and> b \<le> 0xDF then 2
      else if 0xE0 \<le> b \<and> b \<le> 0xEF then 3 else if 0xF0 \<le> b \<and> b \<le> 0xF4 then 4 else 0)"

text \<open>Whether the input starts with a well-formed sequence, and how many bytes to take.\<close>

fun utf8_step :: "bytes \<Rightarrow> bool \<times> nat" where
  "utf8_step [] = (True, 0)"
| "utf8_step (b # bs) =
     (let at = (\<lambda>i. i < length bs \<and> is_cont (bs ! i)); snd_ok = (bs \<noteq> [] \<and> second_ok b (hd bs))
      in if char_width b = 1 then (True, 1)
         else if char_width b = 2 then (if at 0 then (True, 2) else (False, 1))
         else if char_width b = 3
         then (if \<not> snd_ok then (False, 1) else if \<not> at 1 then (False, 2) else (True, 3))
         else if char_width b = 4
         then (if \<not> snd_ok then (False, 1) else if \<not> at 1 then (False, 2)
               else if \<not> at 2 then (False, 3) else (True, 4))
         else (False, 1))"

lemma utf8_step_pos: "bs \<noteq> [] \<Longrightarrow> 0 < snd (utf8_step bs)"
  by (cases bs) (auto simp: Let_def)

lemma utf8_step_drop:
  assumes "bs \<noteq> []" "(ok, n) = utf8_step bs"
  shows "length bs - n < length bs"
  using utf8_step_pos [OF assms(1)] assms by (metis diff_less length_greater_0_conv snd_conv)

function utf8_valid :: "bytes \<Rightarrow> bool" where
  "utf8_valid bs =
     (if bs = [] then True else case utf8_step bs of (ok, n) \<Rightarrow> ok \<and> utf8_valid (drop n bs))"
  by pat_completeness auto
termination
  by (relation "measure length") (auto dest: utf8_step_drop)

declare utf8_valid.simps [simp del]

definition replacement :: bytes where
  "replacement = [0xEF, 0xBF, 0xBD]"

function utf8_lossy :: "bytes \<Rightarrow> bytes" where
  "utf8_lossy bs =
     (if bs = [] then []
      else case utf8_step bs of
        (ok, n) \<Rightarrow> (if ok then take n bs else replacement) @ utf8_lossy (drop n bs))"
  by pat_completeness auto
termination
  by (relation "measure length") (auto dest: utf8_step_drop)

declare utf8_lossy.simps [simp del]

text \<open>\<open>Utf8Error\<close>: the length of the well-formed prefix, and the length of the ill-formed part unless
  the input ends inside it; and its text.\<close>

definition utf8_incomplete :: "bytes \<Rightarrow> bool" where
  "utf8_incomplete bs =
     (let b = hd bs; cs = tl bs
      in if char_width b \<le> 1 then False
         else cs = [] \<or>
           (3 \<le> char_width b \<and> second_ok b (hd cs) \<and>
             (length cs = 1 \<or> (char_width b = 4 \<and> is_cont (cs ! 1) \<and> length cs = 2))))"

function utf8_error :: "bytes \<Rightarrow> nat \<Rightarrow> (nat \<times> nat option) option" where
  "utf8_error bs i =
     (if bs = [] then None
      else case utf8_step bs of
        (ok, n) \<Rightarrow> if ok then utf8_error (drop n bs) (i + n)
                   else Some (i, if utf8_incomplete bs then None else Some n))"
  by pat_completeness auto
termination
  by (relation "measure (length \<circ> fst)") (auto dest: utf8_step_drop)

declare utf8_error.simps [simp del]

definition utf8_error_text :: "bytes \<Rightarrow> string" where
  "utf8_error_text bs =
     (case utf8_error bs 0 of
        None \<Rightarrow> []
      | Some (i, None) \<Rightarrow> ''incomplete utf-8 byte sequence from index '' @ dec i
      | Some (i, Some n) \<Rightarrow> ''invalid utf-8 sequence of '' @ dec n @ '' bytes from index '' @ dec i)"

text \<open>The strings of the model are lists of UTF-8 bytes.\<close>

definition bytes_to_string :: "bytes \<Rightarrow> string" where
  "bytes_to_string bs = map (\<lambda>b. char_of (unat b)) bs"

definition from_utf8 :: "bytes \<Rightarrow> string option" where
  "from_utf8 bs = (if utf8_valid bs then Some (bytes_to_string bs) else None)"

definition from_utf8_lossy :: "bytes \<Rightarrow> string" where
  "from_utf8_lossy bs = bytes_to_string (utf8_lossy bs)"

lemma as_bytes_bytes_to_string [simp]: "as_bytes (bytes_to_string bs) = bs"
proof -
  have "(of_nat (of_char (char_of (unat b) :: char)) :: u8) = b" for b :: u8
    using unsigned_less [of b, where ?'a = nat] by simp
  then show ?thesis
    by (simp add: as_bytes_def bytes_to_string_def comp_def map_idI)
qed

lemma bytes_to_string_as_bytes [simp]: "bytes_to_string (as_bytes s) = s"
  using as_bytes_bytes_to_string [of "as_bytes s"] by (simp del: as_bytes_bytes_to_string)

lemma bytes_to_string_inj [simp]: "bytes_to_string a = bytes_to_string b \<longleftrightarrow> a = b"
  by (metis as_bytes_bytes_to_string)

lemma utf8_lossy_valid: "utf8_valid bs \<Longrightarrow> utf8_lossy bs = bs"
proof (induction bs rule: utf8_lossy.induct)
  case (1 bs)
  show ?case
  proof (cases "bs = []")
    case False
    obtain ok n where st: "utf8_step bs = (ok, n)" by (cases "utf8_step bs")
    then have "ok" "utf8_valid (drop n bs)"
      using "1.prems" False utf8_valid.simps [of bs] by auto
    then show ?thesis
      using "1.IH" [OF False st [symmetric]] utf8_lossy.simps [of bs] False st by simp
  qed (simp add: utf8_lossy.simps)
qed

lemma from_utf8_lossy_valid: "utf8_valid (as_bytes s) \<Longrightarrow> from_utf8_lossy (as_bytes s) = s"
  by (simp add: from_utf8_lossy_def utf8_lossy_valid)

lemma utf8_valid_ascii: "list_all (\<lambda>b. b < 0x80) bs \<Longrightarrow> utf8_valid bs"
proof (induction bs)
  case Nil
  then show ?case by (subst utf8_valid.simps) simp
next
  case (Cons b bs)
  then show ?case
    by (subst utf8_valid.simps) (simp add: char_width_def)
qed

text \<open>Two different ill-formed bytes become the same string.\<close>

lemma lossy_collision: "from_utf8_lossy [0xFF] = from_utf8_lossy [0xFE]"
  by (simp add: from_utf8_lossy_def utf8_lossy.simps char_width_def)

text \<open>No byte of a well-formed string is above F4.\<close>

lemma utf8_step_bytes:
  assumes "utf8_step bs = (True, n)" "bs \<noteq> []"
  shows "list_all (\<lambda>b. b \<le> 0xF4) (take n bs)"
proof -
  obtain b cs where bs: "bs = b # cs"
    using assms(2) by (cases bs) auto
  have c: "c \<le> 0xF4" if "is_cont c" for c
    using that by (auto simp: is_cont_def word_le_nat_alt)
  have s: "c \<le> 0xF4" if "second_ok b c" for c
    using that c by (auto simp: second_ok_def word_le_nat_alt split: if_splits)
  have w: "b \<le> 0xF4" if "char_width b \<noteq> 0"
    using that by (auto simp: char_width_def word_le_nat_alt word_less_nat_alt split: if_splits)
  have cw: "char_width b \<in> {1, 2, 3, 4}" "n = char_width b"
    using assms(1) bs by (auto simp: Let_def split: if_splits)
  then consider "n = 1" | (two) "n = 2" | (three) "n = 3" | (four) "n = 4"
    by auto
  then show ?thesis
  proof cases
    case 1
    then show ?thesis using bs cw w by simp
  next
    case two
    then show ?thesis using assms(1) bs cw w c by (cases cs) (auto simp: Let_def split: if_splits)
  next
    case three
    then show ?thesis using assms(1) bs cw w c s
      by (cases cs; cases "tl cs") (auto simp: Let_def numeral_3_eq_3 split: if_splits)
  next
    case four
    then show ?thesis using assms(1) bs cw w c s
      by (cases cs; cases "tl cs"; cases "tl (tl cs)")
        (auto simp: Let_def numeral_eq_Suc split: if_splits)
  qed
qed

lemma utf8_valid_bytes: "utf8_valid bs \<Longrightarrow> list_all (\<lambda>b. b \<le> 0xF4) bs"
proof (induction bs rule: utf8_valid.induct)
  case (1 bs)
  show ?case
  proof (cases "bs = []")
    case False
    obtain ok n where st: "utf8_step bs = (ok, n)" by (cases "utf8_step bs")
    then have "ok" "utf8_valid (drop n bs)"
      using "1.prems" False utf8_valid.simps [of bs] by auto
    then have "list_all (\<lambda>b. b \<le> 0xF4) (take n bs)" "list_all (\<lambda>b. b \<le> 0xF4) (drop n bs)"
      using "1.IH" [OF False st [symmetric]] utf8_step_bytes [of bs n] st False by simp_all
    then show ?thesis
      by (metis append_take_drop_id list_all_append)
  qed simp
qed

end
