(* ===== verification/Kdf.thy ===== *)
theory Kdf
  imports Utf8
begin

text \<open>
  \<open>src/kdf.rs\<close>: key derivation.  Argon2id is the parameter \<open>argon2\<close>: memory, time, lanes, output
  length, password and salt to the key, \<open>None\<close> when the crate reports an error (a salt shorter
  than 8 bytes, for instance); the source turns the error into a panic.
\<close>

type_synonym argon2id = "u32 \<Rightarrow> u32 \<Rightarrow> u32 \<Rightarrow> nat \<Rightarrow> bytes \<Rightarrow> bytes \<Rightarrow> bytes option"

definition ARGON2_TIME_COST :: u32 where "ARGON2_TIME_COST = 3"
definition ARGON2_MEMORY_KIB :: u32 where "ARGON2_MEMORY_KIB = 65536"
definition ARGON2_PARALLELISM :: u32 where "ARGON2_PARALLELISM = 4"
definition ARGON2_KEY_LENGTH :: nat where "ARGON2_KEY_LENGTH = 32"
definition SALT_LENGTH :: nat where "SALT_LENGTH = 16"

definition derive_key ::
  "argon2id \<Rightarrow> (nat \<Rightarrow> bytes) \<Rightarrow> string \<Rightarrow> bytes option \<Rightarrow> ('e, bytes \<times> bytes) outcome" where
  "derive_key argon2 getrandom passphrase salt =
     (let salt_bytes = (case salt of Some s \<Rightarrow> s | None \<Rightarrow> getrandom SALT_LENGTH)
      in case argon2 ARGON2_MEMORY_KIB ARGON2_TIME_COST ARGON2_PARALLELISM ARGON2_KEY_LENGTH
                (as_bytes passphrase) salt_bytes of
           Some key \<Rightarrow> Ok (key, salt_bytes)
         | None \<Rightarrow> Panic ''Argon2id derivation failed'')"

definition derive_key_with_salt :: "argon2id \<Rightarrow> (nat \<Rightarrow> bytes) \<Rightarrow> string \<Rightarrow> bytes \<Rightarrow> ('e, bytes) outcome" where
  "derive_key_with_salt argon2 getrandom passphrase salt =
     bind_outcome (derive_key argon2 getrandom passphrase (Some salt)) (\<lambda>(key, _). Ok key)"

text \<open>What is assumed of the crate where a length matters: the key fills the buffer it is given.\<close>

definition argon2_len :: "argon2id \<Rightarrow> bool" where
  "argon2_len argon2 = (\<forall>m t p n pw salt key. argon2 m t p n pw salt = Some key \<longrightarrow> length key = n)"

lemma derive_key_Some:
  "derive_key argon2 rng pw (Some salt) =
    (case derive_key_with_salt argon2 rng pw salt of
       Ok key \<Rightarrow> Ok (key, salt) | Err e \<Rightarrow> Err e | Panic m \<Rightarrow> Panic m)"
  by (simp add: derive_key_def derive_key_with_salt_def Let_def split: option.splits)

lemma derive_key_with_salt_length:
  "argon2_len argon2 \<Longrightarrow> derive_key_with_salt argon2 rng pw salt = Ok key \<Longrightarrow> length key = 32"
  by (auto simp: derive_key_with_salt_def derive_key_def argon2_len_def ARGON2_KEY_LENGTH_def Let_def
      split: option.splits)

end
