(* ===== verification/Key_Cache.thy ===== *)
theory Key_Cache
  imports Kdf Keyed_Store
begin

text \<open>
  \<open>src/performance/key_cache.rs\<close>: the bounded cache of derived keys.  SHA-256 is the parameter
  \<open>sha\<close> and Argon2id the parameter \<open>argon2\<close>.  A handler returns its result and the cache it
  leaves, also where the result is an error or a panic.
\<close>

section \<open>Model\<close>

datatype cache_error = InvalidOutputLength | InvalidCapacity | DerivationFailed string

record cache_stats =
  cst_size :: nat
  cst_capacity :: nat
  cst_total_hits :: u64
  cst_total_misses :: u64

record cache_key =
  ck_password_hash :: bytes
  ck_salt_hash :: bytes
  ck_output_len :: nat

definition cache_key_new :: "(bytes \<Rightarrow> bytes) \<Rightarrow> bytes \<Rightarrow> bytes \<Rightarrow> nat \<Rightarrow> cache_key" where
  "cache_key_new sha password salt output_len =
     \<lparr>ck_password_hash = sha password, ck_salt_hash = sha salt, ck_output_len = output_len\<rparr>"

record cache_entry =
  ce_key_bytes :: bytes
  ce_hits :: u64

record key_cache =
  kc_capacity :: nat
  kc_entries :: "(cache_key, cache_entry) hmap"
  kc_order :: "cache_key list"
  kc_total_hits :: u64
  kc_total_misses :: u64

definition cache_new :: "nat \<Rightarrow> cache_error + key_cache" where
  "cache_new capacity =
     (if capacity = 0 then Inl InvalidCapacity
      else Inr \<lparr>kc_capacity = capacity, kc_entries = [], kc_order = [], kc_total_hits = 0, kc_total_misses = 0\<rparr>)"

text \<open>The slice \<open>full_key[..output_len]\<close>, which panics when the key is shorter.\<close>

definition key_slice :: "bytes \<Rightarrow> nat \<Rightarrow> ('e, bytes) outcome" where
  "key_slice full_key output_len =
     (if length full_key < output_len then Panic ''range end index out of range for slice''
      else Ok (take output_len full_key))"

definition cache_evict :: "key_cache \<Rightarrow> key_cache" where
  "cache_evict c =
     (if kc_capacity c \<le> length (kc_entries c)
      then case kc_order c of
             [] \<Rightarrow> c
           | oldest # rest \<Rightarrow> c\<lparr>kc_order := rest, kc_entries := hm_remove oldest (kc_entries c)\<rparr>
      else c)"

definition get_or_derive ::
  "(bytes \<Rightarrow> bytes) \<Rightarrow> argon2id \<Rightarrow> (nat \<Rightarrow> bytes) \<Rightarrow> bytes \<Rightarrow> bytes \<Rightarrow> nat \<Rightarrow> key_cache
     \<Rightarrow> (cache_error, bytes) outcome \<times> key_cache" where
  "get_or_derive sha argon2 rng password salt output_len c =
     (if output_len = 0 \<or> 64 < output_len then (Err InvalidOutputLength, c)
      else
        let key = cache_key_new sha password salt output_len
        in (case hm_get (kc_entries c) key of
              Some e \<Rightarrow>
                (Ok (ce_key_bytes e),
                 c\<lparr>kc_entries := hm_insert key (e\<lparr>ce_hits := saturating_add (ce_hits e) 1\<rparr>) (kc_entries c),
                   kc_total_hits := saturating_add (kc_total_hits c) 1\<rparr>)
            | None \<Rightarrow>
                let c1 = c\<lparr>kc_total_misses := saturating_add (kc_total_misses c) 1\<rparr>
                in (case bind_outcome (derive_key argon2 rng (from_utf8_lossy password) (Some salt))
                          (\<lambda>(full_key, _). key_slice full_key output_len) of
                      Ok key_bytes \<Rightarrow>
                        (let c2 = cache_evict c1
                         in (Ok key_bytes,
                             c2\<lparr>kc_entries := hm_insert key \<lparr>ce_key_bytes = key_bytes, ce_hits = 0\<rparr> (kc_entries c2),
                                kc_order := kc_order c2 @ [key]\<rparr>))
                    | Err e \<Rightarrow> (Err e, c1)
                    | Panic m \<Rightarrow> (Panic m, c1))))"

definition cache_invalidate ::
  "(bytes \<Rightarrow> bytes) \<Rightarrow> bytes \<Rightarrow> bytes \<Rightarrow> nat \<Rightarrow> key_cache \<Rightarrow> bool \<times> key_cache" where
  "cache_invalidate sha password salt output_len c =
     (let key = cache_key_new sha password salt output_len
      in if hm_contains (kc_entries c) key
         then (True, c\<lparr>kc_entries := hm_remove key (kc_entries c),
                       kc_order := filter (\<lambda>k. k \<noteq> key) (kc_order c)\<rparr>)
         else (False, c))"

definition cache_clear :: "key_cache \<Rightarrow> key_cache" where
  "cache_clear c = c\<lparr>kc_entries := [], kc_order := []\<rparr>"

definition cache_stats_of :: "key_cache \<Rightarrow> cache_stats" where
  "cache_stats_of c =
     \<lparr>cst_size = length (kc_entries c), cst_capacity = kc_capacity c, cst_total_hits = kc_total_hits c,
      cst_total_misses = kc_total_misses c\<rparr>"

definition cache_len :: "key_cache \<Rightarrow> nat" where
  "cache_len c = length (kc_entries c)"

definition cache_is_empty :: "key_cache \<Rightarrow> bool" where
  "cache_is_empty c = (kc_entries c = [])"

section \<open>The cache invariant\<close>

text \<open>The key that \<open>get_or_derive\<close> computes when nothing is cached.\<close>

definition derived :: "argon2id \<Rightarrow> (nat \<Rightarrow> bytes) \<Rightarrow> bytes \<Rightarrow> bytes \<Rightarrow> nat \<Rightarrow> (cache_error, bytes) outcome" where
  "derived argon2 rng password salt n =
     bind_outcome (derive_key argon2 rng (from_utf8_lossy password) (Some salt))
       (\<lambda>(full_key, _). key_slice full_key n)"

text \<open>The insertion order lists exactly the cached keys, once each, within the capacity.\<close>

definition cache_inv :: "key_cache \<Rightarrow> bool" where
  "cache_inv c =
     (hm_wf (kc_entries c) \<and> distinct (kc_order c) \<and> set (kc_order c) = fst ` set (kc_entries c) \<and>
      length (kc_order c) \<le> kc_capacity c \<and> 0 < kc_capacity c)"

lemma cache_inv_length: "cache_inv c \<Longrightarrow> length (kc_order c) = length (kc_entries c)"
  unfolding cache_inv_def hm_wf_def
  by (metis distinct_card length_map set_map)

lemma hm_remove_keys: "fst ` set (hm_remove k m) = fst ` set m - {k}"
  by (metis delete_keys removeAll_filter_not_eq set_map set_removeAll)

lemma hm_get_None: "hm_get m k = None \<longleftrightarrow> k \<notin> fst ` set m"
  by (simp add: map_of_eq_None_iff)

lemma cache_inv_evict:
  assumes "cache_inv c"
  shows "hm_wf (kc_entries (cache_evict c)) \<and> distinct (kc_order (cache_evict c)) \<and>
    set (kc_order (cache_evict c)) = fst ` set (kc_entries (cache_evict c)) \<and>
    length (kc_order (cache_evict c)) < kc_capacity c \<and> kc_capacity (cache_evict c) = kc_capacity c \<and>
    set (kc_order (cache_evict c)) \<subseteq> set (kc_order c)"
proof (cases "kc_capacity c \<le> length (kc_entries c)")
  case True
  then have "kc_order c \<noteq> []"
    using assms cache_inv_length [OF assms] by (auto simp: cache_inv_def)
  then obtain k ks where o: "kc_order c = k # ks"
    by (cases "kc_order c") auto
  then have e: "cache_evict c = c\<lparr>kc_order := ks, kc_entries := hm_remove k (kc_entries c)\<rparr>"
    using True by (simp add: cache_evict_def)
  have "set ks = fst ` set (kc_entries c) - {k}"
    using assms o by (auto simp: cache_inv_def)
  then show ?thesis
    using assms o by (auto simp: e cache_inv_def hm_remove_keys)
next
  case False
  then show ?thesis
    using assms cache_inv_length [OF assms] by (simp add: cache_evict_def cache_inv_def)
qed

lemma cache_inv_miss:
  assumes "cache_inv c" "hm_get (kc_entries c) k = None"
  shows "cache_inv ((cache_evict c)\<lparr>kc_entries := hm_insert k e (kc_entries (cache_evict c)),
     kc_order := kc_order (cache_evict c) @ [k]\<rparr>)"
proof -
  have "k \<notin> set (kc_order (cache_evict c))"
    using cache_inv_evict [OF assms(1)] assms unfolding hm_get_None cache_inv_def by blast
  then show ?thesis
    using cache_inv_evict [OF assms(1)] by (auto simp: cache_inv_def hm_keys_insert)
qed

lemma cache_inv_misses: "cache_inv (c\<lparr>kc_total_misses := m\<rparr>) = cache_inv c"
  by (simp add: cache_inv_def)

lemma cache_inv_get_or_derive:
  assumes "cache_inv c"
  shows "cache_inv (snd (get_or_derive sha argon2 rng pw salt n c))"
proof (cases "hm_get (kc_entries c) (cache_key_new sha pw salt n)")
  case None
  then show ?thesis
    using cache_inv_miss [of "c\<lparr>kc_total_misses := saturating_add (kc_total_misses c) 1\<rparr>"] assms
    by (auto simp: get_or_derive_def Let_def cache_inv_misses split: outcome.splits)
next
  case (Some e)
  then have "fst ` set (hm_insert (cache_key_new sha pw salt n) x (kc_entries c)) = fst ` set (kc_entries c)" for x
    by (auto simp: hm_keys_insert insert_absorb dest: map_of_SomeD intro: rev_image_eqI)
  then show ?thesis
    using Some assms by (auto simp: get_or_derive_def Let_def cache_inv_def)
qed

lemma cache_inv_invalidate:
  "cache_inv c \<Longrightarrow> cache_inv (snd (cache_invalidate sha pw salt n c))"
  by (auto simp: cache_invalidate_def Let_def cache_inv_def hm_remove_keys
      intro: order_trans [OF length_filter_le])

section \<open>Runs of the cache\<close>

datatype cache_op = CacheGet bytes bytes nat | CacheInvalidate bytes bytes nat | CacheClear

fun cache_exec ::
  "(bytes \<Rightarrow> bytes) \<Rightarrow> argon2id \<Rightarrow> (nat \<Rightarrow> bytes) \<Rightarrow> key_cache \<Rightarrow> cache_op \<Rightarrow> key_cache" where
  "cache_exec sha argon2 rng c (CacheGet pw salt n) = snd (get_or_derive sha argon2 rng pw salt n c)"
| "cache_exec sha argon2 rng c (CacheInvalidate pw salt n) = snd (cache_invalidate sha pw salt n c)"
| "cache_exec sha argon2 rng c CacheClear = cache_clear c"

definition cache_run ::
  "(bytes \<Rightarrow> bytes) \<Rightarrow> argon2id \<Rightarrow> (nat \<Rightarrow> bytes) \<Rightarrow> cache_op list \<Rightarrow> key_cache \<Rightarrow> key_cache" where
  "cache_run sha argon2 rng ops c = foldl (cache_exec sha argon2 rng) c ops"

lemma cache_inv_clear: "cache_inv c \<Longrightarrow> cache_inv (cache_clear c)"
  by (simp add: cache_clear_def cache_inv_def)

lemma cache_inv_exec: "cache_inv c \<Longrightarrow> cache_inv (cache_exec sha argon2 rng c op)"
  by (cases op) (auto intro: cache_inv_get_or_derive cache_inv_invalidate cache_inv_clear)

lemma cache_inv_run: "cache_inv c \<Longrightarrow> cache_inv (cache_run sha argon2 rng ops c)"
  unfolding cache_run_def by (induction ops arbitrary: c) (auto intro: cache_inv_exec)

lemma cache_inv_new: "cache_new cap = Inr c \<Longrightarrow> cache_inv c"
  by (auto simp: cache_new_def cache_inv_def split: if_splits)

lemma cache_capacity_run: "kc_capacity (cache_run sha argon2 rng ops c) = kc_capacity c"
proof -
  have "kc_capacity (cache_exec sha argon2 rng c op) = kc_capacity c" for c op
    by (cases op) (auto simp: get_or_derive_def cache_invalidate_def cache_clear_def cache_evict_def Let_def
        split: option.splits outcome.splits list.splits)
  then show ?thesis
    unfolding cache_run_def by (induction ops arbitrary: c) auto
qed

text \<open>
  The cache is bounded and its queue is exact: after any sequence of calls it holds at most
  \<open>capacity\<close> entries, and the eviction queue lists exactly the cached keys, each once.
\<close>

theorem cache_bounded:
  assumes "cache_new capacity = Inr c0" "c = cache_run sha argon2 rng ops c0"
  shows "cache_len c \<le> capacity \<and> distinct (kc_order c) \<and> length (kc_order c) = cache_len c \<and>
    (k \<in> set (kc_order c) \<longleftrightarrow> hm_get (kc_entries c) k \<noteq> None)"
proof -
  have i: "cache_inv c"
    using cache_inv_run [OF cache_inv_new [OF assms(1)]] assms(2) by simp
  have "kc_capacity c = capacity"
    using assms by (auto simp: cache_capacity_run cache_new_def split: if_splits)
  then show ?thesis
    using i cache_inv_length [OF i] by (simp add: cache_inv_def cache_len_def hm_get_None)
qed

theorem cache_bounded_witness:
  "cache_len (cache_run (\<lambda>x. x) (\<lambda>_ _ _ n _ _. Some (replicate n 7)) (\<lambda>n. [])
     [CacheGet [1] [2] 32, CacheGet [3] [2] 32, CacheGet [4] [2] 32]
     \<lparr>kc_capacity = 2, kc_entries = [], kc_order = [], kc_total_hits = 0, kc_total_misses = 0\<rparr>) \<le> 2"
  using cache_bounded [of 2, OF _ refl] by (simp add: cache_new_def)

section \<open>The cache is transparent\<close>

text \<open>Every cached key was derived for some earlier request with the same hashes.\<close>

definition cache_sound ::
  "(bytes \<Rightarrow> bytes) \<Rightarrow> argon2id \<Rightarrow> (nat \<Rightarrow> bytes) \<Rightarrow> cache_op set \<Rightarrow> key_cache \<Rightarrow> bool" where
  "cache_sound sha argon2 rng reqs c = (\<forall>k e. hm_get (kc_entries c) k = Some e \<longrightarrow>
     (\<exists>pw salt n. CacheGet pw salt n \<in> reqs \<and> k = cache_key_new sha pw salt n \<and>
        derived argon2 rng pw salt n = Ok (ce_key_bytes e)))"

lemma cache_soundD:
  assumes "cache_sound sha argon2 rng reqs c" "hm_get (kc_entries c) k = Some e"
  obtains pw salt n where "CacheGet pw salt n \<in> reqs" "k = cache_key_new sha pw salt n"
    "derived argon2 rng pw salt n = Ok (ce_key_bytes e)"
  using assms unfolding cache_sound_def by blast

lemma cache_sound_sub:
  assumes "cache_sound sha argon2 rng reqs c"
    and "\<And>k e. hm_get (kc_entries c') k = Some e \<Longrightarrow>
      \<exists>e'. hm_get (kc_entries c) k = Some e' \<and> ce_key_bytes e' = ce_key_bytes e"
  shows "cache_sound sha argon2 rng reqs c'"
  using assms unfolding cache_sound_def by metis

lemma cache_evict_get: "hm_get (kc_entries (cache_evict c)) k = Some e \<Longrightarrow> hm_get (kc_entries c) k = Some e"
  by (auto simp: cache_evict_def store_simps split: list.splits if_splits)

lemma cache_sound_insert:
  assumes "cache_sound sha argon2 rng reqs c" "CacheGet pw salt n \<in> reqs" "derived argon2 rng pw salt n = Ok key"
    and "kc_entries c1 = kc_entries c"
    and "kc_entries c' = hm_insert (cache_key_new sha pw salt n) \<lparr>ce_key_bytes = key, ce_hits = h\<rparr>
      (kc_entries (cache_evict c1))"
  shows "cache_sound sha argon2 rng reqs c'"
  unfolding cache_sound_def
proof (intro allI impI)
  fix k e
  assume g: "hm_get (kc_entries c') k = Some e"
  show "\<exists>pw salt n. CacheGet pw salt n \<in> reqs \<and> k = cache_key_new sha pw salt n \<and>
    derived argon2 rng pw salt n = Ok (ce_key_bytes e)"
  proof (cases "k = cache_key_new sha pw salt n")
    case True
    then have "ce_key_bytes e = key"
      using g by (auto simp: assms(5) store_simps)
    then show ?thesis
      using True assms(2,3) by blast
  next
    case False
    then have "hm_get (kc_entries c) k = Some e"
      using g cache_evict_get [of c1 k e] by (simp add: assms(4,5) store_simps)
    then show ?thesis
      using assms(1) unfolding cache_sound_def by blast
  qed
qed

lemma cache_sound_get:
  assumes "cache_sound sha argon2 rng reqs c" "CacheGet pw salt n \<in> reqs"
  shows "cache_sound sha argon2 rng reqs (snd (get_or_derive sha argon2 rng pw salt n c))"
proof -
  let ?k = "cache_key_new sha pw salt n"
  consider (bad) "n = 0 \<or> 64 < n" | (hit) e where "\<not> (n = 0 \<or> 64 < n)" "hm_get (kc_entries c) ?k = Some e"
    | (miss) "\<not> (n = 0 \<or> 64 < n)" "hm_get (kc_entries c) ?k = None"
    by (metis not_None_eq)
  then show ?thesis
  proof cases
    case bad
    then show ?thesis using assms by (simp add: get_or_derive_def)
  next
    case hit
    then show ?thesis
      by (intro cache_sound_sub [OF assms(1)])
        (auto simp: get_or_derive_def Let_def store_simps split: if_splits)
  next
    case miss
    let ?c1 = "c\<lparr>kc_total_misses := saturating_add (kc_total_misses c) 1\<rparr>"
    show ?thesis
    proof (cases "derived argon2 rng pw salt n")
      case (Ok key)
      then have "kc_entries (snd (get_or_derive sha argon2 rng pw salt n c)) =
          hm_insert ?k \<lparr>ce_key_bytes = key, ce_hits = 0\<rparr> (kc_entries (cache_evict ?c1))"
        using miss by (auto simp: get_or_derive_def Let_def derived_def)
      then show ?thesis
        by (intro cache_sound_insert [OF assms Ok, of ?c1]) simp_all
    qed (use miss in \<open>auto simp: get_or_derive_def Let_def derived_def intro!: cache_sound_sub [OF assms(1)]\<close>)
  qed
qed

lemma cache_sound_exec:
  assumes "cache_sound sha argon2 rng reqs c" "op \<in> reqs"
  shows "cache_sound sha argon2 rng reqs (cache_exec sha argon2 rng c op)"
proof (cases op)
  case (CacheGet pw salt n)
  then show ?thesis
    using assms cache_sound_get by simp
next
  case (CacheInvalidate pw salt n)
  then show ?thesis
    by (simp, intro cache_sound_sub [OF assms(1)])
      (auto simp: cache_invalidate_def Let_def store_simps split: if_splits)
next
  case CacheClear
  then show ?thesis
    by (simp add: cache_sound_def cache_clear_def)
qed

lemma cache_sound_run:
  assumes "cache_sound sha argon2 rng reqs c" "set ops \<subseteq> reqs"
  shows "cache_sound sha argon2 rng reqs (cache_run sha argon2 rng ops c)"
  using assms unfolding cache_run_def by (induction ops arbitrary: c) (auto intro: cache_sound_exec)

lemma cache_sound_new: "cache_new capacity = Inr c \<Longrightarrow> cache_sound sha argon2 rng reqs c"
  by (auto simp: cache_new_def cache_sound_def split: if_splits)

text \<open>
  C12. The cache is transparent: after any calls, \<open>get_or_derive\<close> with an allowed length returns what
  a fresh derivation returns (the same key, or the same panic), unless the request and an earlier
  request of the sequence, for another password or salt, have equal SHA-256 hashes.
\<close>

theorem cache_transparent:
  assumes "cache_new capacity = Inr c0" "0 < n" "n \<le> 64"
  shows "fst (get_or_derive sha argon2 rng pw salt n (cache_run sha argon2 rng ops c0)) = derived argon2 rng pw salt n
    \<or> (\<exists>pw' salt'. CacheGet pw' salt' n \<in> set ops \<and> (pw', salt') \<noteq> (pw, salt) \<and>
          sha pw' = sha pw \<and> sha salt' = sha salt)"
proof (cases "hm_get (kc_entries (cache_run sha argon2 rng ops c0)) (cache_key_new sha pw salt n)")
  case None
  then show ?thesis
    using assms by (auto simp: get_or_derive_def Let_def derived_def split: outcome.splits)
next
  case (Some e)
  obtain pw' salt' n' where r: "CacheGet pw' salt' n' \<in> set ops"
    "cache_key_new sha pw salt n = cache_key_new sha pw' salt' n'"
    "derived argon2 rng pw' salt' n' = Ok (ce_key_bytes e)"
    using cache_soundD [OF cache_sound_run [OF cache_sound_new [OF assms(1)] order_refl] Some] by blast
  have "fst (get_or_derive sha argon2 rng pw salt n (cache_run sha argon2 rng ops c0)) = Ok (ce_key_bytes e)"
    using Some assms by (simp add: get_or_derive_def Let_def)
  then show ?thesis
    using r by (cases "(pw', salt') = (pw, salt)") (auto simp: cache_key_new_def)
qed

theorem cache_transparent_witness:
  "fst (get_or_derive (\<lambda>x. x) (\<lambda>_ _ _ n pw _. Some (replicate n (hd pw))) (\<lambda>n. []) [65] [2] 32
     (cache_run (\<lambda>x. x) (\<lambda>_ _ _ n pw _. Some (replicate n (hd pw))) (\<lambda>n. [])
       [CacheGet [65] [2] 32, CacheGet [66] [2] 32]
       \<lparr>kc_capacity = 2, kc_entries = [], kc_order = [], kc_total_hits = 0, kc_total_misses = 0\<rparr>))
   = derived (\<lambda>_ _ _ n pw _. Some (replicate n (hd pw))) (\<lambda>n. []) [65] [2] 32"
  using cache_transparent [of 2 _ 32 "\<lambda>x. x" "\<lambda>_ _ _ n pw _. Some (replicate n (hd pw))" "\<lambda>n. []" "[65]" "[2]"
      "[CacheGet [65] [2] 32, CacheGet [66] [2] 32]"]
  by (simp add: cache_new_def)

section \<open>Where a derivation panics\<close>

text \<open>
  The documented range of output lengths is 1 to 64, but Argon2id is asked for 32 bytes: a request
  for 33 to 64 bytes never returns a key on any cache that does not already hold one, and panics
  (after counting the miss) when the derivation succeeds.
\<close>

theorem long_output_panics:
  assumes "argon2_len argon2" "32 < n" "n \<le> 64"
    and "hm_get (kc_entries c) (cache_key_new sha pw salt n) = None"
  shows "\<exists>m. get_or_derive sha argon2 rng pw salt n c
     = (Panic m, c\<lparr>kc_total_misses := saturating_add (kc_total_misses c) 1\<rparr>)"
proof -
  have "\<exists>m. bind_outcome (derive_key argon2 rng (from_utf8_lossy pw) (Some salt))
      (\<lambda>(full_key, _). key_slice full_key n :: (cache_error, bytes) outcome) = Panic m"
    using assms(1,2) by (auto simp: derive_key_def key_slice_def argon2_len_def ARGON2_KEY_LENGTH_def Let_def
        split: option.splits)
  then show ?thesis
    using assms(3,4) \<open>32 < n\<close> by (auto simp: get_or_derive_def Let_def)
qed

theorem long_output_panics_witness:
  "\<exists>m. fst (get_or_derive (\<lambda>x. x) (\<lambda>_ _ _ n _ _. Some (replicate n 7)) (\<lambda>n. []) [65] [2] 64
     \<lparr>kc_capacity = 2, kc_entries = [], kc_order = [], kc_total_hits = 0, kc_total_misses = 0\<rparr>) = Panic m"
  using long_output_panics [of "\<lambda>_ _ _ n _ _. Some (replicate n 7)" 64
      "\<lparr>kc_capacity = 2, kc_entries = [], kc_order = [], kc_total_hits = 0, kc_total_misses = 0\<rparr>"
      "\<lambda>x. x" "[65]" "[2]" "\<lambda>n. []"]
  by (auto simp: argon2_len_def)

end
