(* ===== verification/Quantum_Kernel.thy ===== *)
theory Quantum_Kernel
  imports Utf8 Keyed_Store
begin

text \<open>
  \<open>src/quantum_kernel.rs\<close>: ML-KEM encapsulation, the hybrid encryptor and the in-memory vault.  The
  crates are the fields of a record of functions: base64, ML-KEM-1024, HKDF-SHA3-256 and
  AES-256-GCM.  Randomness and the time measured by the watchdog are arguments.  The mutex around
  the vault's keys is its poison flag: a panic while it is held makes every later \<open>lock().unwrap()\<close>
  panic.
\<close>

section \<open>Third-party functions\<close>

record primitives =
  pr_b64_encode :: "bytes \<Rightarrow> string"
  pr_b64_decode :: "string \<Rightarrow> string + bytes"
  pr_ek_of_seed :: "bytes \<Rightarrow> bytes"
  pr_ek_valid :: "bytes \<Rightarrow> bool"
  pr_encaps :: "bytes \<Rightarrow> bytes \<Rightarrow> bytes \<times> bytes"
  pr_decaps :: "bytes \<Rightarrow> bytes \<Rightarrow> bytes"
  pr_hkdf :: "bytes \<Rightarrow> bytes \<Rightarrow> bytes \<Rightarrow> nat \<Rightarrow> bytes"
  pr_aes_encrypt :: "bytes \<Rightarrow> bytes \<Rightarrow> bytes \<Rightarrow> bytes option"
  pr_aes_decrypt :: "bytes \<Rightarrow> bytes \<Rightarrow> bytes \<Rightarrow> string + bytes"

text \<open>Documented behaviour of the crates: decoding inverts encoding, and AES-GCM decryption inverts
  encryption under the same key and nonce.\<close>

definition lawful_base64 :: "primitives \<Rightarrow> bool" where
  "lawful_base64 P = (\<forall>x. pr_b64_decode P (pr_b64_encode P x) = Inr x)"

definition lawful_aes :: "primitives \<Rightarrow> bool" where
  "lawful_aes P = (\<forall>k n x c. pr_aes_encrypt P k n x = Some c \<longrightarrow> pr_aes_decrypt P k n c = Inr x)"

definition lawful_kem :: "primitives \<Rightarrow> bool" where
  "lawful_kem P = (\<forall>seed m. length seed = 64 \<longrightarrow>
     length (pr_ek_of_seed P seed) = 1568 \<and> pr_ek_valid P (pr_ek_of_seed P seed) \<and>
     (case pr_encaps P (pr_ek_of_seed P seed) m of
        (ct, ss) \<Rightarrow> length ct = 1568 \<and> pr_decaps P seed ct = ss))"

section \<open>Model\<close>

definition DOMAIN :: bytes where
  "DOMAIN = as_bytes ''Abir-Guard-Hybrid-2026''"

definition HANDSHAKE_TIMEOUT_MS :: nat where
  "HANDSHAKE_TIMEOUT_MS = 200"

text \<open>The watchdog's error; \<open>MlKem1024Kem\<close> and \<open>HybridEncryptor\<close> carry no state.\<close>

record watchdog_error =
  we_elapsed_ms :: nat
  we_threshold_ms :: nat

definition watchdog_error_text :: "watchdog_error \<Rightarrow> string" where
  "watchdog_error_text e =
     ''Latency anomaly: '' @ dec (we_elapsed_ms e) @ ''ms (threshold: '' @ dec (we_threshold_ms e) @
     ''ms). Potential side-channel attack.''"

record key_pair =
  kp_public_key :: string
  kp_secret_key :: string

record ciphertext =
  ct_nonce :: string
  ct_ciphertext :: string
  ct_key_id :: string

text \<open>\<open>keygen\<close> from the 64-byte seed it draws.\<close>

definition keygen :: "primitives \<Rightarrow> bytes \<Rightarrow> key_pair \<times> bytes" where
  "keygen P seed =
     (\<lparr>kp_public_key = pr_b64_encode P (pr_ek_of_seed P seed), kp_secret_key = pr_b64_encode P seed\<rparr>, seed)"

definition ml_kem_is_available :: bool where
  "ml_kem_is_available = True"

definition hybrid_generate_keypair :: "primitives \<Rightarrow> bytes \<Rightarrow> key_pair \<times> bytes" where
  "hybrid_generate_keypair P seed = keygen P seed"

definition watchdog_text :: "string \<Rightarrow> nat \<Rightarrow> string" where
  "watchdog_text what elapsed =
     ''Security watchdog: '' @ what @ '' took '' @ dec elapsed @ ''ms (threshold: '' @ dec HANDSHAKE_TIMEOUT_MS @ ''ms)''"

definition encapsulate :: "primitives \<Rightarrow> bytes \<Rightarrow> nat \<Rightarrow> string \<Rightarrow> string + bytes \<times> bytes" where
  "encapsulate P m elapsed public_key_b64 =
     (case pr_b64_decode P public_key_b64 of
        Inl e \<Rightarrow> Inl e
      | Inr pk_bytes \<Rightarrow>
          if length pk_bytes \<noteq> 1568 then Inl ''Invalid public key length''
          else if \<not> pr_ek_valid P pk_bytes then Inl ''Invalid public key''
          else if HANDSHAKE_TIMEOUT_MS < elapsed then Inl (watchdog_text ''encapsulation'' elapsed)
          else Inr (pr_encaps P pk_bytes m))"

definition decapsulate :: "primitives \<Rightarrow> nat \<Rightarrow> bytes \<Rightarrow> string \<Rightarrow> string + bytes" where
  "decapsulate P elapsed ct secret_key_b64 =
     (case pr_b64_decode P secret_key_b64 of
        Inl e \<Rightarrow> Inl e
      | Inr sk_bytes \<Rightarrow>
          if length sk_bytes \<noteq> 64 then Inl ''Invalid secret key length''
          else if length ct \<noteq> 1568 then Inl ''Invalid ciphertext length''
          else if HANDSHAKE_TIMEOUT_MS < elapsed then Inl (watchdog_text ''decapsulation'' elapsed)
          else Inr (pr_decaps P sk_bytes ct))"

text \<open>The AES key of a secret.\<close>

definition aes_key :: "primitives \<Rightarrow> bytes \<Rightarrow> bytes" where
  "aes_key P secret = pr_hkdf P DOMAIN secret (as_bytes ''aes-key'') 32"

definition hybrid_encrypt ::
  "primitives \<Rightarrow> bytes \<Rightarrow> nat \<Rightarrow> bytes \<Rightarrow> bytes \<Rightarrow> ('e, ciphertext) outcome" where
  "hybrid_encrypt P nonce_bytes elapsed plaintext secret =
     (case pr_aes_encrypt P (aes_key P secret) nonce_bytes plaintext of
        None \<Rightarrow> Panic ''Encrypt''
      | Some c \<Rightarrow>
          if HANDSHAKE_TIMEOUT_MS < elapsed
          then Panic (watchdog_text ''encryption'' elapsed @ ''. Potential side-channel attack.'')
          else Ok \<lparr>ct_nonce = pr_b64_encode P nonce_bytes, ct_ciphertext = pr_b64_encode P c, ct_key_id = []\<rparr>)"

text \<open>\<open>Nonce::from_slice\<close> panics unless it is given 12 bytes.\<close>

definition hybrid_decrypt ::
  "primitives \<Rightarrow> nat \<Rightarrow> ciphertext \<Rightarrow> bytes \<Rightarrow> (string, bytes) outcome" where
  "hybrid_decrypt P elapsed ct secret =
     (case pr_b64_decode P (ct_nonce ct) of
        Inl e \<Rightarrow> Err e
      | Inr nonce \<Rightarrow>
          if length nonce \<noteq> 12 then Panic ''assertion failed: nonce length''
          else (case pr_b64_decode P (ct_ciphertext ct) of
                  Inl e \<Rightarrow> Err e
                | Inr c \<Rightarrow>
                    (case pr_aes_decrypt P (aes_key P secret) nonce c of
                       Inl e \<Rightarrow> Err e
                     | Inr plaintext \<Rightarrow>
                         if HANDSHAKE_TIMEOUT_MS < elapsed then Err (watchdog_text ''decryption'' elapsed)
                         else Ok plaintext)))"

type_synonym key_row = "string \<times> key_pair \<times> bytes"

record vault =
  va_keys :: "key_row list"
  va_poisoned :: bool

definition vault_new :: vault where
  "vault_new = \<lparr>va_keys = [], va_poisoned = False\<rparr>"

datatype vault_error = InvalidUtf8 bytes | VaultError string

text \<open>\<open>self.keys.lock().unwrap()\<close>.\<close>

definition vault_lock ::
  "(key_row list \<Rightarrow> ('e, 'a) outcome \<times> key_row list) \<Rightarrow> vault \<Rightarrow> ('e, 'a) outcome \<times> vault" where
  "vault_lock body v =
     (if va_poisoned v then (Panic ''PoisonError'', v)
      else case body (va_keys v) of
        (Panic m, keys) \<Rightarrow> (Panic m, \<lparr>va_keys = keys, va_poisoned = True\<rparr>)
      | (r, keys) \<Rightarrow> (r, v\<lparr>va_keys := keys\<rparr>))"

definition key_row_of :: "key_row list \<Rightarrow> string \<Rightarrow> (key_pair \<times> bytes) option" where
  "key_row_of keys key_id = map_of keys key_id"

definition vault_generate_keypair ::
  "primitives \<Rightarrow> bytes \<Rightarrow> string \<Rightarrow> vault \<Rightarrow> (string, string \<times> string) outcome \<times> vault" where
  "vault_generate_keypair P seed key_id v =
     (let (kp, sk) = keygen P seed
      in vault_lock (\<lambda>keys. (Ok (kp_public_key kp, kp_secret_key kp), keys @ [(key_id, kp, sk)])) v)"

definition vault_store ::
  "primitives \<Rightarrow> bytes \<Rightarrow> bytes \<Rightarrow> nat \<Rightarrow> bytes \<Rightarrow> bytes \<Rightarrow> vault
     \<Rightarrow> (vault_error, ciphertext) outcome \<times> vault" where
  "vault_store P seed nonce elapsed key_id plaintext v =
     (case from_utf8 key_id of
        None \<Rightarrow> (Err (InvalidUtf8 key_id), v)
      | Some key_id_str \<Rightarrow>
          (case vault_lock (\<lambda>keys.
                  case key_row_of keys key_id_str of
                    Some (kp, stored_sk) \<Rightarrow> (Ok stored_sk, keys)
                  | None \<Rightarrow> (let (kp, sk) = keygen P seed in (Ok sk, keys @ [(key_id_str, kp, sk)]))) v of
             (Ok sk, v1) \<Rightarrow> (hybrid_encrypt P nonce elapsed plaintext sk, v1)
           | (Err e, v1) \<Rightarrow> (Err e, v1)
           | (Panic m, v1) \<Rightarrow> (Panic m, v1)))"

definition vault_retrieve ::
  "primitives \<Rightarrow> nat \<Rightarrow> bytes \<Rightarrow> ciphertext \<Rightarrow> vault \<Rightarrow> (string, bytes) outcome \<times> vault" where
  "vault_retrieve P elapsed key_id ct =
     vault_lock (\<lambda>keys.
       (case find (\<lambda>(i, _, _). as_bytes i = key_id) keys of
          None \<Rightarrow> Err ''Key not found''
        | Some (_, _, sk) \<Rightarrow> hybrid_decrypt P elapsed ct sk, keys))"

definition vault_list_keypairs :: "vault \<Rightarrow> (string, string list) outcome \<times> vault" where
  "vault_list_keypairs = vault_lock (\<lambda>keys. (Ok (map fst keys), keys))"

definition vault_remove_keypair :: "string \<Rightarrow> vault \<Rightarrow> (string, unit) outcome \<times> vault" where
  "vault_remove_keypair key_id = vault_lock (\<lambda>keys. (Ok (), filter (\<lambda>(i, _, _). i \<noteq> key_id) keys))"

definition vault_export_keys :: "vault \<Rightarrow> (string, (string \<times> string \<times> string) list) outcome \<times> vault" where
  "vault_export_keys =
     vault_lock (\<lambda>keys. (Ok (map (\<lambda>(i, kp, _). (i, kp_public_key kp, kp_secret_key kp)) keys), keys))"

definition vault_import_key ::
  "primitives \<Rightarrow> string \<Rightarrow> string \<Rightarrow> string \<Rightarrow> vault \<Rightarrow> (string, unit) outcome \<times> vault" where
  "vault_import_key P key_id public_key secret_key_b64 v =
     (case pr_b64_decode P secret_key_b64 of
        Inl e \<Rightarrow> (Err e, v)
      | Inr sk \<Rightarrow>
          vault_lock (\<lambda>keys. (Ok (), filter (\<lambda>(i, _, _). i \<noteq> key_id) keys @
            [(key_id, \<lparr>kp_public_key = public_key, kp_secret_key = secret_key_b64\<rparr>, sk)])) v)"

definition ml_kem_roundtrip :: "primitives \<Rightarrow> bytes \<Rightarrow> bytes \<Rightarrow> nat \<Rightarrow> nat \<Rightarrow> string + bool" where
  "ml_kem_roundtrip P seed m elapsed1 elapsed2 =
     (let (kp, _) = keygen P seed
      in case encapsulate P m elapsed1 (kp_public_key kp) of
           Inl e \<Rightarrow> Inl e
         | Inr (ct, ss1) \<Rightarrow>
             (case decapsulate P elapsed2 ct (kp_secret_key kp) of
                Inl e \<Rightarrow> Inl e
              | Inr ss2 \<Rightarrow> Inr (ss1 = ss2)))"

section \<open>The encryptor\<close>

lemma lawful_base64D: "lawful_base64 P \<Longrightarrow> pr_b64_decode P (pr_b64_encode P x) = Inr x"
  by (simp add: lawful_base64_def)

lemma hybrid_decrypt_encrypt:
  assumes "lawful_base64 P" "lawful_aes P" "length nonce = 12" "elapsed' \<le> 200"
    and "hybrid_encrypt P nonce elapsed x secret = Ok ct"
  shows "hybrid_decrypt P elapsed' ct secret = Ok x"
  using assms(2-) lawful_base64D [OF assms(1)]
  by (auto simp: hybrid_encrypt_def hybrid_decrypt_def lawful_aes_def HANDSHAKE_TIMEOUT_MS_def
      split: option.splits if_splits)

text \<open>Decryption does not look at the identifier in a ciphertext.\<close>

lemma hybrid_decrypt_cong:
  assumes "ct_nonce a = ct_nonce b" "ct_ciphertext a = ct_ciphertext b"
  shows "hybrid_decrypt P t a sk = hybrid_decrypt P t b sk"
  unfolding hybrid_decrypt_def assms by (rule refl)

text \<open>
  A key pair made by the module works with itself: encapsulating to the public key and
  decapsulating with the secret key, both as the base64 texts handed out, gives the same shared secret,
  and the self test reports true, whenever neither call trips the 200 ms watchdog; when one does, it is
  an error and no secret is returned.
\<close>

theorem kem_roundtrip:
  assumes "lawful_base64 P" "lawful_kem P" "length seed = 64"
  shows "ml_kem_roundtrip P seed m t1 t2 =
    (if 200 < t1 then Inl (watchdog_text ''encapsulation'' t1)
     else if 200 < t2 then Inl (watchdog_text ''decapsulation'' t2) else Inr True)"
proof -
  obtain ct ss where e: "pr_encaps P (pr_ek_of_seed P seed) m = (ct, ss)"
    by (cases "pr_encaps P (pr_ek_of_seed P seed) m")
  then have "length (pr_ek_of_seed P seed) = 1568" "pr_ek_valid P (pr_ek_of_seed P seed)"
    "length ct = 1568" "pr_decaps P seed ct = ss"
    using assms(2,3) unfolding lawful_kem_def by (metis (mono_tags, lifting) case_prod_conv)+
  then show ?thesis
    using e assms(3)
    by (simp add: ml_kem_roundtrip_def keygen_def encapsulate_def decapsulate_def
        lawful_base64D [OF assms(1)] HANDSHAKE_TIMEOUT_MS_def)
qed

theorem kem_roundtrip_witness:
  "ml_kem_roundtrip \<lparr>pr_b64_encode = bytes_to_string, pr_b64_decode = (\<lambda>s. Inr (as_bytes s)),
     pr_ek_of_seed = (\<lambda>s. replicate 1568 (hd s)), pr_ek_valid = (\<lambda>_. True),
     pr_encaps = (\<lambda>ek m. (replicate 1568 1, [hd ek])), pr_decaps = (\<lambda>seed ct. [hd seed]),
     pr_hkdf = (\<lambda>_ ikm _ n. take n ikm), pr_aes_encrypt = (\<lambda>k n x. Some x),
     pr_aes_decrypt = (\<lambda>k n c. Inr c)\<rparr> (replicate 64 5) [9] 3 4 = Inr True"
  by (subst kem_roundtrip) (simp_all add: lawful_base64_def lawful_kem_def hd_replicate)

section \<open>The vault as a store of keys\<close>

definition vault_get :: "vault \<Rightarrow> string \<Rightarrow> (key_pair \<times> bytes) option" where
  "vault_get v key_id = key_row_of (va_keys v) key_id"

definition vault_put :: "string \<Rightarrow> key_pair \<times> bytes \<Rightarrow> vault \<Rightarrow> vault" where
  "vault_put key_id row v = v\<lparr>va_keys := filter (\<lambda>(i, _, _). i \<noteq> key_id) (va_keys v) @ [(key_id, row)]\<rparr>"

definition vault_del :: "string \<Rightarrow> vault \<Rightarrow> vault" where
  "vault_del key_id v = v\<lparr>va_keys := filter (\<lambda>(i, _, _). i \<noteq> key_id) (va_keys v)\<rparr>"

lemma map_of_filter_key: "map_of (filter (\<lambda>(i, _, _). i \<noteq> k) keys) = (map_of keys)(k := None)"
  by (induction keys) (auto simp: fun_eq_iff)

lemma find_key_row:
  "find (\<lambda>(i, _, _). as_bytes i = as_bytes k) keys = map_option (\<lambda>(kp, sk). (k, kp, sk)) (key_row_of keys k)"
  by (induction keys) (auto simp: key_row_of_def)

interpretation vault: keyed_store vault_get vault_put vault_del "\<lambda>_. True"
  by unfold_locales
    (auto simp: vault_get_def vault_put_def vault_del_def key_row_of_def map_of_filter_key fun_eq_iff map_add_def
      split: option.splits)

lemma vault_import_put:
  "\<not> va_poisoned v \<Longrightarrow> pr_b64_decode P sk64 = Inr sk \<Longrightarrow>
    vault_import_key P k pk sk64 v
      = (Ok (), vault_put k (\<lparr>kp_public_key = pk, kp_secret_key = sk64\<rparr>, sk) v)"
  by (simp add: vault_import_key_def vault_lock_def vault_put_def)

lemma vault_remove_del:
  "\<not> va_poisoned v \<Longrightarrow> vault_remove_keypair k v = (Ok (), vault_del k v)"
  by (simp add: vault_remove_keypair_def vault_lock_def vault_del_def)

section \<open>Runs of the vault\<close>

datatype vault_op =
    VGenerate bytes string | VStore bytes bytes nat bytes bytes | VRetrieve nat bytes ciphertext
  | VList | VRemove string | VExport | VImport string string string

fun vault_exec :: "primitives \<Rightarrow> vault \<Rightarrow> vault_op \<Rightarrow> vault" where
  "vault_exec P v (VGenerate seed k) = snd (vault_generate_keypair P seed k v)"
| "vault_exec P v (VStore seed nonce t k x) = snd (vault_store P seed nonce t k x v)"
| "vault_exec P v (VRetrieve t k ct) = snd (vault_retrieve P t k ct v)"
| "vault_exec P v VList = snd (vault_list_keypairs v)"
| "vault_exec P v (VRemove k) = snd (vault_remove_keypair k v)"
| "vault_exec P v VExport = snd (vault_export_keys v)"
| "vault_exec P v (VImport k pk sk) = snd (vault_import_key P k pk sk v)"

definition vault_run :: "primitives \<Rightarrow> vault_op list \<Rightarrow> vault \<Rightarrow> vault" where
  "vault_run P ops v = foldl (vault_exec P) v ops"

fun replaces_key :: "string \<Rightarrow> vault_op \<Rightarrow> bool" where
  "replaces_key k (VRemove i) = (i = k)"
| "replaces_key k (VImport i pk sk) = (i = k)"
| "replaces_key k _ = False"

lemma vault_lock_keys:
  "va_keys (snd (vault_lock body v)) = (if va_poisoned v then va_keys v else snd (body (va_keys v)))"
  by (auto simp: vault_lock_def split: prod.splits outcome.splits)

lemma vault_lock_poisoned: "va_poisoned v \<Longrightarrow> vault_lock body v = (Panic ''PoisonError'', v)"
  by (simp add: vault_lock_def)

text \<open>The effect of a call on the key list: it appends at most one row, unless it replaces a key.\<close>

lemma vault_exec_keys:
  "vault_exec P v op = v' \<Longrightarrow>
    (\<exists>rows. va_keys v' = va_keys v @ rows) \<or>
    (\<exists>i. replaces_key i op \<and> (\<exists>rows. va_keys v' = filter (\<lambda>(j, _, _). j \<noteq> i) (va_keys v) @ rows \<and>
       fst ` set rows \<subseteq> {i}))"
  by (cases op)
    (auto simp: vault_generate_keypair_def vault_store_def vault_retrieve_def vault_list_keypairs_def
      vault_remove_keypair_def vault_export_keys_def vault_import_key_def keygen_def vault_lock_def
      split: option.splits outcome.splits prod.splits sum.splits if_splits)

lemma vault_get_exec:
  assumes "vault_get v k = Some row" "\<not> replaces_key k op"
  shows "vault_get (vault_exec P v op) k = Some row"
proof -
  consider (app) rows where "va_keys (vault_exec P v op) = va_keys v @ rows"
    | (rep) i rows where "replaces_key i op" "fst ` set rows \<subseteq> {i}"
      "va_keys (vault_exec P v op) = filter (\<lambda>(j, _, _). j \<noteq> i) (va_keys v) @ rows"
    using vault_exec_keys [OF refl, of P v op] by blast
  then show ?thesis
  proof cases
    case app
    then show ?thesis
      using assms(1) by (simp add: vault_get_def key_row_of_def map_add_Some_iff map_of_append map_add_def
          split: option.splits)
  next
    case rep
    then have "i \<noteq> k"
      using assms(2) by auto
    moreover have "map_of rows k = None"
      using rep(2) \<open>i \<noteq> k\<close> by (auto simp: map_of_eq_None_iff)
    ultimately show ?thesis
      using assms(1) rep(3) by (simp add: vault_get_def key_row_of_def map_of_filter_key map_add_def)
  qed
qed

lemma vault_get_run:
  assumes "vault_get v k = Some row" "list_all (\<lambda>op. \<not> replaces_key k op) ops"
  shows "vault_get (vault_run P ops v) k = Some row"
  using assms unfolding vault_run_def by (induction ops arbitrary: v) (auto intro: vault_get_exec)

lemma vault_lock_Ok:
  "vault_lock body v = (Ok r, v') \<Longrightarrow> \<not> va_poisoned v \<and> body (va_keys v) = (Ok r, va_keys v') \<and> \<not> va_poisoned v'"
  by (auto simp: vault_lock_def split: if_splits prod.splits outcome.splits)

lemma vault_store_key:
  assumes "vault_store P seed nonce t k x v = (Ok ct, v')"
  shows "\<exists>kp sk. vault_get v' (bytes_to_string k) = Some (kp, sk) \<and> hybrid_encrypt P nonce t x sk = (Ok ct :: (vault_error, ciphertext) outcome)"
proof -
  obtain ks where ks: "from_utf8 k = Some ks"
    using assms by (auto simp: vault_store_def split: option.splits)
  then have ks': "ks = bytes_to_string k"
    by (auto simp: from_utf8_def split: if_splits)
  obtain sk where l: "vault_lock (\<lambda>keys. case key_row_of keys ks of
        Some (kp, stored_sk) \<Rightarrow> (Ok stored_sk, keys)
      | None \<Rightarrow> (let (kp, sk) = keygen P seed in (Ok sk, keys @ [(ks, kp, sk)]))) v
      = (Ok sk :: (vault_error, bytes) outcome, v')"
    and e: "hybrid_encrypt P nonce t x sk = (Ok ct :: (vault_error, ciphertext) outcome)"
    using assms ks by (auto simp: vault_store_def split: prod.splits outcome.splits)
  have "\<exists>kp. map_of (va_keys v') ks = Some (kp, sk)"
  proof (cases "key_row_of (va_keys v) ks")
    case None
    then have "sk = seed" "va_keys v' = va_keys v @ [(ks, fst (keygen P seed), seed)]"
      using vault_lock_Ok [OF l] by (auto simp: keygen_def)
    then show ?thesis
      using None by (simp add: key_row_of_def map_add_def)
  next
    case (Some row)
    then have "va_keys v' = va_keys v" "snd row = sk"
      using vault_lock_Ok [OF l] by (auto split: prod.splits)
    then show ?thesis
      using Some by (cases row) (simp add: key_row_of_def)
  qed
  then have "\<exists>kp. vault_get v' ks = Some (kp, sk)"
    by (simp add: vault_get_def key_row_of_def)
  then show ?thesis
    using e ks' by blast
qed

lemma hybrid_encrypt_any:
  "hybrid_encrypt P nonce t x sk = (Ok ct :: ('e, ciphertext) outcome) \<Longrightarrow>
    hybrid_encrypt P nonce t x sk = (Ok ct :: ('f, ciphertext) outcome)"
  by (auto simp: hybrid_encrypt_def split: option.splits if_splits)

lemma store_retrieve_core:
  assumes "lawful_base64 P" "lawful_aes P" "length nonce = 12" "t' \<le> 200"
    and "vault_store P seed nonce t k x v = (Ok ct, v1)"
    and "list_all (\<lambda>op. \<not> replaces_key (bytes_to_string k) op) ops"
    and "v2 = vault_run P ops v1" "\<not> va_poisoned v2"
  shows "vault_retrieve P t' k ct v2 = (Ok x, v2)"
proof -
  obtain kp sk where g: "vault_get v1 (bytes_to_string k) = Some (kp, sk)"
    and e: "hybrid_encrypt P nonce t x sk = (Ok ct :: (vault_error, ciphertext) outcome)"
    using vault_store_key [OF assms(5)] by blast
  have "key_row_of (va_keys v2) (bytes_to_string k) = Some (kp, sk)"
    using vault_get_run [OF g assms(6)] assms(7) by (simp add: vault_get_def)
  then have "find (\<lambda>(i, _, _). as_bytes i = k) (va_keys v2) = Some (bytes_to_string k, kp, sk)"
    using find_key_row [of "bytes_to_string k" "va_keys v2"] by simp
  moreover have "hybrid_decrypt P t' ct sk = Ok x"
    using hybrid_decrypt_encrypt [OF assms(1-4) hybrid_encrypt_any [OF e]] .
  ultimately show ?thesis
    using assms(8) by (simp add: vault_retrieve_def vault_lock_def)
qed

text \<open>
  C5. What is stored is what is retrieved.  If \<open>store\<close> of a plaintext under a key identifier
  succeeds (finding the key or generating it), then after any further calls that neither remove nor
  import that identifier, and as long as no call has panicked inside the lock, \<open>retrieve\<close> with the
  ciphertext, if it takes no more than the 200 ms of the watchdog, returns the plaintext; generating further pairs under the same identifier does not
  disturb it.
\<close>

theorem store_retrieve:
  assumes "lawful_base64 P" "lawful_aes P" "length nonce = 12" "t' \<le> 200"
    and "vault_store P seed nonce t k x v = (Ok ct, v1)"
    and "list_all (\<lambda>op. \<not> replaces_key (bytes_to_string k) op) ops"
    and "v2 = vault_run P ops v1" "\<not> va_poisoned v2"
  shows "vault_retrieve P t' k ct v2 = (Ok x, v2)"
  by (rule store_retrieve_core [OF assms(1-6,7,8)])

definition plain_primitives :: primitives where
  "plain_primitives =
     \<lparr>pr_b64_encode = bytes_to_string, pr_b64_decode = (\<lambda>s. Inr (as_bytes s)),
      pr_ek_of_seed = (\<lambda>s. replicate 1568 (hd s)), pr_ek_valid = (\<lambda>_. True),
      pr_encaps = (\<lambda>ek m. (replicate 1568 1, [hd ek])), pr_decaps = (\<lambda>seed ct. [hd seed]),
      pr_hkdf = (\<lambda>_ ikm _ n. take n ikm), pr_aes_encrypt = (\<lambda>k n x. Some (k @ x)),
      pr_aes_decrypt = (\<lambda>k n c. if take (length k) c = k then Inr (drop (length k) c) else Inl ''aead::Error'')\<rparr>"

lemma plain_lawful: "lawful_base64 plain_primitives" "lawful_aes plain_primitives"
  by (simp_all add: lawful_base64_def lawful_aes_def plain_primitives_def)

theorem store_retrieve_witness:
  "fst (vault_retrieve plain_primitives 3 [107] \<lparr>ct_nonce = bytes_to_string (replicate 12 0),
      ct_ciphertext = bytes_to_string ([5, 6] @ [1, 2]), ct_key_id = []\<rparr>
      (vault_run plain_primitives [VGenerate [9, 9] (bytes_to_string [107]), VRemove ''other'', VList]
        (snd (vault_store plain_primitives [5, 6] (replicate 12 0) 0 [107] [1, 2] vault_new)))) = Ok [1, 2]"
proof -
  have u: "utf8_valid [107]"
    by (rule utf8_valid_ascii) simp
  have "vault_store plain_primitives [5, 6] (replicate 12 0) 0 [107] [1, 2] vault_new =
    (Ok \<lparr>ct_nonce = bytes_to_string (replicate 12 0), ct_ciphertext = bytes_to_string ([5, 6] @ [1, 2]),
        ct_key_id = []\<rparr>,
     snd (vault_store plain_primitives [5, 6] (replicate 12 0) 0 [107] [1, 2] vault_new))"
    by (simp add: vault_store_def vault_new_def from_utf8_def u vault_lock_def key_row_of_def keygen_def
        hybrid_encrypt_def plain_primitives_def aes_key_def HANDSHAKE_TIMEOUT_MS_def)
  from store_retrieve [OF plain_lawful _ _ this _ refl, where t' = 3 and
      ops = "[VGenerate [9, 9] (bytes_to_string [107]), VRemove ''other'', VList]"] show ?thesis
    by (simp add: bytes_to_string_def vault_run_def vault_generate_keypair_def vault_lock_def keygen_def
        vault_remove_keypair_def vault_list_keypairs_def vault_store_def vault_new_def from_utf8_def u key_row_of_def)
qed

section \<open>A bad nonce\<close>

lemma vault_poison_exec: "va_poisoned v \<Longrightarrow> va_poisoned (vault_exec P v op)"
  by (cases op)
    (auto simp: vault_generate_keypair_def vault_store_def vault_retrieve_def vault_list_keypairs_def
      vault_remove_keypair_def vault_export_keys_def vault_import_key_def keygen_def vault_lock_poisoned
      split: option.splits sum.splits)

lemma vault_poison_run: "va_poisoned v \<Longrightarrow> va_poisoned (vault_run P ops v)"
  unfolding vault_run_def by (induction ops arbitrary: v) (auto intro: vault_poison_exec)

lemma short_nonce_panics:
  assumes "pr_b64_decode P (ct_nonce ct) = Inr nonce" "length nonce \<noteq> 12"
    and "vault_get v k = Some row" "\<not> va_poisoned v"
    and "v1 = vault_run P ops (snd (vault_retrieve P t (as_bytes k) ct v))"
  shows "(\<exists>m. fst (vault_retrieve P t (as_bytes k) ct v) = Panic m) \<and>
    fst (vault_list_keypairs v1) = Panic ''PoisonError'' \<and>
    fst (vault_remove_keypair k' v1) = Panic ''PoisonError'' \<and>
    fst (vault_retrieve P t' k'' ct' v1) = Panic ''PoisonError'' \<and>
    fst (vault_generate_keypair P seed k' v1) = Panic ''PoisonError''"
proof -
  obtain kp sk where "row = (kp, sk)" by (cases row)
  then have "find (\<lambda>(i, _, _). as_bytes i = as_bytes k) (va_keys v) = Some (k, kp, sk)"
    using assms(3) by (simp only: find_key_row) (simp add: vault_get_def)
  then have r: "vault_retrieve P t (as_bytes k) ct v =
      (Panic ''assertion failed: nonce length'', \<lparr>va_keys = va_keys v, va_poisoned = True\<rparr>)"
    using assms(1,2,4) by (simp add: vault_retrieve_def vault_lock_def hybrid_decrypt_def)
  then have "va_poisoned v1"
    using assms(5) vault_poison_run by simp
  then show ?thesis
    using r by (simp add: vault_list_keypairs_def vault_remove_keypair_def vault_retrieve_def
        vault_generate_keypair_def keygen_def vault_lock_poisoned)
qed

text \<open>
  One malformed ciphertext disables the vault.  If the nonce of a ciphertext decodes to anything
  but 12 bytes, \<open>retrieve\<close> under any existing key does not return an error: it panics while holding
  the lock, and after it every call that touches the keys (retrieving, listing, removing, generating)
  panics too, whatever was called in between.
\<close>

theorem short_nonce_poisons_vault:
  assumes "pr_b64_decode P (ct_nonce ct) = Inr nonce" "length nonce \<noteq> 12"
    and "vault_get v k = Some row" "\<not> va_poisoned v"
    and "v1 = vault_run P ops (snd (vault_retrieve P t (as_bytes k) ct v))"
  shows "(\<exists>m. fst (vault_retrieve P t (as_bytes k) ct v) = Panic m) \<and>
    fst (vault_list_keypairs v1) = Panic ''PoisonError'' \<and>
    fst (vault_remove_keypair k' v1) = Panic ''PoisonError'' \<and>
    fst (vault_retrieve P t' k'' ct' v1) = Panic ''PoisonError'' \<and>
    fst (vault_generate_keypair P seed k' v1) = Panic ''PoisonError''"
  by (rule short_nonce_panics [OF assms])

theorem short_nonce_poisons_vault_witness:
  "fst (vault_list_keypairs (vault_run plain_primitives [VList]
     (snd (vault_retrieve plain_primitives 0 (as_bytes ''k'') \<lparr>ct_nonce = [], ct_ciphertext = [], ct_key_id = []\<rparr>
       \<lparr>va_keys = [(''k'', \<lparr>kp_public_key = [], kp_secret_key = []\<rparr>, [1])], va_poisoned = False\<rparr>))))
   = Panic ''PoisonError''"
  using short_nonce_poisons_vault [where P = plain_primitives and k = "''k''" and ops = "[VList]" and t = 0 and
      ct = "\<lparr>ct_nonce = [], ct_ciphertext = [], ct_key_id = []\<rparr>" and nonce = "[]" and
      v = "\<lparr>va_keys = [(''k'', \<lparr>kp_public_key = [], kp_secret_key = []\<rparr>, [1])], va_poisoned = False\<rparr>", OF _ _ _ _ refl]
  by (simp add: plain_primitives_def vault_get_def key_row_of_def)

end
