(* ===== verification/Ml_Dsa.thy ===== *)
theory Ml_Dsa
  imports Utf8
begin

text \<open>
  \<open>src/ml_dsa.rs\<close> and \<open>src/performance/batch_ops.rs\<close>: ML-DSA-65 signatures, one by one and in
  batches.  The crates \<open>fips204\<close>, \<open>sha3\<close>, \<open>base64\<close> and \<open>serde_json\<close> are the fields of a record
  of functions; randomness is an argument.
\<close>

section \<open>Third-party functions\<close>

record dsa_crates =
  dc_keygen :: "bytes \<Rightarrow> string + bytes \<times> bytes"
  dc_sk_check :: "bytes \<Rightarrow> string option"
  dc_pk_check :: "bytes \<Rightarrow> string option"
  dc_sign :: "bytes \<Rightarrow> bytes \<Rightarrow> bytes \<Rightarrow> string + bytes"
  dc_verify :: "bytes \<Rightarrow> bytes \<Rightarrow> bytes \<Rightarrow> bool"
  dc_sha3_512 :: "bytes \<Rightarrow> bytes"
  dc_b64_encode :: "bytes \<Rightarrow> string"
  dc_b64_decode :: "string \<Rightarrow> string + bytes"
  dc_json_object :: "(string \<times> string) list \<Rightarrow> string"
  dc_json_parse :: "string \<Rightarrow> string + (string \<Rightarrow> string option)"

text \<open>Documented behaviour: keys and signatures have the sizes of FIPS 204 for ML-DSA-65, generated
  keys are accepted, and a signature verifies under the matching key; base64 and JSON are read back.\<close>

definition lawful_dsa :: "dsa_crates \<Rightarrow> bool" where
  "lawful_dsa D = (\<forall>r pk sk. dc_keygen D r = Inr (pk, sk) \<longrightarrow>
     length pk = 1952 \<and> length sk = 4032 \<and> dc_pk_check D pk = None \<and> dc_sk_check D sk = None \<and>
     (\<forall>m r'. \<exists>sig. dc_sign D sk m r' = Inr sig \<and> length sig = 3309 \<and> dc_verify D pk m sig))"

definition lawful_dsa_text :: "dsa_crates \<Rightarrow> bool" where
  "lawful_dsa_text D =
     ((\<forall>x. dc_b64_decode D (dc_b64_encode D x) = Inr x) \<and>
      (\<forall>a b. let fields = [(''signing_key'', a), (''verifying_key'', b)]
             in dc_json_parse D (dc_json_object D fields) = Inr (map_of fields)))"

section \<open>Signatures\<close>

datatype mldsa_error =
    KeyGenFailed string | SigningFailed string | MldsaVerificationFailed | DeserializationFailed string

record mldsa_keypair =
  mk_signing_key :: bytes
  mk_verifying_key :: bytes

definition mldsa_generate_keypair :: "dsa_crates \<Rightarrow> bytes \<Rightarrow> mldsa_error + mldsa_keypair" where
  "mldsa_generate_keypair D rnd =
     (case dc_keygen D rnd of
        Inl e \<Rightarrow> Inl (KeyGenFailed e)
      | Inr (pk, sk) \<Rightarrow> Inr \<lparr>mk_signing_key = sk, mk_verifying_key = pk\<rparr>)"

definition mldsa_sign :: "dsa_crates \<Rightarrow> bytes \<Rightarrow> bytes \<Rightarrow> bytes \<Rightarrow> mldsa_error + bytes" where
  "mldsa_sign D rnd message signing_key =
     (if length signing_key \<noteq> 4032 then Inl (DeserializationFailed ''Invalid signing key length'')
      else case dc_sk_check D signing_key of
        Some e \<Rightarrow> Inl (DeserializationFailed e)
      | None \<Rightarrow>
          (case dc_sign D signing_key message rnd of
             Inl e \<Rightarrow> Inl (SigningFailed e)
           | Inr sig \<Rightarrow> Inr sig))"

definition mldsa_verify :: "dsa_crates \<Rightarrow> bytes \<Rightarrow> bytes \<Rightarrow> bytes \<Rightarrow> mldsa_error + bool" where
  "mldsa_verify D message sig verifying_key =
     (if length verifying_key \<noteq> 1952 then Inl (DeserializationFailed ''Invalid verifying key length'')
      else case dc_pk_check D verifying_key of
        Some e \<Rightarrow> Inl (DeserializationFailed e)
      | None \<Rightarrow>
          if length sig \<noteq> 3309 then Inl (DeserializationFailed ''Invalid signature length'')
          else Inr (dc_verify D verifying_key message sig))"

definition hash_data :: "dsa_crates \<Rightarrow> bytes \<Rightarrow> bytes" where
  "hash_data D message = dc_sha3_512 D message"

definition serialize_keypair :: "dsa_crates \<Rightarrow> mldsa_keypair \<Rightarrow> string" where
  "serialize_keypair D kp =
     dc_json_object D [(''signing_key'', dc_b64_encode D (mk_signing_key kp)),
                       (''verifying_key'', dc_b64_encode D (mk_verifying_key kp))]"

definition deserialize_keypair :: "dsa_crates \<Rightarrow> string \<Rightarrow> mldsa_error + mldsa_keypair" where
  "deserialize_keypair D json =
     (case dc_json_parse D json of
        Inl e \<Rightarrow> Inl (DeserializationFailed e)
      | Inr parsed \<Rightarrow>
          (case parsed ''signing_key'' of
             None \<Rightarrow> Inl (DeserializationFailed ''Missing signing_key'')
           | Some sk_b64 \<Rightarrow>
               (case parsed ''verifying_key'' of
                  None \<Rightarrow> Inl (DeserializationFailed ''Missing verifying_key'')
                | Some vk_b64 \<Rightarrow>
                    (case dc_b64_decode D sk_b64 of
                       Inl e \<Rightarrow> Inl (DeserializationFailed e)
                     | Inr sk \<Rightarrow>
                         (case dc_b64_decode D vk_b64 of
                            Inl e \<Rightarrow> Inl (DeserializationFailed e)
                          | Inr vk \<Rightarrow> Inr \<lparr>mk_signing_key = sk, mk_verifying_key = vk\<rparr>)))))"

section \<open>Batches\<close>

datatype batch_ops_error = EmptyBatch | BatchMldsaError string

record verify_request =
  vr_message :: bytes
  vr_signature :: bytes
  vr_verifying_key :: bytes

record batch_verify_result =
  bv_total :: nat
  bv_passed :: nat
  bv_failed :: nat
  bv_results :: "bool list"

record sign_request =
  sr_message :: bytes
  sr_signing_key :: bytes

record batch_sign_result =
  bs_total :: nat
  bs_succeeded :: nat
  bs_failed :: nat
  bs_signatures :: "bytes option list"

definition all_passed :: "batch_verify_result \<Rightarrow> bool" where
  "all_passed r = (bv_failed r = 0)"

definition all_succeeded :: "batch_sign_result \<Rightarrow> bool" where
  "all_succeeded r = (bs_failed r = 0)"

text \<open>\<open>verify(..).unwrap_or(false)\<close>.\<close>

definition verify_request_ok :: "dsa_crates \<Rightarrow> verify_request \<Rightarrow> bool" where
  "verify_request_ok D req =
     (case mldsa_verify D (vr_message req) (vr_signature req) (vr_verifying_key req) of
        Inl e \<Rightarrow> False | Inr valid \<Rightarrow> valid)"

definition batch_verify :: "dsa_crates \<Rightarrow> verify_request list \<Rightarrow> batch_ops_error + batch_verify_result" where
  "batch_verify D requests =
     (if requests = [] then Inl EmptyBatch
      else
        let results = map (verify_request_ok D) requests;
            passed = length (filter (\<lambda>v. v) results);
            total = length results
        in Inr \<lparr>bv_total = total, bv_passed = passed, bv_failed = total - passed, bv_results = results\<rparr>)"

definition batch_sign ::
  "dsa_crates \<Rightarrow> (nat \<Rightarrow> bytes) \<Rightarrow> sign_request list \<Rightarrow> batch_ops_error + batch_sign_result" where
  "batch_sign D rnd requests =
     (if requests = [] then Inl EmptyBatch
      else
        let signatures = map (\<lambda>(i, req).
              case mldsa_sign D (rnd i) (sr_message req) (sr_signing_key req) of
                Inl e \<Rightarrow> None | Inr sig \<Rightarrow> Some sig) (enumerate 0 requests);
            succeeded = length (filter (\<lambda>s. s \<noteq> None) signatures);
            total = length signatures
        in Inr \<lparr>bs_total = total, bs_succeeded = succeeded, bs_failed = total - succeeded,
                bs_signatures = signatures\<rparr>)"

section \<open>Properties\<close>

text \<open>
  A key pair written as JSON and read back is the same key pair, given that base64 and JSON are
  read back.
\<close>

theorem keypair_json_roundtrip:
  assumes "lawful_dsa_text D"
  shows "deserialize_keypair D (serialize_keypair D kp) = Inr kp"
  using assms by (simp add: lawful_dsa_text_def deserialize_keypair_def serialize_keypair_def Let_def)

text \<open>An instance: an object of two fields is the length of the first in unary, then both.\<close>

definition toy_object :: "(string \<times> string) list \<Rightarrow> string" where
  "toy_object fs =
     (let a = snd (fs ! 0); b = snd (fs ! 1) in replicate (length a) CHR ''l'' @ CHR '':'' # a @ b)"

definition toy_parse :: "string \<Rightarrow> string + (string \<Rightarrow> string option)" where
  "toy_parse s =
     (let n = length (takeWhile (\<lambda>c. c = CHR ''l'') s); rest = drop (Suc n) s
      in Inr (map_of [(''signing_key'', take n rest), (''verifying_key'', drop n rest)]))"

lemma takeWhile_replicate_sep: "c \<noteq> d \<Longrightarrow> takeWhile (\<lambda>x. x = c) (replicate n c @ d # xs) = replicate n c"
  by (induction n) auto

lemma toy_parse_object:
  "toy_parse (toy_object [(''signing_key'', a), (''verifying_key'', b)]) =
    Inr (map_of [(''signing_key'', a), (''verifying_key'', b)])"
  by (simp add: toy_parse_def toy_object_def takeWhile_replicate_sep Let_def)

definition toy_dsa :: dsa_crates where
  "toy_dsa =
     \<lparr>dc_keygen = (\<lambda>r. Inr (replicate 1952 1, replicate 4032 2)), dc_sk_check = (\<lambda>_. None),
      dc_pk_check = (\<lambda>_. None), dc_sign = (\<lambda>sk m r. Inr (take 3309 (m @ replicate 3309 0))),
      dc_verify = (\<lambda>pk m s. s = take 3309 (m @ replicate 3309 0)), dc_sha3_512 = (\<lambda>m. m),
      dc_b64_encode = bytes_to_string, dc_b64_decode = (\<lambda>s. Inr (as_bytes s)),
      dc_json_object = toy_object, dc_json_parse = toy_parse\<rparr>"

lemma toy_dsa_lawful: "lawful_dsa toy_dsa"
proof -
  have "length (take 3309 (m @ replicate 3309 0)) = 3309" for m :: bytes
    by simp
  then show ?thesis
    unfolding lawful_dsa_def by (simp add: toy_dsa_def del: take_append)
qed

lemma toy_dsa_text: "lawful_dsa_text toy_dsa"
  unfolding lawful_dsa_text_def
  by (simp add: toy_dsa_def toy_parse_object del: map_of.simps)

theorem keypair_json_roundtrip_witness:
  "deserialize_keypair toy_dsa (serialize_keypair toy_dsa \<lparr>mk_signing_key = [1, 2], mk_verifying_key = [3]\<rparr>)
   = Inr \<lparr>mk_signing_key = [1, 2], mk_verifying_key = [3]\<rparr>"
  by (rule keypair_json_roundtrip) (rule toy_dsa_text)

text \<open>The size of a batch result, and its items one by one.\<close>

lemma batch_verify_Inr:
  assumes "batch_verify D requests = Inr r"
  shows "bv_results r = map (verify_request_ok D) requests" "bv_total r = length requests"
    "bv_passed r = length (filter (verify_request_ok D) requests)" "bv_failed r = bv_total r - bv_passed r"
  using assms by (auto simp: batch_verify_def Let_def filter_map comp_def split: if_splits)

lemma batch_sign_Inr:
  assumes "batch_sign D rnd requests = Inr r"
  shows "length (bs_signatures r) = length requests" "bs_total r = length requests"
    "bs_failed r = bs_total r - length (filter (\<lambda>s. s \<noteq> None) (bs_signatures r))"
    "i < length requests \<Longrightarrow> bs_signatures r ! i =
      (case mldsa_sign D (rnd i) (sr_message (requests ! i)) (sr_signing_key (requests ! i)) of
         Inl e \<Rightarrow> None | Inr sig \<Rightarrow> Some sig)"
  using assms by (auto simp: batch_sign_def Let_def nth_enumerate_eq split: if_splits)

lemma filter_full_iff: "length xs - length (filter P xs) = 0 \<longleftrightarrow> list_all P xs"
proof -
  have "length xs - length (filter P xs) = 0 \<longleftrightarrow> length (filter P xs) = length xs"
    using length_filter_le [of P xs] by linarith
  then show ?thesis
    by (metis filter_id_conv length_filter_less list_all_iff nat_neq_iff)
qed

lemma all_passed_iff: "batch_verify D requests = Inr r \<Longrightarrow> all_passed r = list_all (verify_request_ok D) requests"
  by (simp add: all_passed_def batch_verify_Inr filter_full_iff [symmetric])

lemma mldsa_verify_sign:
  assumes "lawful_dsa D" "mldsa_generate_keypair D r = Inr kp"
  shows "\<exists>sig. mldsa_sign D r' m (mk_signing_key kp) = Inr sig \<and>
    mldsa_verify D m sig (mk_verifying_key kp) = Inr True"
proof -
  obtain pk sk where g: "dc_keygen D r = Inr (pk, sk)" "kp = \<lparr>mk_signing_key = sk, mk_verifying_key = pk\<rparr>"
    using assms(2) by (auto simp: mldsa_generate_keypair_def split: sum.splits)
  then obtain sig where "dc_sign D sk m r' = Inr sig" "length sig = 3309" "dc_verify D pk m sig"
    "length pk = 1952" "length sk = 4032" "dc_pk_check D pk = None" "dc_sk_check D sk = None"
    using assms(1) unfolding lawful_dsa_def by blast
  then show ?thesis
    using g by (simp add: mldsa_sign_def mldsa_verify_def)
qed

text \<open>
  Batches are independent of their items: the result of \<open>batch_verify\<close> at each position is the
  verdict of that request alone (an error counts as false), the counts add up, and \<open>all_passed\<close>
  holds exactly when every request verifies; the empty batch is the only error.
\<close>

theorem batch_verify_pointwise:
  "case batch_verify D requests of
     Inl e \<Rightarrow> e = EmptyBatch \<and> requests = []
   | Inr r \<Rightarrow> requests \<noteq> [] \<and> bv_results r = map (verify_request_ok D) requests \<and>
       bv_total r = length requests \<and> bv_passed r + bv_failed r = bv_total r \<and>
       (all_passed r = list_all (verify_request_ok D) requests)"
proof (cases "batch_verify D requests")
  case (Inl e)
  then show ?thesis
    by (auto simp: batch_verify_def Let_def split: if_splits)
next
  case (Inr r)
  then have "requests \<noteq> []"
    by (auto simp: batch_verify_def)
  then show ?thesis
    using Inr batch_verify_Inr [OF Inr] all_passed_iff [OF Inr] length_filter_le [of "verify_request_ok D" requests]
    by simp
qed

text \<open>
  What a batch signs, a batch verifies: messages signed together, each with a key made by
  \<open>generate_keypair\<close>, all succeed, and verifying the signatures with the matching public keys all
  pass, given what FIPS 204 promises of the crate.
\<close>

theorem batch_sign_then_verify:
  assumes "lawful_dsa D" "items \<noteq> []"
    and "list_all (\<lambda>(m, kp). \<exists>r. mldsa_generate_keypair D r = Inr kp) items"
  shows "\<exists>s v. batch_sign D rnd (map (\<lambda>(m, kp). \<lparr>sr_message = m, sr_signing_key = mk_signing_key kp\<rparr>) items) = Inr s \<and>
    all_succeeded s \<and>
    batch_verify D (map (\<lambda>((m, kp), sig). \<lparr>vr_message = m, vr_signature = the sig,
        vr_verifying_key = mk_verifying_key kp\<rparr>) (zip items (bs_signatures s))) = Inr v \<and> all_passed v"
proof -
  let ?reqs = "map (\<lambda>(m, kp). \<lparr>sr_message = m, sr_signing_key = mk_signing_key kp\<rparr>) items"
  obtain s where s: "batch_sign D rnd ?reqs = Inr s"
    using assms(2) by (simp add: batch_sign_def Let_def)
  note bs = batch_sign_Inr [OF s]
  have item: "\<exists>sig. bs_signatures s ! i = Some sig \<and>
      mldsa_verify D (fst (items ! i)) sig (mk_verifying_key (snd (items ! i))) = Inr True"
    if i: "i < length items" for i
  proof -
    obtain m kp where it: "items ! i = (m, kp)" by (cases "items ! i")
    then obtain r where "mldsa_generate_keypair D r = Inr kp"
      using assms(3) i unfolding list_all_length by force
    then show ?thesis
      using mldsa_verify_sign [OF assms(1), of r kp "rnd i" m] bs(4) [of i] i it by auto
  qed
  have "list_all (\<lambda>x. x \<noteq> None) (bs_signatures s)"
    using item bs(1) by (fastforce simp: list_all_length)
  then have "filter (\<lambda>x. x \<noteq> None) (bs_signatures s) = bs_signatures s"
    by (simp add: list_all_iff)
  then have "all_succeeded s"
    using bs(1-3) by (simp add: all_succeeded_def)
  moreover
  let ?vs = "map (\<lambda>((m, kp), sig). \<lparr>vr_message = m, vr_signature = the sig,
        vr_verifying_key = mk_verifying_key kp\<rparr>) (zip items (bs_signatures s))"
  have "list_all (verify_request_ok D) ?vs"
    using item bs(1) by (fastforce simp: list_all_length verify_request_ok_def split: prod.splits)
  moreover have "zip items (bs_signatures s) \<noteq> []"
    using assms(2) bs(1) by (auto simp: zip_eq_Nil_iff)
  then obtain v where "batch_verify D ?vs = Inr v"
    by (simp add: batch_verify_def Let_def)
  moreover from this have "all_passed v = list_all (verify_request_ok D) ?vs"
    by (rule all_passed_iff)
  ultimately show ?thesis
    using s by blast
qed

theorem batch_sign_then_verify_witness:
  "\<exists>s. batch_sign toy_dsa (\<lambda>_. []) [\<lparr>sr_message = [7], sr_signing_key = replicate 4032 2\<rparr>] = Inr s \<and>
    all_succeeded s"
  using batch_sign_then_verify [of toy_dsa
      "[([7], \<lparr>mk_signing_key = replicate 4032 2, mk_verifying_key = replicate 1952 1\<rparr>)]" "\<lambda>_. []"]
    toy_dsa_lawful
  by (auto simp: mldsa_generate_keypair_def toy_dsa_def)

end
