(* ===== verification/Persistent_Vault.thy ===== *)
theory Persistent_Vault
  imports Quantum_Kernel Kdf Ml_Dsa
begin

text \<open>
  \<open>src/persistent_vault.rs\<close>: the encrypted key files.  The disk is the contents of the two files
  and the errors its calls report.  A write that fails may have truncated the file or written a part of
  it: \<open>dk_failed_write\<close> says what is left, from the contents before and the bytes to be written.  \<open>serde_json\<close> on the stored records, Argon2id and the crates of
  the vault and of ML-DSA are parameters; salts, nonces and measured times are arguments.
\<close>

section \<open>Environment and disk\<close>

record stored_key =
  st_key_id :: string
  st_public_key :: string
  st_secret_key :: string

record stored_mldsa_key =
  sm_key_id :: string
  sm_signing_key_b64 :: string
  sm_verifying_key_b64 :: string

record pv_env =
  pe_prims :: primitives
  pe_dsa :: dsa_crates
  pe_argon2 :: argon2id
  pe_keys_to_json :: "stored_key list \<Rightarrow> string + bytes"
  pe_keys_from_json :: "bytes \<Rightarrow> string + stored_key list"
  pe_mldsa_to_json :: "stored_mldsa_key list \<Rightarrow> string + bytes"
  pe_mldsa_from_json :: "bytes \<Rightarrow> string + stored_mldsa_key list"

record disk =
  dk_keys :: "bytes option"
  dk_mldsa :: "bytes option"
  dk_read_error :: "string option"
  dk_write_error :: "string option"
  dk_mkdir_error :: "string option"
  dk_failed_write :: "bytes option \<Rightarrow> bytes \<Rightarrow> bytes option"

text \<open>The two files, as the components of their paths under the home directory or the current one.\<close>

type_synonym path = "string list"

definition VAULT_DIR :: string where "VAULT_DIR = ''.abir_guard''"
definition KEYS_FILE :: string where "KEYS_FILE = ''keys.enc''"
definition MLDSA_KEYS_FILE :: string where "MLDSA_KEYS_FILE = ''mldsa_keys.enc''"

definition get_keys_path :: "path option \<Rightarrow> path" where
  "get_keys_path home_dir = (case home_dir of Some h \<Rightarrow> h | None \<Rightarrow> [''.'']) @ [VAULT_DIR, KEYS_FILE]"

definition get_mldsa_keys_path :: "path option \<Rightarrow> path" where
  "get_mldsa_keys_path home_dir = (case home_dir of Some h \<Rightarrow> h | None \<Rightarrow> [''.'']) @ [VAULT_DIR, MLDSA_KEYS_FILE]"

text \<open>They are two files of one directory, which is why the disk below has two independent contents.\<close>

lemma key_paths_distinct:
  "get_keys_path h \<noteq> get_mldsa_keys_path h'" "butlast (get_keys_path h) = butlast (get_mldsa_keys_path h)"
  by (simp_all add: get_keys_path_def get_mldsa_keys_path_def KEYS_FILE_def MLDSA_KEYS_FILE_def butlast_append)

definition lawful_seal :: "primitives \<Rightarrow> bool" where
  "lawful_seal P = (\<forall>k n x c. pr_aes_encrypt P k n x = Some c \<longrightarrow>
     pr_aes_decrypt P k n c = Inr x \<and> length c = length x + 16)"

definition lawful_keys_json :: "pv_env \<Rightarrow> bool" where
  "lawful_keys_json E = (\<forall>ks. \<exists>payload. pe_keys_to_json E ks = Inr payload \<and> pe_keys_from_json E payload = Inr ks)"

definition lawful_mldsa_json :: "pv_env \<Rightarrow> bool" where
  "lawful_mldsa_json E = (\<forall>ks. \<exists>payload. pe_mldsa_to_json E ks = Inr payload \<and> pe_mldsa_from_json E payload = Inr ks)"

section \<open>Blobs\<close>

definition encrypt_data :: "primitives \<Rightarrow> bytes \<Rightarrow> bytes \<Rightarrow> bytes \<Rightarrow> ('e, bytes) outcome" where
  "encrypt_data P nonce_bytes payload key =
     (case pr_aes_encrypt P key nonce_bytes payload of
        None \<Rightarrow> Panic ''Encryption failed''
      | Some ct \<Rightarrow> Ok (nonce_bytes @ ct))"

definition decrypt_data :: "primitives \<Rightarrow> bytes \<Rightarrow> bytes \<Rightarrow> string + bytes" where
  "decrypt_data P blob key =
     (if length blob < 12 + 16 then Inl ''Encrypted blob too short''
      else case pr_aes_decrypt P key (take 12 blob) (drop 12 blob) of
        Inl e \<Rightarrow> Inl (''Decryption failed: '' @ e)
      | Inr x \<Rightarrow> Inr x)"

text \<open>\<open>salt(16) + nonce(12) + ciphertext + tag(16)\<close>: the reading of a file, shared by its three
  readers.\<close>

definition decrypt_file :: "pv_env \<Rightarrow> string \<Rightarrow> bytes \<Rightarrow> (string, bytes) outcome" where
  "decrypt_file E passphrase blob =
     (if length blob < SALT_LENGTH + 12 + 16 then Err ''Encrypted blob too short''
      else bind_outcome (derive_key_with_salt (pe_argon2 E) (\<lambda>_. []) passphrase (take SALT_LENGTH blob)) (\<lambda>key.
             case decrypt_data (pe_prims E) (drop SALT_LENGTH blob) key of
               Inl e \<Rightarrow> Err e | Inr d \<Rightarrow> Ok d))"

text \<open>The writing of a file: a fresh salt, a fresh nonce.\<close>

definition encrypt_file :: "pv_env \<Rightarrow> bytes \<Rightarrow> bytes \<Rightarrow> string \<Rightarrow> bytes \<Rightarrow> (string, bytes) outcome" where
  "encrypt_file E salt nonce passphrase payload =
     bind_outcome (derive_key (pe_argon2 E) (\<lambda>_. salt) passphrase None) (\<lambda>(key, salt').
       bind_outcome (encrypt_data (pe_prims E) nonce payload key) (\<lambda>encrypted. Ok (salt' @ encrypted)))"

section \<open>The key file\<close>

definition import_stored :: "pv_env \<Rightarrow> vault \<Rightarrow> stored_key \<Rightarrow> vault" where
  "import_stored E v k = snd (vault_import_key (pe_prims E) (st_key_id k) (st_public_key k) (st_secret_key k) v)"

text \<open>The stored keys of the file: \<open>None\<close> where \<open>get_vault\<close> falls back to an empty vault.\<close>

definition read_keys :: "pv_env \<Rightarrow> string \<Rightarrow> disk \<Rightarrow> (string, stored_key list option) outcome" where
  "read_keys E passphrase d =
     (case dk_keys d of
        None \<Rightarrow> Ok None
      | Some blob \<Rightarrow>
          if dk_read_error d \<noteq> None then Ok None
          else (case decrypt_file E passphrase blob of
                  Panic m \<Rightarrow> Panic m
                | Err e \<Rightarrow> Ok None
                | Ok payload \<Rightarrow>
                    (case pe_keys_from_json E payload of Inl e \<Rightarrow> Ok None | Inr stored \<Rightarrow> Ok (Some stored))))"

definition get_vault :: "pv_env \<Rightarrow> string \<Rightarrow> disk \<Rightarrow> (string, vault) outcome" where
  "get_vault E passphrase d =
     bind_outcome (read_keys E passphrase d) (\<lambda>r.
       case r of None \<Rightarrow> Ok vault_new | Some stored \<Rightarrow> Ok (foldl (import_stored E) vault_new stored))"

definition persist :: "pv_env \<Rightarrow> bytes \<Rightarrow> bytes \<Rightarrow> string \<Rightarrow> vault \<Rightarrow> disk \<Rightarrow> (string, unit) outcome \<times> disk" where
  "persist E salt nonce passphrase v d =
     (case fst (vault_export_keys v) of
        Panic m \<Rightarrow> (Panic m, d)
      | Err e \<Rightarrow> (Err e, d)
      | Ok exported \<Rightarrow>
          let stored_keys = map (\<lambda>(i, pk, sk). \<lparr>st_key_id = i, st_public_key = pk, st_secret_key = sk\<rparr>) exported
          in (case pe_keys_to_json E stored_keys of
                Inl e \<Rightarrow> (Ok (), d)
              | Inr payload \<Rightarrow>
                  (case encrypt_file E salt nonce passphrase payload of
                     Panic m \<Rightarrow> (Panic m, d)
                   | Err e \<Rightarrow> (Err e, d)
                   | Ok blob \<Rightarrow>
                       (Ok (), d\<lparr>dk_keys := if dk_write_error d = None then Some blob
                                     else dk_failed_write d (dk_keys d) blob\<rparr>))))"

definition store_encrypted ::
  "pv_env \<Rightarrow> bytes \<Rightarrow> bytes \<Rightarrow> nat \<Rightarrow> bytes \<Rightarrow> bytes \<Rightarrow> string \<Rightarrow> bytes \<Rightarrow> string \<Rightarrow> vault \<Rightarrow> disk
     \<Rightarrow> (vault_error, ciphertext) outcome \<times> vault \<times> disk" where
  "store_encrypted E seed nonce elapsed salt file_nonce key_id plaintext passphrase v d =
     (case vault_store (pe_prims E) seed nonce elapsed (as_bytes key_id) plaintext v of
        (Ok ct, v1) \<Rightarrow>
          (case persist E salt file_nonce passphrase v1 d of
             (Panic m, d1) \<Rightarrow> (Panic m, v1, d1)
           | (_, d1) \<Rightarrow> (Ok ct, v1, d1))
      | (r, v1) \<Rightarrow> (r, v1, d))"

definition load_additional_keys :: "pv_env \<Rightarrow> string \<Rightarrow> disk \<Rightarrow> vault \<Rightarrow> (string, vault) outcome" where
  "load_additional_keys E passphrase d v =
     bind_outcome (read_keys E passphrase d) (\<lambda>r.
       case r of
         None \<Rightarrow> Ok v
       | Some stored \<Rightarrow>
           bind_outcome (fst (vault_list_keypairs v)) (\<lambda>existing.
             Ok (foldl (import_stored E) v (filter (\<lambda>k. st_key_id k \<notin> set existing) stored))))"

definition retrieve_decrypted ::
  "pv_env \<Rightarrow> nat \<Rightarrow> string \<Rightarrow> ciphertext \<Rightarrow> string \<Rightarrow> vault \<Rightarrow> disk
     \<Rightarrow> (string, bytes) outcome \<times> vault" where
  "retrieve_decrypted E elapsed key_id ct passphrase v d =
     (case load_additional_keys E passphrase d v of
        Panic m \<Rightarrow> (Panic m, v)
      | Err e \<Rightarrow> (Err e, v)
      | Ok v1 \<Rightarrow> vault_retrieve (pe_prims E) elapsed (as_bytes key_id) ct v1)"

section \<open>The signing keys\<close>

definition persist_mldsa_keys ::
  "pv_env \<Rightarrow> bytes \<Rightarrow> bytes \<Rightarrow> (string \<times> mldsa_keypair) list \<Rightarrow> string \<Rightarrow> disk \<Rightarrow> (string, unit) outcome \<times> disk" where
  "persist_mldsa_keys E salt nonce keypairs passphrase d =
     (case dk_mkdir_error d of
        Some e \<Rightarrow> (Err e, d)
      | None \<Rightarrow>
          let stored = map (\<lambda>(key_id, kp). \<lparr>sm_key_id = key_id,
                sm_signing_key_b64 = pr_b64_encode (pe_prims E) (mk_signing_key kp),
                sm_verifying_key_b64 = pr_b64_encode (pe_prims E) (mk_verifying_key kp)\<rparr>) keypairs
          in (case pe_mldsa_to_json E stored of
                Inl e \<Rightarrow> (Err e, d)
              | Inr payload \<Rightarrow>
                  (case encrypt_file E salt nonce passphrase payload of
                     Panic m \<Rightarrow> (Panic m, d)
                   | Err e \<Rightarrow> (Err e, d)
                   | Ok blob \<Rightarrow>
                       (case dk_write_error d of
                          Some e \<Rightarrow> (Err e, d\<lparr>dk_mldsa := dk_failed_write d (dk_mldsa d) blob\<rparr>)
                        | None \<Rightarrow> (Ok (), d\<lparr>dk_mldsa := Some blob\<rparr>)))))"

definition decode_stored_mldsa :: "pv_env \<Rightarrow> stored_mldsa_key \<Rightarrow> string + string \<times> mldsa_keypair" where
  "decode_stored_mldsa E sk =
     (case pr_b64_decode (pe_prims E) (sm_signing_key_b64 sk) of
        Inl e \<Rightarrow> Inl e
      | Inr signing_key \<Rightarrow>
          (case pr_b64_decode (pe_prims E) (sm_verifying_key_b64 sk) of
             Inl e \<Rightarrow> Inl e
           | Inr verifying_key \<Rightarrow>
               Inr (sm_key_id sk, \<lparr>mk_signing_key = signing_key, mk_verifying_key = verifying_key\<rparr>)))"

definition load_mldsa_keys :: "pv_env \<Rightarrow> string \<Rightarrow> disk \<Rightarrow> (string, (string \<times> mldsa_keypair) list) outcome" where
  "load_mldsa_keys E passphrase d =
     (case dk_mldsa d of
        None \<Rightarrow> Err ''ML-DSA keys file not found''
      | Some blob \<Rightarrow>
          (case dk_read_error d of
             Some e \<Rightarrow> Err e
           | None \<Rightarrow>
               bind_outcome (decrypt_file E passphrase blob) (\<lambda>payload.
                 case pe_mldsa_from_json E payload of
                   Inl e \<Rightarrow> Err (''Failed to deserialize: '' @ e)
                 | Inr stored \<Rightarrow>
                     (case try_map (decode_stored_mldsa E) stored of Inl e \<Rightarrow> Err e | Inr kps \<Rightarrow> Ok kps))))"

text \<open>\<open>to_string\<close> of the errors of \<open>ml_dsa\<close>.\<close>

fun mldsa_error_text :: "mldsa_error \<Rightarrow> string" where
  "mldsa_error_text (KeyGenFailed s) = ''key generation failed: '' @ s"
| "mldsa_error_text (SigningFailed s) = ''signing failed: '' @ s"
| "mldsa_error_text MldsaVerificationFailed = ''verification failed''"
| "mldsa_error_text (DeserializationFailed s) = ''key deserialization failed: '' @ s"

definition find_mldsa_key :: "string \<Rightarrow> (string \<times> mldsa_keypair) list \<Rightarrow> (string, mldsa_keypair) outcome" where
  "find_mldsa_key key_id keypairs =
     (case find (\<lambda>(i, _). i = key_id) keypairs of
        None \<Rightarrow> Err (''ML-DSA key '' @ [CHR 0x27] @ key_id @ [CHR 0x27] @ '' not found'')
      | Some (_, kp) \<Rightarrow> Ok kp)"

definition sign_with_vault :: "pv_env \<Rightarrow> bytes \<Rightarrow> string \<Rightarrow> bytes \<Rightarrow> string \<Rightarrow> disk \<Rightarrow> (string, bytes) outcome" where
  "sign_with_vault E rnd key_id message passphrase d =
     bind_outcome (load_mldsa_keys E passphrase d) (\<lambda>keypairs.
       bind_outcome (find_mldsa_key key_id keypairs) (\<lambda>kp.
         case mldsa_sign (pe_dsa E) rnd message (mk_signing_key kp) of
           Inl e \<Rightarrow> Err (''Signing failed: '' @ mldsa_error_text e) | Inr sig \<Rightarrow> Ok sig))"

definition verify_with_vault ::
  "pv_env \<Rightarrow> string \<Rightarrow> bytes \<Rightarrow> bytes \<Rightarrow> string \<Rightarrow> disk \<Rightarrow> (string, bool) outcome" where
  "verify_with_vault E key_id message sig passphrase d =
     bind_outcome (load_mldsa_keys E passphrase d) (\<lambda>keypairs.
       bind_outcome (find_mldsa_key key_id keypairs) (\<lambda>kp.
         case mldsa_verify (pe_dsa E) message sig (mk_verifying_key kp) of
           Inl e \<Rightarrow> Err (''Verification failed: '' @ mldsa_error_text e) | Inr valid \<Rightarrow> Ok valid))"

definition list_mldsa_keys :: "pv_env \<Rightarrow> string \<Rightarrow> disk \<Rightarrow> (string, string list) outcome" where
  "list_mldsa_keys E passphrase d =
     bind_outcome (load_mldsa_keys E passphrase d) (\<lambda>keypairs. Ok (map fst keypairs))"

section \<open>Files are read back\<close>

lemma decrypt_encrypt_file:
  assumes "lawful_seal (pe_prims E)" "length salt = 16" "length nonce = 12"
    and "encrypt_file E salt nonce passphrase payload = Ok blob"
  shows "decrypt_file E passphrase blob = Ok payload"
proof -
  obtain key where k: "derive_key (pe_argon2 E) (\<lambda>_. salt) passphrase None = (Ok (key, salt) :: (string, bytes \<times> bytes) outcome)"
    and c: "bind_outcome (encrypt_data (pe_prims E) nonce payload key) (\<lambda>encrypted. Ok (salt @ encrypted)) = (Ok blob :: (string, bytes) outcome)"
    using assms(4) by (auto simp: encrypt_file_def derive_key_def Let_def split: option.splits)
  obtain ct where ct: "pr_aes_encrypt (pe_prims E) key nonce payload = Some ct" "blob = salt @ nonce @ ct"
    using c by (auto simp: encrypt_data_def split: option.splits)
  then have l: "pr_aes_decrypt (pe_prims E) key nonce ct = Inr payload" "length ct = length payload + 16"
    using assms(1) unfolding lawful_seal_def by blast+
  have "derive_key_with_salt (pe_argon2 E) (\<lambda>_. []) passphrase salt = (Ok key :: (string, bytes) outcome)"
    using k by (auto simp: derive_key_with_salt_def derive_key_def Let_def split: option.splits)
  then show ?thesis
    using l ct(2) assms(2,3) by (simp add: decrypt_file_def decrypt_data_def SALT_LENGTH_def)
qed

section \<open>Persisting and reloading the vault\<close>

text \<open>Every row of the vault holds the secret that its base64 text encodes.\<close>

definition row_consistent :: "primitives \<Rightarrow> key_row \<Rightarrow> bool" where
  "row_consistent P row = (case row of (i, kp, sk) \<Rightarrow> pr_b64_decode P (kp_secret_key kp) = Inr sk)"

lemma rows_consistent_exec:
  assumes "lawful_base64 P" "list_all (row_consistent P) (va_keys v)"
  shows "list_all (row_consistent P) (va_keys (vault_exec P v op))"
proof -
  have "list_all (row_consistent P) (filter p (va_keys v))" for p
    using assms(2) by (simp add: list_all_iff)
  then show ?thesis
    using assms lawful_base64D [OF assms(1)]
    by (cases op)
      (auto simp: vault_generate_keypair_def vault_store_def vault_retrieve_def vault_list_keypairs_def
        vault_remove_keypair_def vault_export_keys_def vault_import_key_def keygen_def vault_lock_def
        row_consistent_def split: option.splits outcome.splits prod.splits sum.splits if_splits)
qed

lemma rows_consistent_run:
  "lawful_base64 P \<Longrightarrow> list_all (row_consistent P) (va_keys v) \<Longrightarrow>
    list_all (row_consistent P) (va_keys (vault_run P ops v))"
  unfolding vault_run_def by (induction ops arbitrary: v) (auto intro: rows_consistent_exec)

text \<open>Importing the exported rows puts them into the new vault one after the other.\<close>

definition stored_of :: "key_row \<Rightarrow> stored_key" where
  "stored_of row = (case row of (i, kp, sk) \<Rightarrow>
     \<lparr>st_key_id = i, st_public_key = kp_public_key kp, st_secret_key = kp_secret_key kp\<rparr>)"

lemma import_stored_of:
  assumes "row_consistent (pe_prims E) row" "\<not> va_poisoned v"
  shows "import_stored E v (stored_of row) = vault_put (fst row) (snd row) v"
proof -
  obtain i kp sk where row: "row = (i, kp, sk)" by (cases row)
  then have "pr_b64_decode (pe_prims E) (kp_secret_key kp) = Inr sk"
    using assms(1) by (simp add: row_consistent_def)
  then show ?thesis
    using vault_import_put [OF assms(2)] row by (cases kp) (simp add: import_stored_def stored_of_def)
qed

lemma import_all_stored:
  assumes "list_all (row_consistent (pe_prims E)) rows" "\<not> va_poisoned v"
  shows "foldl (import_stored E) v (map stored_of rows) = foldl (\<lambda>s (k, r). vault_put k r s) v rows"
  using assms
proof (induction rows arbitrary: v)
  case (Cons row rows)
  have "\<not> va_poisoned (vault_put (fst row) (snd row) v)"
    using Cons.prems(2) by (simp add: vault_put_def)
  then show ?case
    using Cons by (simp add: import_stored_of case_prod_beta)
qed simp

lemma export_rows:
  "\<not> va_poisoned v \<Longrightarrow> fst (vault_export_keys v) =
    Ok (map (\<lambda>(i, kp, _). (i, kp_public_key kp, kp_secret_key kp)) (va_keys v))"
  by (simp add: vault_export_keys_def vault_lock_def)

lemma persist_read_rows:
  assumes "lawful_seal (pe_prims E)" "lawful_keys_json E" "length salt = 16" "length nonce = 12"
    and "\<not> va_poisoned v" "persist E salt nonce passphrase v d = (Ok (), d')"
    and "dk_write_error d = None" "dk_read_error d = None"
  shows "read_keys E passphrase d' = Ok (Some (map stored_of (va_keys v)))"
proof -
  obtain payload where j: "pe_keys_to_json E (map stored_of (va_keys v)) = Inr payload"
    "pe_keys_from_json E payload = Inr (map stored_of (va_keys v))"
    using assms(2) unfolding lawful_keys_json_def by blast
  have m: "map (\<lambda>(i, pk, sk). \<lparr>st_key_id = i, st_public_key = pk, st_secret_key = sk\<rparr>)
      (map (\<lambda>(i, kp, _). (i, kp_public_key kp, kp_secret_key kp)) (va_keys v)) = map stored_of (va_keys v)"
    by (simp add: stored_of_def comp_def case_prod_beta)
  then obtain blob where b: "encrypt_file E salt nonce passphrase payload = Ok blob" "d' = d\<lparr>dk_keys := Some blob\<rparr>"
    using assms(6,7) j(1) unfolding persist_def export_rows [OF assms(5)] outcome.case Let_def m
    by (auto split: outcome.splits)
  then show ?thesis
    using decrypt_encrypt_file [OF assms(1,3,4) b(1)] j(2) assms(8) by (simp add: read_keys_def)
qed

lemma persist_reload_rows:
  assumes "lawful_seal (pe_prims E)" "lawful_keys_json E" "length salt = 16" "length nonce = 12"
    and "\<not> va_poisoned v" "list_all (row_consistent (pe_prims E)) (va_keys v)"
    and "persist E salt nonce passphrase v d = (Ok (), d')"
    and "dk_write_error d = None" "dk_read_error d = None"
  shows "get_vault E passphrase d' = Ok (foldl (\<lambda>s (k, r). vault_put k r s) vault_new (va_keys v))"
  using persist_read_rows [OF assms(1-5,7-9)] import_all_stored [OF assms(6), of vault_new]
  by (simp add: get_vault_def vault_new_def)

text \<open>
  C7. Persist and reload.  A vault built by any calls, written to disk and loaded again with the same
  passphrase, answers every lookup with the last row of that identifier; when no identifier occurs
  twice this is the vault that was written, and when a pair was generated again under an identifier in
  use, the vault in memory keeps using the first pair and the reloaded vault uses the last.
\<close>

theorem persist_reload:
  assumes "lawful_base64 (pe_prims E)" "lawful_seal (pe_prims E)" "lawful_keys_json E"
    and "length salt = 16" "length nonce = 12"
    and "v = vault_run (pe_prims E) ops vault_new" "\<not> va_poisoned v"
    and "persist E salt nonce passphrase v d = (Ok (), d')"
    and "dk_write_error d = None" "dk_read_error d = None"
  shows "\<exists>v'. get_vault E passphrase d' = Ok v' \<and> vault_get v' = map_of (rev (va_keys v)) \<and>
    vault_get v = map_of (va_keys v) \<and> (distinct (map fst (va_keys v)) \<longrightarrow> vault_get v' = vault_get v)"
proof -
  have c: "list_all (row_consistent (pe_prims E)) (va_keys v)"
    using rows_consistent_run [OF assms(1), of vault_new ops] assms(6) by (simp add: vault_new_def)
  have e: "vault_get vault_new = Map.empty"
    by (simp add: vault_get_def vault_new_def key_row_of_def fun_eq_iff)
  have m: "vault_get v = map_of (va_keys v)"
    by (simp add: vault_get_def key_row_of_def fun_eq_iff)
  show ?thesis
    using persist_reload_rows [OF assms(2-5,7) c assms(8-10)] m
      vault.get_puts [where s = vault_new and kvs = "va_keys v"]
      vault.get_puts_distinct [where s = vault_new and kvs = "va_keys v"]
    by (simp add: e)
qed

section \<open>An instance of the environment\<close>

text \<open>Strings with their length in unary, three to a record, and the number of records in unary.\<close>

definition put_str :: "string \<Rightarrow> bytes" where
  "put_str s = replicate (length s) 1 @ 0 # as_bytes s"

definition get_str :: "bytes \<Rightarrow> string \<times> bytes" where
  "get_str bs = (let n = length (takeWhile (\<lambda>b. b = 1) bs); rest = drop (Suc n) bs
     in (bytes_to_string (take n rest), drop n rest))"

lemma takeWhile_ones: "takeWhile (\<lambda>b. b = (1 :: u8)) (replicate n 1 @ 0 # xs) = replicate n 1"
  by (induction n) auto

lemma get_put_str [simp]: "get_str (put_str s @ r) = (s, r)"
  by (simp add: get_str_def put_str_def takeWhile_ones Let_def)

fun put_records :: "(string \<times> string \<times> string) list \<Rightarrow> bytes" where
  "put_records [] = [0]"
| "put_records ((a, b, c) # rs) = 1 # put_str a @ put_str b @ put_str c @ put_records rs"

fun get_records :: "nat \<Rightarrow> bytes \<Rightarrow> (string \<times> string \<times> string) list" where
  "get_records 0 bs = []"
| "get_records (Suc fuel) bs =
     (if bs = [] \<or> hd bs = 0 then []
      else let (a, r1) = get_str (tl bs); (b, r2) = get_str r1; (c, r3) = get_str r2
           in (a, b, c) # get_records fuel r3)"

lemma get_put_records: "length rs \<le> fuel \<Longrightarrow> get_records fuel (put_records rs) = rs"
proof (induction rs arbitrary: fuel rule: put_records.induct)
  case 1
  then show ?case by (cases fuel) simp_all
next
  case (2 a b c rs)
  then show ?case by (cases fuel) simp_all
qed

lemma length_put_records: "length rs \<le> length (put_records rs)"
  by (induction rs rule: put_records.induct) simp_all

lemma get_put_records_len: "get_records (length (put_records rs)) (put_records rs) = rs"
  using get_put_records length_put_records by blast

definition demo_prims :: primitives where
  "demo_prims = plain_primitives
     \<lparr>pr_aes_encrypt := (\<lambda>k n x. Some (take 16 (k @ replicate 16 0) @ x)),
      pr_aes_decrypt := (\<lambda>k n c. if take 16 c = take 16 (k @ replicate 16 0) then Inr (drop 16 c)
        else Inl ''aead::Error'')\<rparr>"

definition demo_env :: pv_env where
  "demo_env =
     \<lparr>pe_prims = demo_prims, pe_dsa = toy_dsa, pe_argon2 = (\<lambda>m t p n pw salt. Some (take n (pw @ replicate n 0))),
      pe_keys_to_json = (\<lambda>ks. Inr (put_records (map (\<lambda>k. (st_key_id k, st_public_key k, st_secret_key k)) ks))),
      pe_keys_from_json = (\<lambda>bs. Inr (map (\<lambda>(i, pk, sk). \<lparr>st_key_id = i, st_public_key = pk, st_secret_key = sk\<rparr>)
        (get_records (length bs) bs))),
      pe_mldsa_to_json = (\<lambda>ks. Inr (put_records
        (map (\<lambda>k. (sm_key_id k, sm_signing_key_b64 k, sm_verifying_key_b64 k)) ks))),
      pe_mldsa_from_json = (\<lambda>bs. Inr (map (\<lambda>(i, s, v). \<lparr>sm_key_id = i, sm_signing_key_b64 = s, sm_verifying_key_b64 = v\<rparr>)
        (get_records (length bs) bs)))\<rparr>"

definition empty_disk :: disk where
  "empty_disk = \<lparr>dk_keys = None, dk_mldsa = None, dk_read_error = None, dk_write_error = None, dk_mkdir_error = None,
     dk_failed_write = (\<lambda>old new. Some [])\<rparr>"

lemma demo_seal: "lawful_seal (pe_prims demo_env)"
proof -
  have l: "length (take 16 (k @ replicate 16 0)) = 16" for k :: bytes
    by simp
  have "take 16 (take 16 (k @ replicate 16 0) @ x) = take 16 (k @ replicate 16 0)"
    "drop 16 (take 16 (k @ replicate 16 0) @ x) = x" for k x :: bytes
    using l [of k] by (metis append_eq_conv_conj)+
  then show ?thesis
    using l by (simp add: lawful_seal_def demo_env_def demo_prims_def del: take_append drop_append length_take)
qed

lemma demo_lawful:
  "lawful_base64 (pe_prims demo_env)" "lawful_seal (pe_prims demo_env)" "lawful_keys_json demo_env"
  "lawful_mldsa_json demo_env" "lawful_dsa (pe_dsa demo_env)"
proof -
  show "lawful_base64 (pe_prims demo_env)"
    by (simp add: demo_env_def demo_prims_def plain_primitives_def lawful_base64_def)
  show "lawful_keys_json demo_env" "lawful_mldsa_json demo_env"
    by (simp_all add: lawful_keys_json_def lawful_mldsa_json_def demo_env_def get_put_records_len comp_def map_idI)
  show "lawful_dsa (pe_dsa demo_env)"
    by (simp add: demo_env_def toy_dsa_lawful)
qed (rule demo_seal)

theorem persist_reload_witness:
  "\<exists>v' d'. get_vault demo_env ''pw'' d' = Ok v' \<and> map_option snd (vault_get v' ''k'') = Some [2]"
proof -
  define v where "v = vault_run (pe_prims demo_env) [VGenerate [1] ''k'', VGenerate [2] ''k''] vault_new"
  have v: "va_keys v = [(''k'', keygen demo_prims [1]), (''k'', keygen demo_prims [2])]" "\<not> va_poisoned v"
    by (simp_all add: v_def vault_run_def vault_generate_keypair_def vault_new_def vault_lock_def keygen_def demo_env_def)
  have "\<exists>d'. persist demo_env (replicate 16 0) (replicate 12 0) ''pw'' v empty_disk = (Ok (), d')"
    by (simp add: persist_def export_rows [OF v(2)] demo_env_def encrypt_file_def derive_key_def
        encrypt_data_def demo_prims_def Let_def)
  then obtain d' where "persist demo_env (replicate 16 0) (replicate 12 0) ''pw'' v empty_disk = (Ok (), d')" ..
  from persist_reload [OF demo_lawful(1-3) _ _ v_def v(2) this]
  obtain v' where "get_vault demo_env ''pw'' d' = Ok v'" "vault_get v' = map_of (rev (va_keys v))"
    by (auto simp: empty_disk_def)
  then show ?thesis
    by (intro exI [of _ v'] exI [of _ d']) (simp add: v keygen_def)
qed

section \<open>The signing-key file\<close>

lemma load_persist_mldsa:
  assumes "lawful_base64 (pe_prims E)" "lawful_seal (pe_prims E)" "lawful_mldsa_json E"
    and "length salt = 16" "length nonce = 12" "dk_read_error d = None"
    and "persist_mldsa_keys E salt nonce keypairs passphrase d = (Ok (), d')"
  shows "load_mldsa_keys E passphrase d' = Ok keypairs" "dk_read_error d' = None" "dk_keys d' = dk_keys d"
proof -
  let ?store = "\<lambda>(key_id, kp). \<lparr>sm_key_id = key_id,
     sm_signing_key_b64 = pr_b64_encode (pe_prims E) (mk_signing_key kp),
     sm_verifying_key_b64 = pr_b64_encode (pe_prims E) (mk_verifying_key kp)\<rparr>"
  obtain payload where j: "pe_mldsa_to_json E (map ?store keypairs) = Inr payload"
    "pe_mldsa_from_json E payload = Inr (map ?store keypairs)"
    using assms(3) unfolding lawful_mldsa_json_def by blast
  obtain blob where b: "encrypt_file E salt nonce passphrase payload = Ok blob" "d' = d\<lparr>dk_mldsa := Some blob\<rparr>"
    using assms(7) j(1) unfolding persist_mldsa_keys_def Let_def by (auto split: option.splits outcome.splits)
  have "decode_stored_mldsa E (?store x) = Inr x" for x
    by (cases x) (simp add: decode_stored_mldsa_def lawful_base64D [OF assms(1)])
  then have "try_map (decode_stored_mldsa E) (map ?store keypairs) = Inr (map (\<lambda>x. x) keypairs)"
    by (intro try_map_map)
  then show "load_mldsa_keys E passphrase d' = Ok keypairs"
    using decrypt_encrypt_file [OF assms(2,4,5) b(1)] j(2) b(2) assms(6) by (simp add: load_mldsa_keys_def)
  show "dk_read_error d' = None" "dk_keys d' = dk_keys d"
    using b(2) assms(6) by simp_all
qed

text \<open>
  Signing keys survive the disk.  After \<open>persist_mldsa_keys\<close> of generated key pairs with distinct
  names, the same passphrase loads exactly them, signing with a stored name succeeds and the signature
  verifies under that name, and a name that was not stored is an error.
\<close>

theorem sign_verify_with_vault:
  assumes "lawful_base64 (pe_prims E)" "lawful_seal (pe_prims E)" "lawful_mldsa_json E" "lawful_dsa (pe_dsa E)"
    and "length salt = 16" "length nonce = 12" "dk_read_error d = None"
    and "persist_mldsa_keys E salt nonce keypairs passphrase d = (Ok (), d')"
    and "distinct (map fst keypairs)" "(name, kp) \<in> set keypairs" "mldsa_generate_keypair (pe_dsa E) r = Inr kp"
  shows "list_mldsa_keys E passphrase d' = Ok (map fst keypairs) \<and>
    (\<exists>sig. sign_with_vault E rnd name message passphrase d' = Ok sig \<and>
       verify_with_vault E name message sig passphrase d' = Ok True) \<and>
    (other \<in> fst ` set keypairs \<or> (\<exists>e. sign_with_vault E rnd other message passphrase d' = Err e))"
proof -
  note l = load_persist_mldsa(1) [OF assms(1-3,5-8)]
  have find_map: "find (\<lambda>(i, _). i = n) kps = map_option (\<lambda>x. (n, x)) (map_of kps n)" for n
    and kps :: "(string \<times> mldsa_keypair) list"
    by (induction kps) auto
  have "map_of keypairs name = Some kp"
    using assms(9,10) by simp
  then have f: "find_mldsa_key name keypairs = Ok kp"
    by (simp add: find_mldsa_key_def find_map)
  have o: "other \<in> fst ` set keypairs \<or> (\<exists>e. find_mldsa_key other keypairs = Err e)"
    by (cases "map_of keypairs other") (auto simp: find_mldsa_key_def find_map dest: map_of_SomeD intro: rev_image_eqI)
  show ?thesis
    using mldsa_verify_sign [OF assms(4,11), of rnd message] l f o
    by (auto simp: list_mldsa_keys_def sign_with_vault_def verify_with_vault_def)
qed

text \<open>
  Each write of the signing keys replaces the whole file: after keys are persisted twice (the second
  \<open>mldsa-init\<close> of the command line passes only its own new pair), only the second list is loaded, and
  signing with a name that is only in the first fails.
\<close>

theorem persist_mldsa_replaces:
  assumes "lawful_base64 (pe_prims E)" "lawful_seal (pe_prims E)" "lawful_mldsa_json E"
    and "length salt = 16" "length nonce = 12" "dk_read_error d = None"
    and "persist_mldsa_keys E salt0 nonce0 first passphrase0 d = (Ok (), d1)"
    and "persist_mldsa_keys E salt nonce second passphrase d1 = (Ok (), d2)"
    and "name \<notin> fst ` set second"
  shows "load_mldsa_keys E passphrase d2 = Ok second \<and>
    (\<exists>e. sign_with_vault E rnd name message passphrase d2 = Err e)"
proof -
  have "dk_read_error d1 = None"
    using assms(6,7) by (auto simp: persist_mldsa_keys_def Let_def split: option.splits sum.splits outcome.splits)
  then have l: "load_mldsa_keys E passphrase d2 = Ok second"
    using load_persist_mldsa(1) [OF assms(1-5) _ assms(8)] by simp
  have "find (\<lambda>(i, _). i = name) second = None"
    using assms(9) by (force simp: find_None_iff)
  then show ?thesis
    using l by (simp add: sign_with_vault_def find_mldsa_key_def)
qed

definition demo_pair :: mldsa_keypair where
  "demo_pair = \<lparr>mk_signing_key = replicate 4032 2, mk_verifying_key = replicate 1952 1\<rparr>"

lemma demo_pair_generated: "mldsa_generate_keypair (pe_dsa demo_env) [] = Inr demo_pair"
  by (simp add: mldsa_generate_keypair_def demo_env_def toy_dsa_def demo_pair_def)

lemma demo_persist_mldsa:
  "\<exists>d'. persist_mldsa_keys demo_env (replicate 16 0) (replicate 12 0) kps pw empty_disk = (Ok (), d') \<and>
     dk_mkdir_error d' = None \<and> dk_write_error d' = None"
  by (simp add: persist_mldsa_keys_def demo_env_def encrypt_file_def derive_key_def
        encrypt_data_def demo_prims_def empty_disk_def Let_def)

theorem sign_verify_with_vault_witness:
  "\<exists>d sig. sign_with_vault demo_env [] ''a'' [7, 8] ''pw'' d = Ok sig \<and>
     verify_with_vault demo_env ''a'' [7, 8] sig ''pw'' d = Ok True"
proof -
  obtain d' where "persist_mldsa_keys demo_env (replicate 16 0) (replicate 12 0) [(''a'', demo_pair)] ''pw'' empty_disk
      = (Ok (), d')"
    using demo_persist_mldsa by blast
  note d' = this
  have "\<exists>sig. sign_with_vault demo_env [] ''a'' [7, 8] ''pw'' d' = Ok sig \<and>
     verify_with_vault demo_env ''a'' [7, 8] sig ''pw'' d' = Ok True"
    by (rule sign_verify_with_vault [OF demo_lawful(1,2,4,5) _ _ _ d' _ _ demo_pair_generated,
          THEN conjunct2, THEN conjunct1]) (simp_all add: empty_disk_def)
  then show ?thesis
    by blast
qed

theorem persist_mldsa_replaces_witness:
  "\<exists>d e. sign_with_vault demo_env [] ''a'' [7, 8] ''pw'' d = Err e"
proof -
  obtain d1 where d1: "persist_mldsa_keys demo_env (replicate 16 0) (replicate 12 0) [(''a'', demo_pair)] ''pw'' empty_disk
      = (Ok (), d1)" "dk_mkdir_error d1 = None" "dk_write_error d1 = None"
    using demo_persist_mldsa by blast
  have "\<exists>d2. persist_mldsa_keys demo_env (replicate 16 0) (replicate 12 0) [(''b'', demo_pair)] ''pw'' d1 = (Ok (), d2)"
    using d1(2,3) by (simp add: persist_mldsa_keys_def demo_env_def encrypt_file_def derive_key_def
        encrypt_data_def demo_prims_def Let_def)
  then obtain d2 where d2: "persist_mldsa_keys demo_env (replicate 16 0) (replicate 12 0) [(''b'', demo_pair)] ''pw'' d1
      = (Ok (), d2)" ..
  have "\<exists>e. sign_with_vault demo_env [] ''a'' [7, 8] ''pw'' d2 = Err e"
    by (rule persist_mldsa_replaces [OF demo_lawful(1,2,4) _ _ _ d1(1) d2, THEN conjunct2])
      (simp_all add: empty_disk_def)
  then show ?thesis
    by blast
qed

end
