(* ===== verification/Mcp_Gateway.thy ===== *)
theory Mcp_Gateway
  imports Quantum_Kernel
begin

text \<open>
  \<open>src/mcp_gateway.rs\<close>: the JSON-RPC gateway over an in-memory vault.  A \<open>serde_json\<close> value is a
  parameter type; of the parameters of a request the code only reads string fields, through
  \<open>get_str\<close> (\<open>params.get(k).and_then(as_str)\<close>).  Each \<open>json!\<close> result is a constructor with the
  values it carries; a pair is a JSON array of two strings.
\<close>

section \<open>Model\<close>

record 'j mcp_request =
  rq_jsonrpc :: string
  rq_id :: "'j option"
  rq_method :: string
  rq_params :: 'j

record 'j mcp_error =
  er_code :: int
  er_message :: string
  er_data :: "'j option"

datatype mcp_value =
    GeneratedKey string "string \<times> string"
  | EncryptedData string string string
  | DecryptedText string
  | KeyList "string list"
  | DeletedKey string
  | CacheCleared
  | ServerInfo string string string

record 'j mcp_response =
  rp_jsonrpc :: string
  rp_id :: "'j option"
  rp_result :: "mcp_value option"
  rp_error :: "'j mcp_error option"

definition invalid_request :: "string \<Rightarrow> 'j mcp_error" where
  "invalid_request msg = \<lparr>er_code = - 32600, er_message = msg, er_data = None\<rparr>"

definition method_not_found :: "string \<Rightarrow> 'j mcp_error" where
  "method_not_found m = \<lparr>er_code = - 32601, er_message = ''Method not found: '' @ m, er_data = None\<rparr>"

definition invalid_params :: "string \<Rightarrow> 'j mcp_error" where
  "invalid_params msg = \<lparr>er_code = - 32602, er_message = msg, er_data = None\<rparr>"

definition internal_error :: "string \<Rightarrow> 'j mcp_error" where
  "internal_error msg = \<lparr>er_code = - 32603, er_message = msg, er_data = None\<rparr>"

text \<open>The \<open>Display\<close> text of an error.\<close>

definition mcp_error_text :: "'j mcp_error \<Rightarrow> string" where
  "mcp_error_text e =
     er_message e @ '' (code '' @ (if er_code e < 0 then ''-'' else []) @ dec (nat \<bar>er_code e\<bar>) @ '')''"

record mcp_server =
  sv_vault :: vault
  sv_request_count :: u64

definition mcp_new :: mcp_server where
  "mcp_new = \<lparr>sv_vault = vault_new, sv_request_count = 0\<rparr>"

text \<open>What the crates and the clock supply to one request.\<close>

record call_env =
  ca_seed :: bytes
  ca_nonce :: bytes
  ca_elapsed :: nat
  ca_version :: string

text \<open>A required string parameter: \<open>.ok_or(McpError::invalid_params(..))?\<close>.\<close>

definition required ::
  "('j \<Rightarrow> string \<Rightarrow> string option) \<Rightarrow> 'j mcp_request \<Rightarrow> string
     \<Rightarrow> (string \<Rightarrow> ('j mcp_error, mcp_value) outcome \<times> vault) \<Rightarrow> vault \<Rightarrow> ('j mcp_error, mcp_value) outcome \<times> vault" where
  "required get_str req field body v =
     (case get_str (rq_params req) field of
        None \<Rightarrow> (Err (invalid_params (field @ '' required'')), v)
      | Some s \<Rightarrow> body s)"

fun vault_error_text :: "vault_error \<Rightarrow> string" where
  "vault_error_text (InvalidUtf8 bs) = utf8_error_text bs"
| "vault_error_text (VaultError s) = s"

fun map_err :: "('e \<Rightarrow> 'f) \<Rightarrow> ('e, 'a) outcome \<Rightarrow> ('f, 'a) outcome" where
  "map_err f (Ok x) = Ok x"
| "map_err f (Err e) = Err (f e)"
| "map_err f (Panic m) = Panic m"

fun map_ok :: "('a \<Rightarrow> 'b) \<Rightarrow> ('e, 'a) outcome \<Rightarrow> ('e, 'b) outcome" where
  "map_ok f (Ok x) = Ok (f x)"
| "map_ok f (Err e) = Err e"
| "map_ok f (Panic m) = Panic m"

definition handle_generate_key ::
  "primitives \<Rightarrow> call_env \<Rightarrow> ('j \<Rightarrow> string \<Rightarrow> string option) \<Rightarrow> 'j mcp_request \<Rightarrow> vault
     \<Rightarrow> ('j mcp_error, mcp_value) outcome \<times> vault" where
  "handle_generate_key P C get_str req v =
     required get_str req ''key_id'' (\<lambda>key_id.
       case vault_generate_keypair P (ca_seed C) key_id v of
         (r, v1) \<Rightarrow> (map_ok (GeneratedKey key_id) (map_err internal_error r), v1)) v"

definition handle_encrypt ::
  "primitives \<Rightarrow> call_env \<Rightarrow> ('j \<Rightarrow> string \<Rightarrow> string option) \<Rightarrow> 'j mcp_request \<Rightarrow> vault
     \<Rightarrow> ('j mcp_error, mcp_value) outcome \<times> vault" where
  "handle_encrypt P C get_str req v =
     required get_str req ''key_id'' (\<lambda>key_id.
       required get_str req ''data'' (\<lambda>payload.
         case vault_store P (ca_seed C) (ca_nonce C) (ca_elapsed C) (as_bytes key_id) (as_bytes payload) v of
           (r, v1) \<Rightarrow>
             (map_ok (\<lambda>ct. EncryptedData (ct_nonce ct) (ct_ciphertext ct) (ct_key_id ct))
                (map_err (\<lambda>e. internal_error (vault_error_text e)) r), v1)) v) v"

definition handle_decrypt ::
  "primitives \<Rightarrow> call_env \<Rightarrow> ('j \<Rightarrow> string \<Rightarrow> string option) \<Rightarrow> 'j mcp_request \<Rightarrow> vault
     \<Rightarrow> ('j mcp_error, mcp_value) outcome \<times> vault" where
  "handle_decrypt P C get_str req v =
     required get_str req ''key_id'' (\<lambda>key_id.
       required get_str req ''ciphertext'' (\<lambda>c.
         let ct = \<lparr>ct_nonce = (case get_str (rq_params req) ''nonce'' of Some n \<Rightarrow> n | None \<Rightarrow> []),
                   ct_ciphertext = c, ct_key_id = key_id\<rparr>
         in case vault_retrieve P (ca_elapsed C) (as_bytes key_id) ct v of
              (r, v1) \<Rightarrow> (map_ok (\<lambda>plain. DecryptedText (from_utf8_lossy plain)) (map_err internal_error r), v1)) v) v"

definition handle_list_keys :: "vault \<Rightarrow> ('j mcp_error, mcp_value) outcome \<times> vault" where
  "handle_list_keys v =
     (case vault_list_keypairs v of (r, v1) \<Rightarrow> (map_ok KeyList (map_err internal_error r), v1))"

definition handle_delete_key ::
  "('j \<Rightarrow> string \<Rightarrow> string option) \<Rightarrow> 'j mcp_request \<Rightarrow> vault \<Rightarrow> ('j mcp_error, mcp_value) outcome \<times> vault" where
  "handle_delete_key get_str req v =
     required get_str req ''key_id'' (\<lambda>key_id.
       case vault_remove_keypair key_id v of
         (r, v1) \<Rightarrow> (map_ok (\<lambda>_. DeletedKey key_id) (map_err internal_error r), v1)) v"

definition handle_clear_cache :: "vault \<Rightarrow> ('j mcp_error, mcp_value) outcome \<times> vault" where
  "handle_clear_cache v = (Ok CacheCleared, v)"

definition handle_info :: "call_env \<Rightarrow> vault \<Rightarrow> ('j mcp_error, mcp_value) outcome \<times> vault" where
  "handle_info C v = (Ok (ServerInfo ''Abir-Guard'' (ca_version C) ''1.0''), v)"

definition mcp_dispatch ::
  "primitives \<Rightarrow> call_env \<Rightarrow> ('j \<Rightarrow> string \<Rightarrow> string option) \<Rightarrow> 'j mcp_request \<Rightarrow> vault
     \<Rightarrow> ('j mcp_error, mcp_value) outcome \<times> vault" where
  "mcp_dispatch P C get_str req v =
     (let m = rq_method req
      in if m = ''generate_key'' then handle_generate_key P C get_str req v
         else if m = ''encrypt'' then handle_encrypt P C get_str req v
         else if m = ''decrypt'' then handle_decrypt P C get_str req v
         else if m = ''list_keys'' then handle_list_keys v
         else if m = ''delete_key'' then handle_delete_key get_str req v
         else if m = ''clear_cache'' then handle_clear_cache v
         else if m = ''info'' then handle_info C v
         else (Err (method_not_found m), v))"

definition mcp_handle ::
  "primitives \<Rightarrow> call_env \<Rightarrow> ('j \<Rightarrow> string \<Rightarrow> string option) \<Rightarrow> 'j mcp_request \<Rightarrow> mcp_server
     \<Rightarrow> (unit, 'j mcp_response) outcome \<times> mcp_server" where
  "mcp_handle P C get_str req s =
     (case mcp_dispatch P C get_str req (sv_vault s) of
        (r, v1) \<Rightarrow>
          (let s1 = \<lparr>sv_vault = v1, sv_request_count = sv_request_count s + 1\<rparr>
           in case r of
                Ok val \<Rightarrow> (Ok \<lparr>rp_jsonrpc = ''2.0'', rp_id = rq_id req, rp_result = Some val, rp_error = None\<rparr>, s1)
              | Err e \<Rightarrow> (Ok \<lparr>rp_jsonrpc = ''2.0'', rp_id = rq_id req, rp_result = None, rp_error = Some e\<rparr>, s1)
              | Panic m \<Rightarrow> (Panic m, s1)))"

definition parse_request :: "(string \<Rightarrow> string + 'j mcp_request) \<Rightarrow> string \<Rightarrow> 'j mcp_error + 'j mcp_request" where
  "parse_request from_str line =
     (case from_str line of Inl e \<Rightarrow> Inl (invalid_request e) | Inr r \<Rightarrow> Inr r)"

section \<open>Responses\<close>

lemma map_outcome_cases:
  "map_ok f r = Ok y \<longleftrightarrow> (\<exists>x. r = Ok x \<and> y = f x)"
  "map_ok f r = Err e \<longleftrightarrow> r = Err e"
  "map_err g r' = Ok x \<longleftrightarrow> r' = Ok x"
  "map_err g r' = Err e' \<longleftrightarrow> (\<exists>d. r' = Err d \<and> e' = g d)"
  by (cases r; cases r'; auto)+

lemma dispatch_error_code:
  assumes "mcp_dispatch P C get_str req v = (Err e, v')"
  shows "er_code e \<in> {- 32601, - 32602, - 32603} \<and>
    (er_code e = - 32601 \<longleftrightarrow> rq_method req \<notin> {''generate_key'', ''encrypt'', ''decrypt'', ''list_keys'',
       ''delete_key'', ''clear_cache'', ''info''})"
  using assms
  by (auto simp: mcp_dispatch_def Let_def handle_generate_key_def handle_encrypt_def handle_decrypt_def
      handle_list_keys_def handle_delete_key_def handle_clear_cache_def handle_info_def required_def
      method_not_found_def invalid_params_def internal_error_def map_outcome_cases
      split: if_splits option.splits prod.splits)

text \<open>
  C36. Every request that does not panic is answered once and consistently: the response repeats the
  request's id, carries exactly one of a result and an error, an error code is one of the three the
  gateway uses (-32601 exactly for an unknown method), and the request counter advances by one.
\<close>

theorem mcp_response_well_formed:
  assumes "mcp_handle P C get_str req s = (r, s')"
  shows "sv_request_count s' = sv_request_count s + 1 \<and>
    (case r of
       Panic m \<Rightarrow> True
     | Err e \<Rightarrow> False
     | Ok resp \<Rightarrow> rp_id resp = rq_id req \<and> rp_jsonrpc resp = ''2.0'' \<and>
         (case rp_error resp of
            None \<Rightarrow> rp_result resp \<noteq> None
          | Some e \<Rightarrow> rp_result resp = None \<and> er_code e \<in> {- 32601, - 32602, - 32603} \<and>
              (er_code e = - 32601 \<longleftrightarrow> rq_method req \<notin> {''generate_key'', ''encrypt'', ''decrypt'', ''list_keys'',
                 ''delete_key'', ''clear_cache'', ''info''})))"
proof (cases "mcp_dispatch P C get_str req (sv_vault s)")
  case (Pair d v1)
  then show ?thesis
    using assms dispatch_error_code [of P C get_str req "sv_vault s"]
    by (cases d) (auto simp: mcp_handle_def Let_def)
qed

definition demo_call :: call_env where
  "demo_call = \<lparr>ca_seed = [5, 6], ca_nonce = replicate 12 0, ca_elapsed = 1, ca_version = ''3.2.0''\<rparr>"

theorem mcp_response_well_formed_witness:
  "\<exists>e. fst (mcp_handle plain_primitives demo_call map_of
     \<lparr>rq_jsonrpc = ''2.0'', rq_id = None, rq_method = ''explode'', rq_params = []\<rparr> mcp_new) =
     Ok \<lparr>rp_jsonrpc = ''2.0'', rp_id = None, rp_result = None, rp_error = Some e\<rparr> \<and> er_code e = - 32601"
  using mcp_response_well_formed [of plain_primitives demo_call map_of
      "\<lparr>rq_jsonrpc = ''2.0'', rq_id = None, rq_method = ''explode'', rq_params = []\<rparr>" mcp_new
      "fst (mcp_handle plain_primitives demo_call map_of
        \<lparr>rq_jsonrpc = ''2.0'', rq_id = None, rq_method = ''explode'', rq_params = []\<rparr> mcp_new)"
      "snd (mcp_handle plain_primitives demo_call map_of
        \<lparr>rq_jsonrpc = ''2.0'', rq_id = None, rq_method = ''explode'', rq_params = []\<rparr> mcp_new)"]
  by (simp add: mcp_handle_def mcp_dispatch_def method_not_found_def)

section \<open>The secret key leaves the vault\<close>

text \<open>
  The field \<open>public_key\<close> of the answer to \<open>generate_key\<close> is the pair of both keys: whenever the
  call answers, the second component decodes to the very secret the vault will use under that
  identifier, if the identifier was new.
\<close>

theorem generate_key_leaks_secret:
  assumes "lawful_base64 P" "\<not> va_poisoned (sv_vault s)" "rq_method req = ''generate_key''"
    and "get_str (rq_params req) ''key_id'' = Some key_id" "vault_get (sv_vault s) key_id = None"
    and "mcp_handle P C get_str req s = (r, s')"
  shows "\<exists>resp public secret kp sk. r = Ok resp \<and> rp_result resp = Some (GeneratedKey key_id (public, secret)) \<and>
    vault_get (sv_vault s') key_id = Some (kp, sk) \<and> pr_b64_decode P secret = Inr sk"
proof -
  have "map_of (va_keys (sv_vault s)) key_id = None"
    using assms(5) by (simp add: vault_get_def key_row_of_def)
  then show ?thesis
    using assms(2-4,6) lawful_base64D [OF assms(1)]
    by (auto simp: mcp_handle_def mcp_dispatch_def handle_generate_key_def required_def vault_generate_keypair_def
        keygen_def vault_lock_def vault_get_def key_row_of_def map_add_def Let_def)
qed

theorem generate_key_leaks_secret_witness:
  "\<exists>resp public secret kp sk s'. mcp_handle plain_primitives demo_call map_of
      \<lparr>rq_jsonrpc = ''2.0'', rq_id = None, rq_method = ''generate_key'', rq_params = [(''key_id'', ''k'')]\<rparr> mcp_new
      = (Ok resp, s') \<and> rp_result resp = Some (GeneratedKey ''k'' (public, secret)) \<and>
      vault_get (sv_vault s') ''k'' = Some (kp, sk) \<and> pr_b64_decode plain_primitives secret = Inr sk"
proof -
  let ?req = "\<lparr>rq_jsonrpc = ''2.0'', rq_id = None, rq_method = ''generate_key'', rq_params = [(''key_id'', ''k'')]\<rparr>"
  obtain r s' where h: "mcp_handle plain_primitives demo_call map_of ?req mcp_new = (r, s')"
    by (cases "mcp_handle plain_primitives demo_call map_of ?req mcp_new")
  from generate_key_leaks_secret [OF plain_lawful(1) _ _ _ _ h, of "''k''"] show ?thesis
    using h by (auto simp: mcp_new_def vault_new_def vault_get_def key_row_of_def)
qed

section \<open>Encryption through the gateway\<close>

lemma handle_vault:
  "mcp_handle P C get_str req s = (Ok resp, s') \<Longrightarrow> rp_result resp = Some val \<Longrightarrow>
    mcp_dispatch P C get_str req (sv_vault s) = (Ok val, sv_vault s')"
  by (auto simp: mcp_handle_def Let_def split: prod.splits outcome.splits)

text \<open>
  What the gateway encrypts it decrypts.  If an \<open>encrypt\<close> request is answered with a result, a
  \<open>decrypt\<close> request with the nonce and ciphertext it returned is answered with the same text, for text
  that is well-formed UTF-8, under the laws of the crates.
\<close>

theorem mcp_encrypt_decrypt:
  assumes "lawful_base64 P" "lawful_aes P" "length (ca_nonce C) = 12" "ca_elapsed C' \<le> 200"
    and "utf8_valid (as_bytes txt)"
    and "rq_method req = ''encrypt''" "get_str (rq_params req) ''key_id'' = Some k"
    and "get_str (rq_params req) ''data'' = Some txt"
    and "mcp_handle P C get_str req s = (Ok resp, s1)" "rp_result resp = Some (EncryptedData nonce ct kid)"
    and "rq_method req' = ''decrypt''" "get_str (rq_params req') ''key_id'' = Some k"
    and "get_str (rq_params req') ''ciphertext'' = Some ct" "get_str (rq_params req') ''nonce'' = Some nonce"
  shows "fst (mcp_handle P C' get_str req' s1) =
    Ok \<lparr>rp_jsonrpc = ''2.0'', rp_id = rq_id req', rp_result = Some (DecryptedText txt), rp_error = None\<rparr>"
proof -
  have d: "mcp_dispatch P C get_str req (sv_vault s) = (Ok (EncryptedData nonce ct kid), sv_vault s1)"
    by (rule handle_vault [OF assms(9,10)])
  obtain c where st: "vault_store P (ca_seed C) (ca_nonce C) (ca_elapsed C) (as_bytes k) (as_bytes txt) (sv_vault s)
      = (Ok c, sv_vault s1)" and c: "ct_nonce c = nonce" "ct_ciphertext c = ct"
    using d assms(6-8) by (auto simp: mcp_dispatch_def handle_encrypt_def required_def map_outcome_cases
        split: prod.splits)
  have np: "\<not> va_poisoned (sv_vault s1)"
    using st by (auto simp: vault_store_def split: option.splits prod.splits outcome.splits dest!: vault_lock_Ok)
  have "hybrid_decrypt P t \<lparr>ct_nonce = nonce, ct_ciphertext = ct, ct_key_id = i\<rparr> sk = hybrid_decrypt P t c sk" for t i sk
    unfolding hybrid_decrypt_def c ciphertext.select_convs by (rule refl)
  then have "vault_retrieve P t (as_bytes k) \<lparr>ct_nonce = nonce, ct_ciphertext = ct, ct_key_id = i\<rparr> v =
      vault_retrieve P t (as_bytes k) c v" for t i v
    unfolding vault_retrieve_def by presburger
  moreover have "vault_retrieve P (ca_elapsed C') (as_bytes k) c (sv_vault s1) = (Ok (as_bytes txt), sv_vault s1)"
    using store_retrieve_core [OF assms(1-4) st, of "[]"] np by (simp add: vault_run_def)
  ultimately show ?thesis
    using assms(11-14) from_utf8_lossy_valid [OF assms(5)]
    by (simp add: mcp_handle_def mcp_dispatch_def handle_decrypt_def required_def Let_def)
qed

section \<open>A request without a nonce\<close>

text \<open>
  The requests that reach the keys of the vault: their parameters are complete.  (An identifier of
  \<open>encrypt\<close> is well-formed UTF-8, as every string of the program is.)
\<close>

definition reaches_keys :: "('j \<Rightarrow> string \<Rightarrow> string option) \<Rightarrow> 'j mcp_request \<Rightarrow> bool" where
  "reaches_keys get_str req \<longleftrightarrow>
     (let has = (\<lambda>f. get_str (rq_params req) f \<noteq> None); m = rq_method req
      in m = ''list_keys'' \<or>
         m \<in> {''generate_key'', ''delete_key''} \<and> has ''key_id'' \<or>
         m = ''decrypt'' \<and> has ''key_id'' \<and> has ''ciphertext'' \<or>
         m = ''encrypt'' \<and> has ''data'' \<and>
           (\<exists>k \<in> set_option (get_str (rq_params req) ''key_id''). utf8_valid (as_bytes k)))"

text \<open>The server after further requests, each of which may have panicked.\<close>

definition mcp_after ::
  "primitives \<Rightarrow> ('j \<Rightarrow> string \<Rightarrow> string option) \<Rightarrow> (call_env \<times> 'j mcp_request) list \<Rightarrow> mcp_server \<Rightarrow> mcp_server" where
  "mcp_after P get_str reqs s = foldl (\<lambda>s (C, req). snd (mcp_handle P C get_str req s)) s reqs"

lemmas handler_defs = handle_generate_key_def handle_encrypt_def handle_decrypt_def handle_list_keys_def
  handle_delete_key_def handle_clear_cache_def handle_info_def required_def vault_generate_keypair_def
  vault_store_def vault_retrieve_def vault_list_keypairs_def vault_remove_keypair_def keygen_def

lemma poisoned_dispatch:
  assumes "va_poisoned v"
  shows "snd (mcp_dispatch P C get_str req v) = v"
    and "(\<exists>m. fst (mcp_dispatch P C get_str req v) = Panic m) \<longleftrightarrow> reaches_keys get_str req"
  using assms
  by (auto simp: mcp_dispatch_def handler_defs vault_lock_poisoned reaches_keys_def Let_def from_utf8_def
      split: option.splits)

lemma poisoned_handle:
  assumes "va_poisoned (sv_vault s)"
  shows "sv_vault (snd (mcp_handle P C get_str req s)) = sv_vault s"
    and "(\<exists>m. fst (mcp_handle P C get_str req s) = Panic m) \<longleftrightarrow> reaches_keys get_str req"
  using poisoned_dispatch [OF assms, of P C get_str req]
  by (cases "mcp_dispatch P C get_str req (sv_vault s)";
      cases "fst (mcp_dispatch P C get_str req (sv_vault s))"; simp add: mcp_handle_def Let_def)+

lemma poisoned_after: "va_poisoned (sv_vault s) \<Longrightarrow> sv_vault (mcp_after P get_str reqs s) = sv_vault s"
  unfolding mcp_after_def by (induction reqs arbitrary: s) (auto simp: poisoned_handle)

lemma nonceless_decrypt_poisons:
  assumes "pr_b64_decode P [] = Inr []" "rq_method req = ''decrypt''"
    and "get_str (rq_params req) ''key_id'' = Some k" "get_str (rq_params req) ''ciphertext'' = Some c"
    and "get_str (rq_params req) ''nonce'' = None"
    and "vault_get (sv_vault s) k = Some row" "\<not> va_poisoned (sv_vault s)"
  shows "fst (mcp_handle P C get_str req s) = Panic ''assertion failed: nonce length'' \<and>
    sv_vault (snd (mcp_handle P C get_str req s)) = \<lparr>va_keys = va_keys (sv_vault s), va_poisoned = True\<rparr>"
proof -
  obtain kp sk where "row = (kp, sk)" by (cases row)
  then have "find (\<lambda>(i, _, _). as_bytes i = as_bytes k) (va_keys (sv_vault s)) = Some (k, kp, sk)"
    using assms(6) by (simp only: find_key_row) (simp add: vault_get_def)
  then show ?thesis
    using assms(1-5,7)
    by (simp add: mcp_handle_def mcp_dispatch_def handle_decrypt_def required_def vault_retrieve_def
        vault_lock_def hybrid_decrypt_def Let_def)
qed

text \<open>
  C37. One request stops the gateway.  A \<open>decrypt\<close> request for an existing key that leaves out the nonce
  is not refused: the missing nonce becomes the empty string, and decryption panics while it holds the
  lock.  Where the process outlives the panic (the library called from another thread, or built to
  unwind; the release profile aborts, so there the program ends here), then after any further requests,
  answered or not, the keys are all still in the vault and exactly the requests that reach them panic:
  listing, and generating, encrypting, decrypting and deleting with their parameters given.
\<close>

theorem decrypt_without_nonce_stops_gateway:
  assumes "pr_b64_decode P [] = Inr []" "rq_method req = ''decrypt''"
    and "get_str (rq_params req) ''key_id'' = Some k" "get_str (rq_params req) ''ciphertext'' = Some c"
    and "get_str (rq_params req) ''nonce'' = None"
    and "vault_get (sv_vault s) k = Some row" "\<not> va_poisoned (sv_vault s)"
    and "mcp_handle P C get_str req s = (r, s1)"
  shows "(\<exists>m. r = Panic m) \<and>
    (\<forall>reqs C' req'. va_keys (sv_vault (mcp_after P get_str reqs s1)) = va_keys (sv_vault s) \<and>
       ((\<exists>m. fst (mcp_handle P C' get_str req' (mcp_after P get_str reqs s1)) = Panic m)
         \<longleftrightarrow> reaches_keys get_str req'))"
proof -
  have r: "r = Panic ''assertion failed: nonce length''"
    and v: "sv_vault s1 = \<lparr>va_keys = va_keys (sv_vault s), va_poisoned = True\<rparr>"
    using nonceless_decrypt_poisons [where C = C and get_str = get_str and P = P and s = s and req = req, OF assms(1-7)]
      assms(8) by simp_all
  have after: "sv_vault (mcp_after P get_str reqs s1) = sv_vault s1" for reqs
    by (rule poisoned_after) (simp add: v)
  have "(\<exists>m. fst (mcp_handle P C' get_str req' (mcp_after P get_str reqs s1)) = Panic m) \<longleftrightarrow> reaches_keys get_str req'"
    for reqs C' req'
    by (rule poisoned_handle(2)) (simp add: after v)
  moreover have "va_keys (sv_vault (mcp_after P get_str reqs s1)) = va_keys (sv_vault s)" for reqs
    by (simp add: after v)
  ultimately show ?thesis
    using r by blast
qed

definition encrypt_call :: "(string \<times> string) list mcp_request" where
  "encrypt_call = \<lparr>rq_jsonrpc = ''2.0'', rq_id = None, rq_method = ''encrypt'',
     rq_params = [(''key_id'', ''k''), (''data'', ''hi'')]\<rparr>"

definition decrypt_call :: "(string \<times> string) list \<Rightarrow> (string \<times> string) list mcp_request" where
  "decrypt_call ps = \<lparr>rq_jsonrpc = ''2.0'', rq_id = None, rq_method = ''decrypt'', rq_params = (''key_id'', ''k'') # ps\<rparr>"

lemma encrypt_call_result:
  "\<exists>resp s1. mcp_handle plain_primitives demo_call map_of encrypt_call mcp_new = (Ok resp, s1) \<and>
     rp_result resp = Some (EncryptedData (bytes_to_string (replicate 12 0))
       (bytes_to_string ([5, 6] @ as_bytes ''hi'')) [])"
proof -
  have u: "utf8_valid (as_bytes ''k'')"
    by (rule utf8_valid_ascii) (simp add: of_char_def)
  then have k: "from_utf8 (as_bytes ''k'') = Some ''k''"
    by (simp only: from_utf8_def bytes_to_string_as_bytes if_True)
  show ?thesis
    unfolding mcp_handle_def mcp_dispatch_def encrypt_call_def handle_encrypt_def required_def vault_store_def
    by (simp del: as_bytes_simps add: k Let_def demo_call_def mcp_new_def vault_new_def vault_lock_def key_row_of_def
        keygen_def hybrid_encrypt_def aes_key_def plain_primitives_def HANDSHAKE_TIMEOUT_MS_def)
qed

theorem mcp_encrypt_decrypt_witness:
  "\<exists>s1. fst (mcp_handle plain_primitives demo_call map_of
      (decrypt_call [(''ciphertext'', bytes_to_string ([5, 6] @ as_bytes ''hi'')),
         (''nonce'', bytes_to_string (replicate 12 0))]) s1) =
    Ok \<lparr>rp_jsonrpc = ''2.0'', rp_id = None, rp_result = Some (DecryptedText ''hi''), rp_error = None\<rparr>"
proof -
  obtain resp s1 where h: "mcp_handle plain_primitives demo_call map_of encrypt_call mcp_new = (Ok resp, s1)"
    "rp_result resp = Some (EncryptedData (bytes_to_string (replicate 12 0))
       (bytes_to_string ([5, 6] @ as_bytes ''hi'')) [])"
    using encrypt_call_result by blast
  have u: "utf8_valid (as_bytes ''hi'')"
    by (rule utf8_valid_ascii) (simp add: of_char_def)
  have "fst (mcp_handle plain_primitives demo_call map_of
      (decrypt_call [(''ciphertext'', bytes_to_string ([5, 6] @ as_bytes ''hi'')),
         (''nonce'', bytes_to_string (replicate 12 0))]) s1) =
    Ok \<lparr>rp_jsonrpc = ''2.0'', rp_id = rq_id (decrypt_call [(''ciphertext'', bytes_to_string ([5, 6] @ as_bytes ''hi'')),
         (''nonce'', bytes_to_string (replicate 12 0))]), rp_result = Some (DecryptedText ''hi''), rp_error = None\<rparr>"
    by (rule mcp_encrypt_decrypt [OF plain_lawful _ _ u _ _ _ h])
      (simp_all add: encrypt_call_def decrypt_call_def demo_call_def)
  then show ?thesis
    by (auto simp: decrypt_call_def)
qed

theorem decrypt_without_nonce_stops_gateway_witness:
  "let s = \<lparr>sv_vault = \<lparr>va_keys = [(''k'', \<lparr>kp_public_key = [], kp_secret_key = []\<rparr>, [1])], va_poisoned = False\<rparr>,
       sv_request_count = 3\<rparr>;
       s1 = snd (mcp_handle plain_primitives demo_call map_of (decrypt_call [(''ciphertext'', ''x'')]) s);
       other = \<lparr>rq_jsonrpc = ''2.0'', rq_id = None, rq_method = ''delete_key'', rq_params = [(''key_id'', ''z'')]\<rparr>;
       s2 = mcp_after plain_primitives map_of [(demo_call, other), (demo_call, other\<lparr>rq_method := ''info''\<rparr>)] s1
   in (\<exists>m. fst (mcp_handle plain_primitives demo_call map_of (decrypt_call [(''ciphertext'', ''x'')]) s) = Panic m) \<and>
      (\<exists>m. fst (mcp_handle plain_primitives demo_call map_of encrypt_call s2) = Panic m) \<and>
      (\<exists>m. fst (mcp_handle plain_primitives demo_call map_of other s2) = Panic m) \<and>
      \<not> (\<exists>m. fst (mcp_handle plain_primitives demo_call map_of (other\<lparr>rq_params := []\<rparr>) s2) = Panic m)"
proof -
  let ?s = "\<lparr>sv_vault = \<lparr>va_keys = [(''k'', \<lparr>kp_public_key = [], kp_secret_key = []\<rparr>, [1])], va_poisoned = False\<rparr>,
      sv_request_count = 3\<rparr>"
  have u: "utf8_valid (as_bytes ''k'')"
    by (rule utf8_valid_ascii) (simp add: of_char_def)
  obtain r s1 where h: "mcp_handle plain_primitives demo_call map_of (decrypt_call [(''ciphertext'', ''x'')]) ?s = (r, s1)"
    by (cases "mcp_handle plain_primitives demo_call map_of (decrypt_call [(''ciphertext'', ''x'')]) ?s")
  have "(\<exists>m. r = Panic m) \<and> (\<forall>reqs C' req'.
      va_keys (sv_vault (mcp_after plain_primitives map_of reqs s1)) = va_keys (sv_vault ?s) \<and>
      ((\<exists>m. fst (mcp_handle plain_primitives C' map_of req' (mcp_after plain_primitives map_of reqs s1)) = Panic m)
        \<longleftrightarrow> reaches_keys map_of req'))"
    by (rule decrypt_without_nonce_stops_gateway [OF _ _ _ _ _ _ _ h, of "''k''" "''x''"])
      (simp_all add: decrypt_call_def plain_primitives_def vault_get_def key_row_of_def)
  then have panics: "\<exists>m. r = Panic m"
    "(\<exists>m. fst (mcp_handle plain_primitives C' map_of req' (mcp_after plain_primitives map_of reqs s1)) = Panic m)
      \<longleftrightarrow> reaches_keys map_of req'" for reqs C' req'
    by blast+
  show ?thesis
    unfolding Let_def h snd_conv fst_conv panics(2)
    using panics(1) u by (simp add: reaches_keys_def encrypt_call_def del: as_bytes_simps)
qed

end
