(* ===== verification/Cli.thy ===== *)
theory Cli
  imports Persistent_Vault Mcp_Gateway Shamir
begin

text \<open>
  \<open>src/main.rs\<close>: the command line.  Each arm of \<open>main\<close> is a function of the disk that returns what
  is printed and how the process ends; the parsed arguments are a datatype with the constructors of
  \<open>Commands\<close>.  Argument parsing is clap's.  Of the Unicode tables behind \<open>char::is_alphanumeric\<close>
  the non-ASCII part is the parameter \<open>uni_alnum\<close>.
\<close>

section \<open>Characters\<close>

text \<open>The code points of a well-formed string.\<close>

definition code_point :: "bytes \<Rightarrow> nat" where
  "code_point bs =
     (let low = (\<lambda>i. unat (bs ! i) mod 64); b = unat (hd bs)
      in if length bs = 1 then b
         else if length bs = 2 then (b mod 32) * 64 + low 1
         else if length bs = 3 then (b mod 16) * 64 ^ 2 + low 1 * 64 + low 2
         else (b mod 8) * 64 ^ 3 + low 1 * 64 ^ 2 + low 2 * 64 + low 3)"

function code_points :: "bytes \<Rightarrow> nat list" where
  "code_points bs =
     (if bs = [] then []
      else case utf8_step bs of (ok, n) \<Rightarrow> code_point (take n bs) # code_points (drop n bs))"
  by pat_completeness auto
termination
  by (relation "measure length") (auto dest: utf8_step_drop)

declare code_points.simps [simp del]

definition chars :: "string \<Rightarrow> nat list" where
  "chars s = code_points (as_bytes s)"

definition is_alphanumeric :: "(nat \<Rightarrow> bool) \<Rightarrow> nat \<Rightarrow> bool" where
  "is_alphanumeric uni_alnum c =
     (if c < 128 then 48 \<le> c \<and> c \<le> 57 \<or> 65 \<le> c \<and> c \<le> 90 \<or> 97 \<le> c \<and> c \<le> 122 else uni_alnum c)"

definition is_whitespace :: "nat \<Rightarrow> bool" where
  "is_whitespace c =
     (9 \<le> c \<and> c \<le> 13 \<or> c = 32 \<or> c = 0x85 \<or> c = 0xA0 \<or> c = 0x1680 \<or> 0x2000 \<le> c \<and> c \<le> 0x200A \<or>
      c = 0x2028 \<or> c = 0x2029 \<or> c = 0x202F \<or> c = 0x205F \<or> c = 0x3000)"

section \<open>Commands\<close>

datatype command =
    Init string
  | Encrypt string string
  | Decrypt string string string
  | ListKeys
  | DeleteKey string
  | ClearCache
  | McpServer string
  | ShamirSplit string nat nat
  | ShamirJoin "string list"
  | MldsaInit "string option"
  | MldsaSign string "string option"
  | MldsaVerify string string string
  | MldsaList
  | InfoCommand

text \<open>The end of the process: normal with printed lines (and messages on the error stream), an exit with
  status 1 after printed lines and messages, or a panic.\<close>

datatype cli_end =
    Printed "string list"
  | PrintedErr "string list" "string list"
  | Exit1 "string list" "string list"
  | Panicked string

definition validate_key_id :: "(nat \<Rightarrow> bool) \<Rightarrow> string \<Rightarrow> string + unit" where
  "validate_key_id uni_alnum key_id =
     (if key_id = [] then Inl ''key_id cannot be empty''
      else if 64 < length key_id
      then Inl (''key_id too long (max 64 chars, got '' @ dec (length key_id) @ '')'')
      else if list_ex (\<lambda>c. \<not> is_alphanumeric uni_alnum c \<and> c \<noteq> of_char (CHR ''-'') \<and> c \<noteq> of_char (CHR ''_'')) (chars key_id)
      then Inl ''key_id must be alphanumeric, hyphens, or underscores only''
      else if take 2 key_id = ''__'' then Inl ''key_id cannot start with __ (reserved for system)''
      else Inr ())"

text \<open>What one invocation draws from its surroundings.\<close>

record cli_env =
  ci_pv :: pv_env
  ci_uni_alnum :: "nat \<Rightarrow> bool"
  ci_version :: string
  ci_seed :: bytes
  ci_nonce :: bytes
  ci_elapsed :: nat
  ci_salt :: bytes
  ci_file_nonce :: bytes
  ci_rand :: "nat \<Rightarrow> nat \<Rightarrow> u8"
  ci_dsa_seed :: bytes
  ci_sign_rnd :: bytes
  ci_stdin :: "string option"
  ci_has_home :: bool
  ci_remove_ok :: bool

text \<open>The \<open>Debug\<close> form of an error, which \<open>expect\<close> appends to its message.  Of the escapes of a string those
  of quotes, backslashes and the named control characters are written out, the only ones the error texts
  of the program can need.  (The message for a signature that is not base64 and the one for an unreadable
  standard input end with the \<open>Debug\<close> form of another crate's error, which is left out.)\<close>

definition escape_debug :: "char \<Rightarrow> string" where
  "escape_debug c =
     (let b = of_char c :: nat; esc = (\<lambda>x. [CHR 0x5C, x])
      in if b = 0x22 \<or> b = 0x5C then esc c
         else if b = 0 then esc (CHR ''0'')
         else if b = 9 then esc (CHR ''t'')
         else if b = 10 then esc (CHR ''n'')
         else if b = 13 then esc (CHR ''r'')
         else [c])"

definition debug_text :: "string \<Rightarrow> string" where
  "debug_text s = [CHR 0x22] @ concat (map escape_debug s) @ [CHR 0x22]"

fun mldsa_error_debug :: "mldsa_error \<Rightarrow> string" where
  "mldsa_error_debug (KeyGenFailed s) = ''KeyGenFailed('' @ debug_text s @ '')''"
| "mldsa_error_debug (SigningFailed s) = ''SigningFailed('' @ debug_text s @ '')''"
| "mldsa_error_debug MldsaVerificationFailed = ''VerificationFailed''"
| "mldsa_error_debug (DeserializationFailed s) = ''DeserializationFailed('' @ debug_text s @ '')''"

definition with_key_id :: "cli_env \<Rightarrow> string \<Rightarrow> (disk \<Rightarrow> cli_end \<times> disk) \<Rightarrow> disk \<Rightarrow> cli_end \<times> disk" where
  "with_key_id C key_id body d =
     (case validate_key_id (ci_uni_alnum C) key_id of
        Inl e \<Rightarrow> (Exit1 [] [''Invalid key_id: '' @ e], d)
      | Inr _ \<Rightarrow> body d)"

definition with_vault :: "cli_env \<Rightarrow> string \<Rightarrow> (vault \<Rightarrow> disk \<Rightarrow> cli_end \<times> disk) \<Rightarrow> disk \<Rightarrow> cli_end \<times> disk" where
  "with_vault C passphrase body d =
     (case get_vault (ci_pv C) passphrase d of
        Panic m \<Rightarrow> (Panicked m, d)
      | Err e \<Rightarrow> (Panicked e, d)
      | Ok v \<Rightarrow> body v d)"

definition cli_init :: "cli_env \<Rightarrow> string \<Rightarrow> string \<Rightarrow> disk \<Rightarrow> cli_end \<times> disk" where
  "cli_init C passphrase key_id =
     with_key_id C key_id (with_vault C passphrase (\<lambda>v d.
       case vault_generate_keypair (pe_prims (ci_pv C)) (ci_seed C) key_id v of
         (Ok (pub_key, sec_key), v1) \<Rightarrow>
           (case persist (ci_pv C) (ci_salt C) (ci_file_nonce C) passphrase v1 d of
              (Panic m, d1) \<Rightarrow> (Panicked m, d1)
            | (_, d1) \<Rightarrow> (Printed [''Generated keypair: '' @ key_id, ''Public key: '' @ pub_key], d1))
       | (Err e, v1) \<Rightarrow> (Panicked e, d)
       | (Panic m, v1) \<Rightarrow> (Panicked m, d)))"

definition encryption_failed :: "vault_error \<Rightarrow> string" where
  "encryption_failed e =
     ''Encryption failed (key may not exist - run 'init' first): '' @ debug_text (vault_error_text e)"

definition cli_encrypt :: "cli_env \<Rightarrow> string \<Rightarrow> string \<Rightarrow> string \<Rightarrow> disk \<Rightarrow> cli_end \<times> disk" where
  "cli_encrypt C passphrase key_id payload =
     with_key_id C key_id (\<lambda>d.
       if 1024 * 1024 < length payload then (Exit1 [] [''Data too large (max 1MB)''], d)
       else with_vault C passphrase (\<lambda>v d.
         case store_encrypted (ci_pv C) (ci_seed C) (ci_nonce C) (ci_elapsed C) (ci_salt C) (ci_file_nonce C)
                key_id (as_bytes payload) passphrase v d of
           (Ok ct, v1, d1) \<Rightarrow> (Printed [''Ciphertext: '' @ ct_ciphertext ct, ''Nonce: '' @ ct_nonce ct], d1)
         | (Err e, v1, d1) \<Rightarrow> (Panicked (encryption_failed e), d1)
         | (Panic m, v1, d1) \<Rightarrow> (Panicked m, d1)) d)"

definition cli_decrypt :: "cli_env \<Rightarrow> string \<Rightarrow> string \<Rightarrow> string \<Rightarrow> string \<Rightarrow> disk \<Rightarrow> cli_end \<times> disk" where
  "cli_decrypt C passphrase key_id ct nonce =
     with_key_id C key_id (with_vault C passphrase (\<lambda>v d.
       case retrieve_decrypted (ci_pv C) (ci_elapsed C) key_id
              \<lparr>ct_nonce = nonce, ct_ciphertext = ct, ct_key_id = key_id\<rparr> passphrase v d of
         (Ok plain, v1) \<Rightarrow> (Printed [from_utf8_lossy plain], d)
       | (Err e, v1) \<Rightarrow> (Exit1 [] [''Decryption failed: '' @ e], d)
       | (Panic m, v1) \<Rightarrow> (Panicked m, d)))"

definition cli_list_keys :: "cli_env \<Rightarrow> string \<Rightarrow> disk \<Rightarrow> cli_end \<times> disk" where
  "cli_list_keys C passphrase =
     with_vault C passphrase (\<lambda>v d.
       case fst (vault_list_keypairs v) of
         Ok keys \<Rightarrow>
           (let user_keys = filter (\<lambda>k. take 2 k \<noteq> ''__'') keys
            in (Printed (if user_keys = [] then [''No keys stored'']
                         else ''Stored keys:'' # map (\<lambda>k. ''  - '' @ k) user_keys), d))
       | Err e \<Rightarrow> (Panicked e, d)
       | Panic m \<Rightarrow> (Panicked m, d))"

definition cli_delete_key :: "cli_env \<Rightarrow> string \<Rightarrow> string \<Rightarrow> disk \<Rightarrow> cli_end \<times> disk" where
  "cli_delete_key C passphrase key_id =
     with_key_id C key_id (with_vault C passphrase (\<lambda>v d.
       case vault_remove_keypair key_id v of
         (Ok _, v1) \<Rightarrow>
           (case persist (ci_pv C) (ci_salt C) (ci_file_nonce C) passphrase v1 d of
              (Panic m, d1) \<Rightarrow> (Panicked m, d1)
            | (_, d1) \<Rightarrow> (Printed [''Deleted key: '' @ key_id], d1))
       | (Err e, v1) \<Rightarrow> (Panicked e, d)
       | (Panic m, v1) \<Rightarrow> (Panicked m, d)))"

definition cli_clear_cache :: "cli_env \<Rightarrow> disk \<Rightarrow> cli_end \<times> disk" where
  "cli_clear_cache C d =
     (Printed [''Vault cleared (all keys removed)''],
      if ci_has_home C \<and> ci_remove_ok C then d\<lparr>dk_keys := None, dk_mldsa := None\<rparr> else d)"

definition cli_shamir_split :: "cli_env \<Rightarrow> string \<Rightarrow> nat \<Rightarrow> nat \<Rightarrow> disk \<Rightarrow> cli_end \<times> disk" where
  "cli_shamir_split C secret threshold shares d =
     (if threshold < 2 then (Exit1 [] [''Threshold must be >= 2''], d)
      else if shares < threshold
      then (Exit1 [] [''Shares ('' @ dec shares @ '') must be >= threshold ('' @ dec threshold @ '')''], d)
      else if 255 < shares then (Exit1 [] [''Shares must be <= 255''], d)
      else case split (as_bytes secret) threshold shares (ci_rand C) of
        Ok shares_result \<Rightarrow>
          (let encoded = encode_shares (pr_b64_encode (pe_prims (ci_pv C))) shares_result
           in (Printed
                ([''SHAMIR Secret Sharing ('' @ dec threshold @ '', '' @ dec shares @ '')'',
                  ''Secret length: '' @ dec (length secret) @ '' bytes'', [],
                  ''Store each share separately. Any '' @ dec threshold @ '' shares can recover the secret.'', []] @
                 map (\<lambda>(i, s). ''Share '' @ dec (i + 1) @ '': '' @ s) (enumerate 0 encoded)), d))
      | Err e \<Rightarrow> (Panicked e, d)
      | Panic m \<Rightarrow> (Panicked m, d))"

text \<open>The text of \<open>ParseIntError\<close> for an unsigned integer of at most \<open>ub\<close>, and of a share error.\<close>

fun digits_error :: "nat \<Rightarrow> nat \<Rightarrow> string \<Rightarrow> string" where
  "digits_error ub acc [] = []"
| "digits_error ub acc (c # cs) =
     (case char_digit c of
        None \<Rightarrow> ''invalid digit found in string''
      | Some x \<Rightarrow> if ub < acc * 10 + x then ''number too large to fit in target type''
                  else digits_error ub (acc * 10 + x) cs)"

definition parse_int_error :: "nat \<Rightarrow> string \<Rightarrow> string" where
  "parse_int_error ub s =
     (if s = [] then ''cannot parse integer from empty string''
      else if s = ''+'' then ''invalid digit found in string''
      else digits_error ub 0 (if hd s = CHR ''+'' then tl s else s))"

fun share_error_text :: "string share_error \<Rightarrow> string" where
  "share_error_text (InvalidShareFormat s) = ''Invalid share format: '' @ s"
| "share_error_text (InvalidIndex s) = ''Invalid index: '' @ parse_int_error 255 s"
| "share_error_text (InvalidBase64 e) = ''Invalid base64: '' @ e"

definition cli_shamir_join :: "cli_env \<Rightarrow> string list \<Rightarrow> disk \<Rightarrow> cli_end \<times> disk" where
  "cli_shamir_join C share_strings d =
     (if length share_strings < 2 then (Exit1 [] [''Need at least 2 shares to reconstruct''], d)
      else case decode_shares (pr_b64_decode (pe_prims (ci_pv C))) share_strings of
        Inl e \<Rightarrow> (Exit1 [] [''Invalid share format: '' @ share_error_text e], d)
      | Inr shares_result \<Rightarrow>
          (case reconstruct shares_result of
             Ok recovered \<Rightarrow>
               (Printed [case from_utf8 recovered of Some s \<Rightarrow> s
                         | None \<Rightarrow> pr_b64_encode (pe_prims (ci_pv C)) recovered], d)
           | Err e \<Rightarrow> (Panicked e, d)
           | Panic m \<Rightarrow> (Panicked m, d)))"

definition cli_info :: "cli_env \<Rightarrow> disk \<Rightarrow> cli_end \<times> disk" where
  "cli_info C d =
     (Printed [''Abir-Guard v'' @ ci_version C, ''PQC Agent Memory Vault'', ''ML-KEM + AES-256-GCM'',
        ''ML-DSA-65 Signatures'', ''Argon2id Key Derivation'', ''SHAMIR Secret Sharing'',
        ''Security Watchdog: 200ms'', ''Memory Zeroization: enabled'', ''Disk Encryption: AES-256-GCM''], d)"

definition cli_mldsa_init :: "cli_env \<Rightarrow> string \<Rightarrow> string option \<Rightarrow> disk \<Rightarrow> cli_end \<times> disk" where
  "cli_mldsa_init C passphrase key_id d =
     (case mldsa_generate_keypair (pe_dsa (ci_pv C)) (ci_dsa_seed C) of
        Inl e \<Rightarrow> (Panicked (''Key generation failed: '' @ mldsa_error_debug e), d)
      | Inr kp \<Rightarrow>
          (let json = serialize_keypair (pe_dsa (ci_pv C)) kp;
               b64 = pr_b64_encode (pe_prims (ci_pv C));
               head = [''ML-DSA-65 Keypair Generated'', ''Security Category: 3 (equivalent to AES-192)'',
                 ''Signing Key Size: '' @ dec (length (mk_signing_key kp)) @ '' bytes'',
                 ''Verifying Key Size: '' @ dec (length (mk_verifying_key kp)) @ '' bytes'', []]
           in case key_id of
                Some i \<Rightarrow>
                  (case validate_key_id (ci_uni_alnum C) i of
                     Inl e \<Rightarrow> (Exit1 head [''Invalid key_id: '' @ e], d)
                   | Inr _ \<Rightarrow>
                       (case persist_mldsa_keys (ci_pv C) (ci_salt C) (ci_file_nonce C) [(i, kp)] passphrase d of
                          (Ok _, d1) \<Rightarrow>
                            (Printed (head @ [''Stored in vault with key_id: '' @ i,
                               ''Verify Key: '' @ b64 (mk_verifying_key kp)]), d1)
                        | (Err e, d1) \<Rightarrow>
                            (PrintedErr (head @ [''Exported as JSON for manual storage:'', json])
                               [''Failed to store in vault: '' @ e], d1)
                        | (Panic m, d1) \<Rightarrow> (Panicked m, d1)))
              | None \<Rightarrow>
                  (Printed (head @ [''Sign Key: '' @ b64 (mk_signing_key kp), [],
                     ''Verify Key: '' @ b64 (mk_verifying_key kp), [],
                     ''Store both keys securely. Never share the signing key.'',
                     ''Exported as JSON for vault storage:'', json, [],
                     ''To store in vault, run with --key-id <id>'']), d)))"

definition cli_mldsa_sign :: "cli_env \<Rightarrow> string \<Rightarrow> string \<Rightarrow> string option \<Rightarrow> disk \<Rightarrow> cli_end \<times> disk" where
  "cli_mldsa_sign C passphrase key_id payload =
     with_key_id C key_id (\<lambda>d.
       case (case payload of Some s \<Rightarrow> Some s | None \<Rightarrow> ci_stdin C) of
         None \<Rightarrow> (Panicked ''Failed to read stdin'', d)
       | Some text \<Rightarrow>
           (let b64 = pr_b64_encode (pe_prims (ci_pv C)); q = [CHR 0x27]
            in case sign_with_vault (ci_pv C) (ci_sign_rnd C) key_id (as_bytes text) passphrase d of
                 Ok sig \<Rightarrow>
                   (Printed [''Data Hash (SHA3-512): '' @ b64 (hash_data (pe_dsa (ci_pv C)) (as_bytes text)),
                      ''Signature: '' @ b64 sig], d)
               | Err e \<Rightarrow>
                   (Exit1 [] [''Signing failed: '' @ e,
                      ''Ensure key '' @ q @ key_id @ q @ '' exists in vault (run '' @ q @ ''mldsa-init --key-id '' @
                      key_id @ q @ '' first)''], d)
               | Panic m \<Rightarrow> (Panicked m, d)))"

definition cli_mldsa_verify :: "cli_env \<Rightarrow> string \<Rightarrow> string \<Rightarrow> string \<Rightarrow> string \<Rightarrow> disk \<Rightarrow> cli_end \<times> disk" where
  "cli_mldsa_verify C passphrase key_id payload sig =
     with_key_id C key_id (\<lambda>d.
       case pr_b64_decode (pe_prims (ci_pv C)) sig of
         Inl e \<Rightarrow> (Panicked ''Invalid base64 signature'', d)
       | Inr sig_bytes \<Rightarrow>
           (case verify_with_vault (ci_pv C) key_id (as_bytes payload) sig_bytes passphrase d of
              Ok valid \<Rightarrow>
                (if valid then Printed [''Signature VALID''] else Exit1 [''Signature INVALID''] [], d)
            | Err e \<Rightarrow> (Exit1 [] [''Verification error: '' @ e], d)
            | Panic m \<Rightarrow> (Panicked m, d)))"

definition cli_mldsa_list :: "cli_env \<Rightarrow> string \<Rightarrow> disk \<Rightarrow> cli_end \<times> disk" where
  "cli_mldsa_list C passphrase d =
     (case list_mldsa_keys (ci_pv C) passphrase d of
        Ok keys \<Rightarrow>
          (Printed (if keys = [] then [''No ML-DSA keys stored'']
                    else ''Stored ML-DSA keys:'' # map (\<lambda>k. ''  - '' @ k) keys), d)
      | Err e \<Rightarrow> (PrintedErr [] [''Failed to load keys: '' @ e], d)
      | Panic m \<Rightarrow> (Panicked m, d))"

section \<open>The stdio server and the dispatch\<close>

text \<open>One line of the server's input: skipped when blank, answered when it parses.  Each line comes
  with what the crates supply to its request; \<open>None\<close> is a read error, which ends the loop.\<close>

fun run_stdio ::
  "primitives \<Rightarrow> ('j \<Rightarrow> string \<Rightarrow> string option) \<Rightarrow> (string \<Rightarrow> string + 'j mcp_request)
     \<Rightarrow> ('j mcp_response \<Rightarrow> string + string) \<Rightarrow> (string option \<times> call_env) list \<Rightarrow> mcp_server
     \<Rightarrow> string list \<Rightarrow> (string list, string list) outcome" where
  "run_stdio P get_field from_str to_str [] s out = Ok out"
| "run_stdio P get_field from_str to_str ((None, C) # rest) s out = Ok out"
| "run_stdio P get_field from_str to_str ((Some line, C) # rest) s out =
     (if list_all is_whitespace (chars line) then run_stdio P get_field from_str to_str rest s out
      else case parse_request from_str line of
        Inl e \<Rightarrow> run_stdio P get_field from_str to_str rest s out
      | Inr req \<Rightarrow>
          (case mcp_handle P C get_field req s of
             (Panic m, s1) \<Rightarrow> Panic m
           | (Err e, s1) \<Rightarrow> Err out
           | (Ok resp, s1) \<Rightarrow>
               (case to_str resp of
                  Inl e \<Rightarrow> run_stdio P get_field from_str to_str rest s1 out
                | Inr json \<Rightarrow> run_stdio P get_field from_str to_str rest s1 (out @ [json]))))"

definition usage_lines :: "string \<Rightarrow> string list" where
  "usage_lines version =
     [''Abir-Guard v'' @ version, ''Usage: abir-guard [OPTIONS] <command>'', [], ''Options:'',
      ''  -k, --key <PASSPHRASE>  Vault passphrase (or ABIR_GUARD_KEY env)'', [], ''Commands:'',
      ''  init         Generate a new keypair'', ''  encrypt      Encrypt data'',
      ''  decrypt      Decrypt data'', ''  list-keys    List stored keys'',
      ''  delete-key   Delete a key'', ''  clear-cache  Clear all vault data'',
      ''  mcp-server   Start MCP server (stdio)'', ''  shamir-split Split a secret into N shares'',
      ''  shamir-join  Reconstruct a secret from shares'',
      ''  mldsa-init   Generate ML-DSA signing keypair'', ''  mldsa-sign   Sign data with ML-DSA'',
      ''  mldsa-verify Verify ML-DSA signature'', ''  mldsa-list   List stored ML-DSA keys'',
      ''  info         Show version info'']"

definition DEFAULT_PASSPHRASE :: string where
  "DEFAULT_PASSPHRASE = []"

definition get_passphrase :: "string option \<Rightarrow> string" where
  "get_passphrase key = (case key of Some k \<Rightarrow> k | None \<Rightarrow> DEFAULT_PASSPHRASE)"

text \<open>The server's messages about lines it cannot parse or answer go to the error stream and are left
  out.  \<open>serve\<close> is the run of the stdio server on the standard input of the process.\<close>

definition cli_main ::
  "cli_env \<Rightarrow> (unit \<Rightarrow> (string list, string list) outcome) \<Rightarrow> string option \<Rightarrow> command option \<Rightarrow> disk
     \<Rightarrow> cli_end \<times> disk" where
  "cli_main C serve key cmd d =
     (let passphrase = get_passphrase key
      in case cmd of
           None \<Rightarrow> (Printed (usage_lines (ci_version C)), d)
         | Some (Init k) \<Rightarrow> cli_init C passphrase k d
         | Some (Encrypt k x) \<Rightarrow> cli_encrypt C passphrase k x d
         | Some (Decrypt k ct n) \<Rightarrow> cli_decrypt C passphrase k ct n d
         | Some ListKeys \<Rightarrow> cli_list_keys C passphrase d
         | Some (DeleteKey k) \<Rightarrow> cli_delete_key C passphrase k d
         | Some ClearCache \<Rightarrow> cli_clear_cache C d
         | Some (McpServer mode) \<Rightarrow>
             (let start = ''Starting MCP server in '' @ mode @ '' mode''
              in if mode = ''stdio''
                 then (case serve () of
                         Ok out \<Rightarrow> PrintedErr out [start, ''MCP server ready on stdio'']
                       | Err out \<Rightarrow> PrintedErr out [start, ''MCP server ready on stdio'']
                       | Panic m \<Rightarrow> Panicked m, d)
                 else (PrintedErr [] [start], d))
         | Some (ShamirSplit s t n) \<Rightarrow> cli_shamir_split C s t n d
         | Some (ShamirJoin shares) \<Rightarrow> cli_shamir_join C shares d
         | Some InfoCommand \<Rightarrow> cli_info C d
         | Some (MldsaInit k) \<Rightarrow> cli_mldsa_init C passphrase k d
         | Some (MldsaSign k x) \<Rightarrow> cli_mldsa_sign C passphrase k x d
         | Some (MldsaVerify k x s) \<Rightarrow> cli_mldsa_verify C passphrase k x s d
         | Some MldsaList \<Rightarrow> cli_mldsa_list C passphrase d)"

section \<open>The vault loaded from disk\<close>

definition loaded_ok :: "primitives \<Rightarrow> vault \<Rightarrow> bool" where
  "loaded_ok P v =
     (\<not> va_poisoned v \<and> distinct (map fst (va_keys v)) \<and> list_all (row_consistent P) (va_keys v))"

lemma loaded_ok_put:
  assumes "loaded_ok P v" "row_consistent P (k, row)"
  shows "loaded_ok P (vault_put k row v)"
proof -
  have "distinct (map fst (filter p (va_keys v)))" "list_all (row_consistent P) (filter p (va_keys v))" for p
    using assms(1) by (auto simp: loaded_ok_def distinct_map_filter list_all_iff)
  then show ?thesis
    using assms by (auto simp: loaded_ok_def vault_put_def)
qed

lemma loaded_ok_import: "loaded_ok (pe_prims E) v \<Longrightarrow> loaded_ok (pe_prims E) (import_stored E v k)"
proof (cases "pr_b64_decode (pe_prims E) (st_secret_key k)")
  case (Inl e)
  then show "loaded_ok (pe_prims E) v \<Longrightarrow> ?thesis"
    by (simp add: import_stored_def vault_import_key_def)
next
  case (Inr sk)
  assume l: "loaded_ok (pe_prims E) v"
  then have "import_stored E v k = vault_put (st_key_id k)
      (\<lparr>kp_public_key = st_public_key k, kp_secret_key = st_secret_key k\<rparr>, sk) v"
    using Inr by (simp add: import_stored_def vault_import_put loaded_ok_def)
  then show ?thesis
    using loaded_ok_put [OF l] Inr by (simp add: row_consistent_def)
qed

lemma loaded_ok_get_vault:
  assumes "get_vault E passphrase d = Ok v"
  shows "loaded_ok (pe_prims E) v"
proof -
  have "loaded_ok (pe_prims E) vault_new"
    by (simp add: loaded_ok_def vault_new_def)
  moreover have "loaded_ok (pe_prims E) w \<Longrightarrow> loaded_ok (pe_prims E) (foldl (import_stored E) w ks)" for w ks
    by (induction ks arbitrary: w) (auto intro: loaded_ok_import)
  ultimately show ?thesis
    using assms by (cases "read_keys E passphrase d") (auto simp: get_vault_def split: option.splits)
qed

lemma foldl_put_distinct:
  "distinct (map fst rows) \<Longrightarrow> fst ` set rows \<inter> fst ` set (va_keys v) = {} \<Longrightarrow>
    foldl (\<lambda>s (k, r). vault_put k r s) v rows = v\<lparr>va_keys := va_keys v @ rows\<rparr>"
proof (induction rows arbitrary: v)
  case (Cons row rows)
  obtain k r where row: "row = (k, r)" by (cases row)
  have "filter (\<lambda>(i, _, _). i \<noteq> k) (va_keys v) = va_keys v"
    using Cons.prems(2) row by (force simp: filter_id_conv)
  then have "vault_put k r v = v\<lparr>va_keys := va_keys v @ [(k, r)]\<rparr>"
    by (simp add: vault_put_def)
  then show ?case
    using Cons.IH [of "v\<lparr>va_keys := va_keys v @ [(k, r)]\<rparr>"] Cons.prems row by auto
qed simp

lemma reload_loaded_ok:
  assumes "lawful_seal (pe_prims E)" "lawful_keys_json E" "length salt = 16" "length nonce = 12"
    and "loaded_ok (pe_prims E) v" "persist E salt nonce passphrase v d = (Ok (), d')"
    and "dk_write_error d = None" "dk_read_error d = None"
  shows "get_vault E passphrase d' = Ok v"
proof -
  have "foldl (\<lambda>s (k, r). vault_put k r s) vault_new (va_keys v) = v"
    using foldl_put_distinct [of "va_keys v" vault_new] assms(5) by (simp add: loaded_ok_def vault_new_def)
  then show ?thesis
    using persist_reload_rows [OF assms(1-4) _ _ assms(6-8)] assms(5) by (simp add: loaded_ok_def)
qed

lemma persist_disk:
  assumes "persist E salt nonce passphrase v d = (r, d')"
  shows "(r = Ok () \<or> (\<exists>m. r = Panic m)) \<and> dk_read_error d' = dk_read_error d \<and> dk_write_error d' = dk_write_error d"
proof -
  have "encrypt_file E salt nonce passphrase payload \<noteq> Err e" for payload e
    by (auto simp: encrypt_file_def derive_key_def encrypt_data_def Let_def split: option.splits)
  moreover have "fst (vault_export_keys v) \<noteq> Err e" for e
    by (simp add: vault_export_keys_def vault_lock_def)
  ultimately show ?thesis
    using assms by (auto simp: persist_def Let_def split: outcome.splits sum.splits if_splits)
qed

lemma key_not_in: "key_row_of keys k = None \<longleftrightarrow> k \<notin> fst ` set keys"
  by (simp add: key_row_of_def map_of_eq_None_iff)

lemma loaded_ok_store:
  assumes "lawful_base64 P" "loaded_ok P v" "vault_store P seed nonce t k x v = (Ok ct, v1)"
  shows "loaded_ok P v1"
proof -
  obtain ks where ks: "from_utf8 k = Some ks"
    using assms(3) by (auto simp: vault_store_def split: option.splits)
  show ?thesis
  proof (cases "key_row_of (va_keys v) ks")
    case None
    then have v1: "v1 = v\<lparr>va_keys := va_keys v @ [(ks, fst (keygen P seed), seed)]\<rparr>"
      using assms(2,3) ks by (auto simp: vault_store_def vault_lock_def loaded_ok_def keygen_def
          split: outcome.splits)
    have "row_consistent P (ks, fst (keygen P seed), seed)"
      by (simp add: row_consistent_def keygen_def lawful_base64D [OF assms(1)])
    then show ?thesis
      using assms(2) None by (simp add: v1 loaded_ok_def key_not_in)
  next
    case (Some row)
    then have "v1 = v"
      using assms(2,3) ks by (cases row) (auto simp: vault_store_def vault_lock_def loaded_ok_def
          split: outcome.splits)
    then show ?thesis
      using assms(2) by simp
  qed
qed

lemma lawful_seal_aes: "lawful_seal P \<Longrightarrow> lawful_aes P"
  by (simp add: lawful_seal_def lawful_aes_def)

section \<open>What the commands do to the stored keys\<close>

lemma load_additional_nothing:
  assumes "lawful_seal (pe_prims E)" "lawful_keys_json E" "length salt = 16" "length nonce = 12"
    and "loaded_ok (pe_prims E) v" "persist E salt nonce passphrase v d = (Ok (), d')"
    and "dk_write_error d = None" "dk_read_error d = None"
  shows "load_additional_keys E passphrase d' v = Ok v"
proof -
  have "filter (\<lambda>s. st_key_id s \<notin> set (map fst (va_keys v))) (map stored_of (va_keys v)) = []"
    by (force simp: filter_empty_conv stored_of_def)
  moreover have "fst (vault_list_keypairs v) = Ok (map fst (va_keys v))"
    using assms(5) by (simp add: vault_list_keypairs_def vault_lock_def loaded_ok_def)
  ultimately show ?thesis
    using persist_read_rows [OF assms(1-4) _ assms(6-8)] assms(5) by (simp add: load_additional_keys_def loaded_ok_def)
qed

lemma vault_retrieve_ignores_key_id:
  "vault_retrieve P t k \<lparr>ct_nonce = ct_nonce c, ct_ciphertext = ct_ciphertext c, ct_key_id = i\<rparr> v = vault_retrieve P t k c v"
proof -
  have "hybrid_decrypt P t \<lparr>ct_nonce = ct_nonce c, ct_ciphertext = ct_ciphertext c, ct_key_id = i\<rparr> sk = hybrid_decrypt P t c sk" for sk
    unfolding hybrid_decrypt_def ciphertext.select_convs by (rule refl)
  then show ?thesis
    unfolding vault_retrieve_def by presburger
qed

text \<open>
  What \<open>encrypt\<close> prints, \<open>decrypt\<close> reads, across two runs of the program: with the same
  passphrase and a working disk, decrypting the printed ciphertext and nonce under the same identifier
  prints the data again, whether the key existed or was generated by the encryption.
\<close>

theorem cli_encrypt_decrypt:
  assumes "lawful_base64 (pe_prims (ci_pv C))" "lawful_seal (pe_prims (ci_pv C))" "lawful_keys_json (ci_pv C)"
    and "length (ci_salt C) = 16" "length (ci_file_nonce C) = 12" "length (ci_nonce C) = 12"
    and "dk_write_error d = None" "dk_read_error d = None"
    and "cli_encrypt C passphrase k x d = (Printed [''Ciphertext: '' @ ct, ''Nonce: '' @ nonce], d')"
    and "utf8_valid (as_bytes x)"
    and "ci_pv C' = ci_pv C" "ci_uni_alnum C' = ci_uni_alnum C" "ci_elapsed C' \<le> 200"
  shows "cli_decrypt C' passphrase k ct nonce d' = (Printed [x], d')"
proof -
  let ?E = "ci_pv C"
  have val: "validate_key_id (ci_uni_alnum C) k = Inr ()"
    using assms(9) by (auto simp: cli_encrypt_def with_key_id_def split: sum.splits)
  obtain v where v: "get_vault ?E passphrase d = Ok v"
    using assms(9) val by (auto simp: cli_encrypt_def with_key_id_def with_vault_def split: if_splits outcome.splits)
  obtain c v1 where st: "store_encrypted ?E (ci_seed C) (ci_nonce C) (ci_elapsed C) (ci_salt C) (ci_file_nonce C)
      k (as_bytes x) passphrase v d = (Ok c, v1, d')" and c: "ct_ciphertext c = ct" "ct_nonce c = nonce"
    using assms(9) val v by (auto simp: cli_encrypt_def with_key_id_def with_vault_def
        split: if_splits prod.splits outcome.splits)
  have vs: "vault_store (pe_prims ?E) (ci_seed C) (ci_nonce C) (ci_elapsed C) (as_bytes k) (as_bytes x) v = (Ok c, v1)"
    using st by (auto simp: store_encrypted_def split: prod.splits outcome.splits)
  obtain r where r: "persist ?E (ci_salt C) (ci_file_nonce C) passphrase v1 d = (r, d')" "\<not> (\<exists>m. r = Panic m)"
    using st by (auto simp: store_encrypted_def split: prod.splits outcome.splits)
  then have p: "persist ?E (ci_salt C) (ci_file_nonce C) passphrase v1 d = (Ok (), d')"
    using persist_disk [OF r(1)] by auto
  have lv: "loaded_ok (pe_prims ?E) v1"
    by (rule loaded_ok_store [OF assms(1) loaded_ok_get_vault [OF v] vs])
  have g: "get_vault ?E passphrase d' = Ok v1"
    by (rule reload_loaded_ok [OF assms(2-5) lv p assms(7,8)])
  have a: "load_additional_keys ?E passphrase d' v1 = Ok v1"
    by (rule load_additional_nothing [OF assms(2-5) lv p assms(7,8)])
  have "vault_retrieve (pe_prims ?E) t (as_bytes k) \<lparr>ct_nonce = nonce, ct_ciphertext = ct, ct_key_id = k\<rparr> v1 =
      vault_retrieve (pe_prims ?E) t (as_bytes k) c v1" for t
    using vault_retrieve_ignores_key_id [of _ t "as_bytes k" c k] by (simp add: c)
  moreover have "vault_retrieve (pe_prims ?E) (ci_elapsed C') (as_bytes k) c v1 = (Ok (as_bytes x), v1)"
    using store_retrieve_core [OF assms(1) lawful_seal_aes [OF assms(2)] assms(6,13) vs, of "[]"] lv
    by (simp add: vault_run_def loaded_ok_def)
  ultimately have "retrieve_decrypted ?E (ci_elapsed C') k \<lparr>ct_nonce = nonce, ct_ciphertext = ct, ct_key_id = k\<rparr>
      passphrase v1 d' = (Ok (as_bytes x), v1)"
    using a by (simp add: retrieve_decrypted_def)
  then show ?thesis
    using val g assms(11,12) from_utf8_lossy_valid [OF assms(10)]
    by (simp add: cli_decrypt_def with_key_id_def with_vault_def)
qed

definition demo_cli :: cli_env where
  "demo_cli =
     \<lparr>ci_pv = demo_env, ci_uni_alnum = (\<lambda>_. False), ci_version = ''3.2.0'', ci_seed = [5, 6],
      ci_nonce = replicate 12 0, ci_elapsed = 1, ci_salt = replicate 16 0, ci_file_nonce = replicate 12 1,
      ci_rand = (\<lambda>_ _. 0), ci_dsa_seed = [], ci_sign_rnd = [], ci_stdin = None, ci_has_home = True,
      ci_remove_ok = True\<rparr>"

lemma pe_prims_demo [simp]: "pe_prims demo_env = demo_prims"
  by (simp add: demo_env_def)

lemma chars_k: "chars ''k'' = [107]"
  by (simp add: chars_def code_points.simps char_width_def code_point_def of_char_def)

lemma validate_k: "validate_key_id u ''k'' = Inr ()"
  by (simp add: validate_key_id_def chars_k is_alphanumeric_def)

lemma from_utf8_k: "from_utf8 (as_bytes ''k'') = Some ''k''"
proof -
  have u: "utf8_valid (as_bytes ''k'')"
    by (rule utf8_valid_ascii) (simp add: of_char_def)
  then show ?thesis
    by (simp only: from_utf8_def bytes_to_string_as_bytes if_True)
qed

lemma demo_persist:
  assumes "\<not> va_poisoned v"
  shows "\<exists>d'. persist demo_env salt nonce pw v empty_disk = (Ok (), d')"
  using assms by (simp add: persist_def export_rows demo_env_def encrypt_file_def derive_key_def
      encrypt_data_def demo_prims_def Let_def)

lemma demo_store:
  "\<exists>ct v1. vault_store demo_prims [5, 6] (replicate 12 0) 1 (as_bytes ''k'') y vault_new = (Ok ct, v1) \<and> \<not> va_poisoned v1"
  by (simp del: as_bytes_simps add: vault_store_def from_utf8_k vault_new_def vault_lock_def key_row_of_def keygen_def
      hybrid_encrypt_def aes_key_def plain_primitives_def demo_prims_def HANDSHAKE_TIMEOUT_MS_def)

lemma demo_encrypt:
  "\<exists>ct n d'. cli_encrypt demo_cli ''pw'' ''k'' ''hi'' empty_disk = (Printed [''Ciphertext: '' @ ct, ''Nonce: '' @ n], d')"
proof -
  obtain ct v1 where st: "vault_store demo_prims [5, 6] (replicate 12 0) 1 (as_bytes ''k'') (as_bytes ''hi'') vault_new = (Ok ct, v1)"
    "\<not> va_poisoned v1"
    using demo_store by blast
  obtain d' where p: "persist demo_env (replicate 16 0) (replicate 12 1) ''pw'' v1 empty_disk = (Ok (), d')"
    using demo_persist [OF st(2)] by blast
  have g: "get_vault demo_env ''pw'' empty_disk = Ok vault_new"
    by (simp add: get_vault_def read_keys_def empty_disk_def)
  have "store_encrypted demo_env [5, 6] (replicate 12 0) 1 (replicate 16 0) (replicate 12 1) ''k'' (as_bytes ''hi'') ''pw''
      vault_new empty_disk = (Ok ct, v1, d')"
    using st(1) p by (simp add: store_encrypted_def demo_env_def del: as_bytes_simps)
  then have "cli_encrypt demo_cli ''pw'' ''k'' ''hi'' empty_disk =
      (Printed [''Ciphertext: '' @ ct_ciphertext ct, ''Nonce: '' @ ct_nonce ct], d')"
    by (simp add: cli_encrypt_def with_key_id_def with_vault_def validate_k demo_cli_def g del: as_bytes_simps)
  then show ?thesis
    by blast
qed

theorem cli_encrypt_decrypt_witness:
  "\<exists>ct n d'. cli_decrypt demo_cli ''pw'' ''k'' ct n d' = (Printed [''hi''], d')"
proof -
  obtain ct n d' where e: "cli_encrypt demo_cli ''pw'' ''k'' ''hi'' empty_disk =
      (Printed [''Ciphertext: '' @ ct, ''Nonce: '' @ n], d')"
    using demo_encrypt by blast
  have u: "utf8_valid (as_bytes ''hi'')"
    by (rule utf8_valid_ascii) (simp add: of_char_def)
  have l: "lawful_base64 (pe_prims (ci_pv demo_cli))" "lawful_seal (pe_prims (ci_pv demo_cli))" "lawful_keys_json (ci_pv demo_cli)"
    using demo_lawful by (simp_all add: demo_cli_def)
  have "cli_decrypt demo_cli ''pw'' ''k'' ct n d' = (Printed [''hi''], d')"
    by (rule cli_encrypt_decrypt [OF l _ _ _ _ _ e u refl refl])
      (simp_all add: demo_cli_def empty_disk_def)
  then show ?thesis
    by blast
qed

lemma cli_init_reload:
  assumes "lawful_base64 (pe_prims (ci_pv C))" "lawful_seal (pe_prims (ci_pv C))" "lawful_keys_json (ci_pv C)"
    and "length (ci_salt C) = 16" "length (ci_file_nonce C) = 12"
    and "dk_write_error d = None" "dk_read_error d = None"
    and "get_vault (ci_pv C) passphrase d = Ok v" "cli_init C passphrase k d = (Printed out, d')"
  shows "\<exists>v'. get_vault (ci_pv C) passphrase d' = Ok v' \<and>
    vault_get v' = (vault_get v)(k \<mapsto> keygen (pe_prims (ci_pv C)) (ci_seed C))"
proof -
  let ?P = "pe_prims (ci_pv C)" and ?row = "keygen (pe_prims (ci_pv C)) (ci_seed C)"
  have lv: "loaded_ok ?P v"
    by (rule loaded_ok_get_vault [OF assms(8)])
  let ?v1 = "v\<lparr>va_keys := va_keys v @ [(k, ?row)]\<rparr>"
  have "vault_generate_keypair ?P (ci_seed C) k v = (Ok (kp_public_key (fst ?row), kp_secret_key (fst ?row)), ?v1)"
    using lv by (simp add: vault_generate_keypair_def vault_lock_def keygen_def loaded_ok_def)
  then obtain r where r: "persist (ci_pv C) (ci_salt C) (ci_file_nonce C) passphrase ?v1 d = (r, d')" "\<not> (\<exists>m. r = Panic m)"
    using assms(8,9) by (auto simp: cli_init_def with_key_id_def with_vault_def
        split: sum.splits prod.splits outcome.splits)
  then have p: "persist (ci_pv C) (ci_salt C) (ci_file_nonce C) passphrase ?v1 d = (Ok (), d')"
    using persist_disk [OF r(1)] by auto
  have c: "\<not> va_poisoned ?v1" "list_all (row_consistent ?P) (va_keys ?v1)"
    using lv by (simp_all add: loaded_ok_def row_consistent_def keygen_def lawful_base64D [OF assms(1)])
  let ?v' = "foldl (\<lambda>s (k, r). vault_put k r s) vault_new (va_keys ?v1)"
  have "get_vault (ci_pv C) passphrase d' = Ok ?v'"
    by (rule persist_reload_rows [OF assms(2-5) c p assms(6,7)])
  moreover have "vault_get ?v' = (vault_get v)(k \<mapsto> ?row)"
  proof -
    have "vault_get vault_new = Map.empty" and m: "vault_get w = map_of (va_keys w)" for w
      by (simp_all add: vault_get_def vault_new_def key_row_of_def fun_eq_iff)
    moreover have "map_of (rev (va_keys v)) = map_of (va_keys v)"
      using lv by (subst map_of_inject_set) (simp_all add: loaded_ok_def rev_map [symmetric])
    ultimately show ?thesis
      using vault.get_puts [where s = vault_new and kvs = "va_keys ?v1"] by simp
  qed
  ultimately show ?thesis
    by blast
qed

text \<open>
  \<open>init\<close> sets one key and keeps the others: after it the stored vault has the freshly generated
  pair under the identifier and every other key as before.  In particular running it again under an
  identifier in use replaces the stored pair without notice, so that what was encrypted under the old
  one can no longer be decrypted from disk.
\<close>

theorem cli_init_sets_key:
  assumes "lawful_base64 (pe_prims (ci_pv C))" "lawful_seal (pe_prims (ci_pv C))" "lawful_keys_json (ci_pv C)"
    and "length (ci_salt C) = 16" "length (ci_file_nonce C) = 12"
    and "dk_write_error d = None" "dk_read_error d = None"
    and "get_vault (ci_pv C) passphrase d = Ok v" "cli_init C passphrase k d = (Printed out, d')"
  shows "\<exists>v'. get_vault (ci_pv C) passphrase d' = Ok v' \<and>
    vault_get v' = (vault_get v)(k \<mapsto> keygen (pe_prims (ci_pv C)) (ci_seed C))"
  by (rule cli_init_reload [OF assms])

lemma demo_init:
  assumes "get_vault demo_env pw d = Ok v" "dk_write_error d = None"
  shows "\<exists>out d'. cli_init demo_cli pw ''k'' d = (Printed out, d')"
proof -
  have np: "\<not> va_poisoned v"
    using loaded_ok_get_vault [OF assms(1)] by (simp add: loaded_ok_def)
  have p: "\<exists>d'. persist demo_env salt nonce pw w d = (Ok (), d')" if "\<not> va_poisoned w" for salt nonce w
    using that by (simp add: persist_def export_rows demo_env_def encrypt_file_def derive_key_def
        encrypt_data_def demo_prims_def Let_def)
  obtain d' where "persist demo_env (replicate 16 0) (replicate 12 1) pw
      (v\<lparr>va_keys := va_keys v @ [(''k'', keygen demo_prims [5, 6])]\<rparr>) d = (Ok (), d')"
    using p [of "v\<lparr>va_keys := va_keys v @ [(''k'', keygen demo_prims [5, 6])]\<rparr>"] np by auto
  then show ?thesis
    using assms(1) np
    by (simp add: cli_init_def with_key_id_def with_vault_def validate_k demo_cli_def vault_generate_keypair_def
        vault_lock_def keygen_def)
qed

theorem cli_init_sets_key_witness:
  "\<exists>v' d'. get_vault demo_env ''pw'' d' = Ok v' \<and> map_option snd (vault_get v' ''k'') = Some [5, 6]"
proof -
  have g: "get_vault (ci_pv demo_cli) ''pw'' empty_disk = Ok vault_new"
    by (simp add: get_vault_def read_keys_def empty_disk_def demo_cli_def)
  obtain out d' where i: "cli_init demo_cli ''pw'' ''k'' empty_disk = (Printed out, d')"
    using demo_init [of "''pw''" empty_disk] g by (auto simp: demo_cli_def empty_disk_def)
  have l: "lawful_base64 (pe_prims (ci_pv demo_cli))" "lawful_seal (pe_prims (ci_pv demo_cli))" "lawful_keys_json (ci_pv demo_cli)"
    using demo_lawful by (simp_all add: demo_cli_def)
  have "\<exists>v'. get_vault (ci_pv demo_cli) ''pw'' d' = Ok v' \<and>
      vault_get v' = (vault_get vault_new)(''k'' \<mapsto> keygen (pe_prims (ci_pv demo_cli)) (ci_seed demo_cli))"
    by (rule cli_init_sets_key [OF l _ _ _ _ g i]) (simp_all add: demo_cli_def empty_disk_def)
  then show ?thesis
    by (auto simp: demo_cli_def keygen_def)
qed

text \<open>
  C32. A wrong passphrase erases the vault.  If the key file cannot be decrypted with the passphrase
  given, \<open>init\<close> does not refuse: it starts from an empty vault and overwrites the file, which then holds, under the passphrase given, the new pair alone:
  every key stored before is gone.
\<close>

theorem wrong_passphrase_erases_vault:
  assumes "lawful_base64 (pe_prims (ci_pv C))" "lawful_seal (pe_prims (ci_pv C))" "lawful_keys_json (ci_pv C)"
    and "length (ci_salt C) = 16" "length (ci_file_nonce C) = 12"
    and "dk_write_error d = None" "dk_read_error d = None"
    and "dk_keys d = Some old" "decrypt_file (ci_pv C) wrong old = Err e"
    and "cli_init C wrong k d = (Printed out, d')"
  shows "read_keys (ci_pv C) wrong d' = Ok (Some [stored_of (k, keygen (pe_prims (ci_pv C)) (ci_seed C))])"
proof -
  let ?row = "(k, keygen (pe_prims (ci_pv C)) (ci_seed C))"
  have g: "get_vault (ci_pv C) wrong d = Ok vault_new"
    using assms(7-9) by (simp add: get_vault_def read_keys_def)
  have v1: "vault_generate_keypair (pe_prims (ci_pv C)) (ci_seed C) k vault_new =
      (Ok (kp_public_key (fst (snd ?row)), kp_secret_key (fst (snd ?row))), \<lparr>va_keys = [?row], va_poisoned = False\<rparr>)"
    by (simp add: vault_generate_keypair_def vault_lock_def keygen_def vault_new_def)
  then obtain r where r: "persist (ci_pv C) (ci_salt C) (ci_file_nonce C) wrong \<lparr>va_keys = [?row], va_poisoned = False\<rparr> d = (r, d')"
      "\<not> (\<exists>m. r = Panic m)"
    using g assms(10) by (auto simp: cli_init_def with_key_id_def with_vault_def
        split: sum.splits prod.splits outcome.splits)
  then have "persist (ci_pv C) (ci_salt C) (ci_file_nonce C) wrong \<lparr>va_keys = [?row], va_poisoned = False\<rparr> d = (Ok (), d')"
    using persist_disk [OF r(1)] by auto
  from persist_read_rows [OF assms(2-5) _ this assms(6,7)] show ?thesis
    by simp
qed

lemma demo_decrypt_short: "decrypt_file demo_env pw [1, 2] = Err ''Encrypted blob too short''"
  by (simp add: decrypt_file_def SALT_LENGTH_def)

theorem wrong_passphrase_erases_vault_witness:
  "\<exists>d'. read_keys demo_env ''wrong'' d' = Ok (Some [stored_of (''k'', keygen demo_prims [5, 6])])"
proof -
  let ?d = "empty_disk\<lparr>dk_keys := Some [1, 2]\<rparr>"
  have "get_vault demo_env ''wrong'' ?d = Ok vault_new"
    by (simp add: get_vault_def read_keys_def empty_disk_def demo_decrypt_short)
  then obtain out d' where i: "cli_init demo_cli ''wrong'' ''k'' ?d = (Printed out, d')"
    using demo_init [of "''wrong''" ?d] by (auto simp: empty_disk_def)
  have l: "lawful_base64 (pe_prims (ci_pv demo_cli))" "lawful_seal (pe_prims (ci_pv demo_cli))" "lawful_keys_json (ci_pv demo_cli)"
    using demo_lawful by (simp_all add: demo_cli_def)
  have "read_keys (ci_pv demo_cli) ''wrong'' d' =
      Ok (Some [stored_of (''k'', keygen (pe_prims (ci_pv demo_cli)) (ci_seed demo_cli))])"
    by (rule wrong_passphrase_erases_vault [OF l _ _ _ _ _ _ i, of "[1, 2]" "''Encrypted blob too short''"])
      (simp_all add: demo_cli_def empty_disk_def demo_decrypt_short)
  then show ?thesis
    by (auto simp: demo_cli_def)
qed

section \<open>Shamir shares on the command line\<close>

lemma utf8_valid_gf251: "utf8_valid bs \<Longrightarrow> list_all (\<lambda>b. b < ucast PRIME) bs"
  using utf8_valid_bytes [of bs] by (force simp: list_all_iff PRIME_def word_le_nat_alt word_less_nat_alt)

lemma split_ascii_ok:
  assumes "utf8_valid bs" "2 \<le> t" "t \<le> n" "n \<le> 250"
  shows "\<exists>shares. split bs t n rand = Ok shares"
  using assms utf8_valid_gf251 [OF assms(1)] by (simp add: split_def)

lemma split_indices:
  assumes "split secret t n rand = Ok shares"
  shows "map (unat \<circ> sh_index) shares = [1..<n + 1]"
proof (rule nth_equalityI)
  have sh: "shares = map (\<lambda>i. \<lparr>sh_index = of_nat (i + 1), sh_data = map (\<lambda>(byte_idx, b).
      share_byte (of_nat (i + 1)) (share_coeffs b t (rand byte_idx))) (enumerate 0 secret)\<rparr>) [0..<n]" and n: "n \<le> 250"
    using assms by (auto simp: split_def split: if_splits)
  show "length (map (unat \<circ> sh_index) shares) = length [1..<n + 1]"
    by (simp add: sh)
  fix i
  assume "i < length (map (unat \<circ> sh_index) shares)"
  then have "i < n"
    by (simp add: sh)
  then have "unat (of_nat (i + 1) :: u8) = i + 1"
    unfolding unat_of_nat using n by simp
  then show "map (unat \<circ> sh_index) shares ! i = [1..<n + 1] ! i"
    using \<open>i < n\<close> nth_upt [of 1 i "n + 1"] by (simp add: sh del: upt_Suc)
qed

text \<open>
  C26. Splitting a secret on the command line and joining it again.  For every secret that is a string
  and every choice of threshold and share count up to 250, \<open>shamir-split\<close> succeeds, prints one line
  per share, and \<open>shamir-join\<close> of any \<open>threshold\<close> or more of the printed share texts, in any order,
  prints exactly the secret.  (A string never has a byte above 0xF4, so the assertion of \<open>split\<close> on
  the bytes of the secret cannot fail here.)
\<close>

theorem cli_shamir_split_join:
  assumes "lawful_base64 (pe_prims (ci_pv C))" "utf8_valid (as_bytes secret)"
    and "2 \<le> threshold" "threshold \<le> n" "n \<le> 250"
  shows "\<exists>head texts. length texts = n \<and> distinct texts \<and>
    cli_shamir_split C secret threshold n d =
      (Printed (head @ map (\<lambda>(i, s). ''Share '' @ dec (i + 1) @ '': '' @ s) (enumerate 0 texts)), d) \<and>
    (\<forall>sub d'. set sub \<subseteq> set texts \<longrightarrow> distinct sub \<longrightarrow> threshold \<le> length sub \<longrightarrow>
       cli_shamir_join C sub d' = (Printed [secret], d'))"
proof -
  let ?enc = "pr_b64_encode (pe_prims (ci_pv C))" and ?dec = "pr_b64_decode (pe_prims (ci_pv C))"
  have b: "?dec (?enc x) = Inr x" for x
    using assms(1) by (simp add: lawful_base64_def)
  obtain shares where s: "split (as_bytes secret) threshold n (ci_rand C) = Ok shares"
    using split_ascii_ok [OF assms(2-5)] by blast
  let ?texts = "encode_shares ?enc shares"
  have inj: "inj_on (encode_share ?enc) (set shares)"
    using decode_encode_share [where b64_decode = ?dec and b64_encode = ?enc] b by (metis inj_onI sum.inject(2))
  have len: "length shares = n" and dist: "distinct shares"
  proof -
    note i = split_indices [OF s]
    have "length (map (unat \<circ> sh_index) shares) = n" "distinct (map (unat \<circ> sh_index) shares)"
      unfolding i by simp_all
    then show "length shares = n" "distinct shares"
      by (simp, auto dest: distinct_map [THEN iffD1])
  qed
  have join: "cli_shamir_join C sub d' = (Printed [secret], d')"
    if sub: "set sub \<subseteq> set ?texts" "distinct sub" "threshold \<le> length sub" for sub d'
  proof -
    obtain ss where ss: "sub = map (encode_share ?enc) ss" "set ss \<subseteq> set shares"
    proof -
      have "sub \<in> lists (encode_share ?enc ` set shares)"
        using sub(1) by (auto simp: encode_shares_def in_lists_conv_set)
      then show ?thesis
        using that by (auto simp: lists_image in_lists_conv_set)
    qed
    have "reconstruct ss = Ok (as_bytes secret)"
      using reconstruct_split_core [OF s ss(2)] sub ss by (auto simp: distinct_map)
    moreover have "decode_shares ?dec sub = Inr ss"
      using decode_encode_shares_core [of ss ?dec ?enc] b ss(1) by (simp add: encode_shares_def)
    ultimately show ?thesis
      using sub(3) assms(2,3) by (simp add: cli_shamir_join_def from_utf8_def)
  qed
  show ?thesis
    by (rule exI, rule exI [of _ ?texts])
      (use assms s inj len dist join in \<open>simp add: cli_shamir_split_def Let_def encode_shares_def distinct_map\<close>)
qed

theorem cli_shamir_split_join_witness:
  "\<exists>texts. length texts = 3 \<and> distinct texts \<and>
     (\<forall>sub d'. set sub \<subseteq> set texts \<longrightarrow> distinct sub \<longrightarrow> 2 \<le> length sub \<longrightarrow>
        cli_shamir_join demo_cli sub d' = (Printed [''hi''], d'))"
proof -
  have u: "utf8_valid (as_bytes ''hi'')"
    by (rule utf8_valid_ascii) (simp add: of_char_def)
  have "lawful_base64 (pe_prims (ci_pv demo_cli))"
    using demo_lawful by (simp add: demo_cli_def)
  from cli_shamir_split_join [OF this u, of 2 3] show ?thesis
    by force
qed

text \<open>
  Share counts from 251 to 255 pass the checks of the command line, whose bound is 255, and then
  fail the assertion of \<open>split\<close>, whose bound is 250: the program panics instead of refusing them.
\<close>

theorem cli_shamir_split_panics:
  assumes "2 \<le> threshold" "threshold \<le> n" "250 < n" "n \<le> 255"
  shows "cli_shamir_split C secret threshold n d = (Panicked ''Shares must be <= 250 in GF(251)'', d)"
  using assms by (simp add: cli_shamir_split_def split_def)

theorem cli_shamir_split_panics_witness:
  "\<exists>d. cli_shamir_split demo_cli ''hi'' 2 251 d = (Panicked ''Shares must be <= 250 in GF(251)'', d)"
  using cli_shamir_split_panics [of 2 251 demo_cli "''hi''" empty_disk] by auto

end
