(* ===== verification/Qkd.thy ===== *)
theory Qkd
  imports F64 "HOL-Library.Multiset"
begin

unbundle bit_operations_syntax

text \<open>
  \<open>src/qkd/mod.rs\<close>: the BB84 key distribution simulator.  An entropy source is a function of its
  state, the method \<open>next_u64\<close> of the trait; the operations that draw from it thread the state and
  stop at the first error, which they return with the state reached.
\<close>

datatype qkd_error =
    EmptyTransmission
  | InvalidSampleSize
  | InvalidNoiseProbability
  | InvalidMaxQber
  | InsufficientSiftedBits
  | EntropyExhausted

type_synonym ('s, 'a) drawn = "'s \<Rightarrow> (qkd_error + 'a) \<times> 's"

text \<open>The operator \<open>?\<close> after a draw.\<close>

definition draw_then :: "('s, 'a) drawn \<Rightarrow> ('a \<Rightarrow> ('s, 'b) drawn) \<Rightarrow> ('s, 'b) drawn" where
  "draw_then m f s = (case m s of (Inl e, s1) \<Rightarrow> (Inl e, s1) | (Inr x, s1) \<Rightarrow> f x s1)"

definition next_bit :: "('s, u64) drawn \<Rightarrow> ('s, u8) drawn" where
  "next_bit next_u64 = draw_then next_u64 (\<lambda>x s. (Inr (ucast (x AND 1)), s))"

text \<open>\<open>(x as f64) / ((u64::MAX as f64) + 1.0)\<close>: the sum of two integral doubles is the rounded sum.\<close>

definition unit_f64 :: "u64 \<Rightarrow> f64" where
  "unit_f64 x = Fin (f64_quot (f64_of_uint (uint x)) (f64_of_uint (f64_of_uint (2 ^ 64 - 1) + 1)))"

definition next_unit_f64 :: "('s, u64) drawn \<Rightarrow> ('s, f64) drawn" where
  "next_unit_f64 next_u64 = draw_then next_u64 (\<lambda>x s. (Inr (unit_f64 x), s))"

section \<open>The XorShift generator\<close>

definition xorshift_seed :: "u64 \<Rightarrow> u64" where
  "xorshift_seed seed = (if seed = 0 then 0x9E3779B97F4A7C15 else seed)"

definition xorshift_next :: "(u64, u64) drawn" where
  "xorshift_next state =
     (let x = state XOR push_bit 13 state;
          x = x XOR drop_bit 7 x;
          x = x XOR push_bit 17 x
      in (Inr x, x))"

section \<open>Channel and simulator\<close>

datatype basis = Rectilinear | Diagonal

definition basis_random :: "('s, u64) drawn \<Rightarrow> ('s, basis) drawn" where
  "basis_random next_u64 =
     draw_then (next_bit next_u64) (\<lambda>b s. (Inr (if b = 0 then Rectilinear else Diagonal), s))"

record quantum_channel =
  qc_bit_flip_probability :: f64

definition channel_new :: "f64 \<Rightarrow> qkd_error + quantum_channel" where
  "channel_new p =
     (if \<not> f64_unit_interval p then Inl InvalidNoiseProbability
      else Inr \<lparr>qc_bit_flip_probability = p\<rparr>)"

definition maybe_flip :: "quantum_channel \<Rightarrow> ('s, u64) drawn \<Rightarrow> u8 \<Rightarrow> ('s, u8) drawn" where
  "maybe_flip ch next_u64 b =
     draw_then (next_unit_f64 next_u64)
       (\<lambda>draw s. (Inr (if f64_lt draw (qc_bit_flip_probability ch) then b XOR 1 else b), s))"

record qkd_parameters =
  qp_qubit_count :: nat
  qp_sample_size :: nat
  qp_max_qber :: f64

text \<open>The literal \<open>0.11\<close> is the double nearest to eleven hundredths.\<close>

definition qkd_parameters_default :: qkd_parameters where
  "qkd_parameters_default =
     \<lparr>qp_qubit_count = 256, qp_sample_size = 32, qp_max_qber = Fin (f64_quot 11 100)\<rparr>"

record qkd_report =
  qr_raw_bits :: nat
  qr_sifted_bits :: nat
  qr_sampled_bits :: nat
  qr_mismatches :: nat
  qr_qber :: f64
  qr_accepted :: bool
  qr_final_key_bits :: bytes

record bb84 =
  bb_params :: qkd_parameters
  bb_channel :: quantum_channel

definition bb84_new :: "qkd_parameters \<Rightarrow> quantum_channel \<Rightarrow> qkd_error + bb84" where
  "bb84_new params ch =
     (if qp_qubit_count params = 0 then Inl EmptyTransmission
      else if qp_sample_size params = 0 then Inl InvalidSampleSize
      else if \<not> f64_unit_interval (qp_max_qber params) then Inl InvalidMaxQber
      else Inr \<lparr>bb_params = params, bb_channel = ch\<rparr>)"

text \<open>One qubit: \<open>Some\<close> of the two bits when the bases agree.\<close>

definition send_qubit :: "quantum_channel \<Rightarrow> ('s, u64) drawn \<Rightarrow> ('s, (u8 \<times> u8) option) drawn" where
  "send_qubit ch next_u64 =
     draw_then (next_bit next_u64) (\<lambda>alice_bit.
     draw_then (basis_random next_u64) (\<lambda>alice_basis.
     draw_then (basis_random next_u64) (\<lambda>bob_basis.
     draw_then (if alice_basis = bob_basis then (\<lambda>s. (Inr alice_bit, s)) else next_bit next_u64) (\<lambda>ideal_bob_bit.
     draw_then (maybe_flip ch next_u64 ideal_bob_bit) (\<lambda>bob_bit s.
       (Inr (if alice_basis = bob_basis then Some (alice_bit, bob_bit) else None), s))))))"

text \<open>The transmission loop: the sifted bits of both, in order.\<close>

fun transmit :: "quantum_channel \<Rightarrow> ('s, u64) drawn \<Rightarrow> nat \<Rightarrow> bytes \<Rightarrow> bytes \<Rightarrow> ('s, bytes \<times> bytes) drawn" where
  "transmit ch next_u64 0 alice bob = (\<lambda>s. (Inr (alice, bob), s))"
| "transmit ch next_u64 (Suc n) alice bob =
     draw_then (send_qubit ch next_u64) (\<lambda>r.
       case r of
         Some (a, b) \<Rightarrow> transmit ch next_u64 n (alice @ [a]) (bob @ [b])
       | None \<Rightarrow> transmit ch next_u64 n alice bob)"

text \<open>\<open>idx.swap(i, j)\<close> and the shuffle, for \<open>i\<close> counting down to 1.\<close>

definition swap :: "'a list \<Rightarrow> nat \<Rightarrow> nat \<Rightarrow> 'a list" where
  "swap xs i j = xs[i := xs ! j, j := xs ! i]"

fun shuffle :: "('s, u64) drawn \<Rightarrow> nat \<Rightarrow> nat list \<Rightarrow> ('s, nat list) drawn" where
  "shuffle next_u64 0 idx = (\<lambda>s. (Inr idx, s))"
| "shuffle next_u64 (Suc i) idx =
     draw_then next_u64 (\<lambda>r. shuffle next_u64 i (swap idx (Suc i) (unat r mod (Suc i + 1))))"

definition random_unique_indices :: "('s, u64) drawn \<Rightarrow> nat \<Rightarrow> nat \<Rightarrow> ('s, nat list) drawn" where
  "random_unique_indices next_u64 len sample_size =
     draw_then (shuffle next_u64 (len - 1) [0..<len]) (\<lambda>idx s. (Inr (take sample_size idx), s))"

text \<open>\<open>is_sample\<close>, the mark of every sampled position; the indices are in range
  (\<open>random_unique_indices_range\<close> below).\<close>

definition sample_marks :: "nat \<Rightarrow> nat list \<Rightarrow> bool list" where
  "sample_marks len idx = foldl (\<lambda>marks i. marks[i := True]) (replicate len False) idx"

definition bb84_run :: "bb84 \<Rightarrow> ('s, u64) drawn \<Rightarrow> ('s, qkd_report) drawn" where
  "bb84_run sim next_u64 =
     (let n = qp_qubit_count (bb_params sim); sample_size = qp_sample_size (bb_params sim)
      in draw_then (transmit (bb_channel sim) next_u64 n [] []) (\<lambda>(alice, bob).
           if length alice < sample_size then (\<lambda>s. (Inl InsufficientSiftedBits, s))
           else draw_then (random_unique_indices next_u64 (length alice) sample_size) (\<lambda>sample s.
             let marks = sample_marks (length alice) sample;
                 mismatches = length (filter (\<lambda>i. alice ! i \<noteq> bob ! i) sample);
                 qber = f64_div mismatches sample_size
             in (Inr \<lparr>qr_raw_bits = n, qr_sifted_bits = length alice, qr_sampled_bits = sample_size,
                   qr_mismatches = mismatches, qr_qber = qber,
                   qr_accepted = f64_le qber (qp_max_qber (bb_params sim)),
                   qr_final_key_bits = map snd (filter (\<lambda>(i, _). \<not> marks ! i) (enumerate 0 alice))\<rparr>, s))))"

section \<open>Draws\<close>

lemma draw_then_Inr:
  "(draw_then m f s = (Inr y, s')) = (\<exists>x s1. m s = (Inr x, s1) \<and> f x s1 = (Inr y, s'))"
  by (auto simp: draw_then_def split: prod.splits sum.splits)

lemma unit_f64_nonneg: "\<exists>r. unit_f64 x = Fin r \<and> 0 \<le> r"
proof -
  have "0 \<le> f64_of_uint (uint x)"
    by (simp add: f64_of_uint_def Let_def round_even_nonneg)
  moreover have "0 < f64_of_uint (f64_of_uint (2 ^ 64 - 1) + 1)"
    by code_simp
  ultimately show ?thesis
    by (simp add: unit_f64_def f64_quot_nonneg)
qed

lemma bit_and_1: "ucast ((x :: u64) AND 1) \<in> {0, 1 :: u8}"
proof -
  have "x mod 2 = 0 \<or> x mod 2 = 1"
    by (cases "even x") (simp_all add: odd_iff_mod_2_eq_one even_iff_mod_2_eq_zero)
  then show ?thesis
    unfolding and_one_eq by (elim disjE) (simp_all only: unsigned_0 unsigned_1 insert_iff simp_thms)
qed

lemma next_bit_01: "next_bit nx s = (Inr b, s') \<Longrightarrow> b \<in> {0, 1}"
  using bit_and_1 by (auto simp: next_bit_def draw_then_Inr)

lemma maybe_flip_01: "maybe_flip ch nx b s = (Inr b', s') \<Longrightarrow> b' = b \<or> b' = b XOR 1"
  by (auto simp: maybe_flip_def draw_then_Inr split: if_splits)

lemma maybe_flip_silent:
  assumes "qc_bit_flip_probability ch = Fin 0" "maybe_flip ch nx b s = (Inr b', s')"
  shows "b' = b"
proof -
  have "\<not> f64_lt (unit_f64 x) (Fin 0)" for x
    using unit_f64_nonneg [of x] by auto
  then show ?thesis
    using assms by (auto simp: maybe_flip_def draw_then_Inr next_unit_f64_def split: if_splits)
qed

lemma send_qubit_bits:
  assumes "send_qubit ch nx s = (Inr (Some (a, b)), s')"
  shows "a \<in> {0, 1} \<and> (b = a \<or> b = a XOR 1)" "qc_bit_flip_probability ch = Fin 0 \<Longrightarrow> b = a"
  using assms by (auto simp: send_qubit_def draw_then_Inr split: if_splits
      dest: next_bit_01 maybe_flip_01 maybe_flip_silent)

lemma transmit_lists:
  assumes "transmit ch nx n alice bob s = (Inr (alice', bob'), s')" "list_all2 Q alice bob"
    and "\<And>s a b s'. send_qubit ch nx s = (Inr (Some (a, b)), s') \<Longrightarrow> Q a b"
  shows "list_all2 Q alice' bob' \<and> length alice' \<le> length alice + n"
  using assms(1,2)
proof (induction n arbitrary: alice bob s)
  case 0
  then show ?case by simp
next
  case (Suc n)
  then obtain r s1 where r: "send_qubit ch nx s = (Inr r, s1)"
    "(case r of Some (a, b) \<Rightarrow> transmit ch nx n (alice @ [a]) (bob @ [b]) | None \<Rightarrow> transmit ch nx n alice bob) s1
       = (Inr (alice', bob'), s')"
    by (auto simp: draw_then_Inr)
  show ?case
  proof (cases r)
    case None
    then show ?thesis
      using Suc.IH [of alice bob s1] Suc.prems(2) r(2) by simp
  next
    case (Some ab)
    obtain a b where ab: "ab = (a, b)"
      by (cases ab)
    have "list_all2 Q (alice @ [a]) (bob @ [b])"
      using Suc.prems(2) assms(3) r(1) Some ab by (auto intro: list_all2_appendI)
    then show ?thesis
      using Suc.IH [of "alice @ [a]" "bob @ [b]" s1] r(2) Some ab by simp
  qed
qed

section \<open>The sample\<close>

lemma swap_mset: "i < length xs \<Longrightarrow> j < length xs \<Longrightarrow> mset (swap xs i j) = mset xs"
  by (simp add: swap_def mset_swap)

lemma shuffle_mset:
  "shuffle nx i xs s = (Inr ys, s') \<Longrightarrow> i < length xs \<Longrightarrow> mset ys = mset xs"
proof (induction i arbitrary: xs s)
  case 0
  then show ?case by simp
next
  case (Suc i)
  obtain r :: u64 and s1 where r: "shuffle nx i (swap xs (Suc i) (unat r mod (Suc i + 1))) s1 = (Inr ys, s')"
    using Suc.prems(1) by (simp only: shuffle.simps draw_then_Inr) blast
  have j: "unat r mod (Suc i + 1) < length xs"
  proof -
    have "unat r mod (Suc i + 1) < Suc i + 1"
      by simp
    then show ?thesis
      using Suc.prems(2) by linarith
  qed
  have "length (swap xs (Suc i) (unat r mod (Suc i + 1))) = length xs"
    by (simp add: swap_def)
  then show ?case
    using Suc.IH [OF r] Suc.prems(2) swap_mset [OF Suc.prems(2) j] by simp
qed

lemma random_unique_indices_range:
  assumes "random_unique_indices nx len k s = (Inr sample, s')" "k \<le> len"
  shows "distinct sample" "set sample \<subseteq> {..<len}" "length sample = k"
proof -
  obtain idx s1 where i: "shuffle nx (len - 1) [0..<len] s = (Inr idx, s1)" "sample = take k idx"
    using assms(1) by (auto simp: random_unique_indices_def draw_then_Inr)
  have m: "mset idx = mset [0..<len]"
    using i(1) by (cases len) (auto dest: shuffle_mset)
  have "distinct idx" "set idx = {..<len}" "length idx = len"
    using mset_eq_imp_distinct_iff [OF m] mset_eq_setD [OF m] mset_eq_length [OF m] by (simp_all add: atLeast0LessThan)
  then show "distinct sample" "set sample \<subseteq> {..<len}" "length sample = k"
    using i(2) assms(2) by (auto dest: in_set_takeD)
qed

lemma sample_marks_nth:
  assumes "i < len"
  shows "sample_marks len idx ! i = (i \<in> set idx)"
proof -
  have "length (foldl (\<lambda>marks i. marks[i := True]) m idx) = length m \<and>
      (i < length m \<longrightarrow> foldl (\<lambda>marks i. marks[i := True]) m idx ! i = (i \<in> set idx \<or> m ! i))" for m
  proof (induction idx arbitrary: m)
    case (Cons a idx)
    have "i < length m \<longrightarrow> m[a := True] ! i = (i = a \<or> m ! i)"
      by (cases "i = a") simp_all
    then show ?case
      using Cons.IH [of "m[a := True]"] by auto
  qed simp
  then show ?thesis
    using assms by (simp add: sample_marks_def)
qed

lemma unsampled_length:
  assumes "distinct sample" "set sample \<subseteq> {..<length xs}"
  shows "length (filter (\<lambda>(i, _). \<not> sample_marks (length xs) sample ! i) (enumerate 0 xs)) = length xs - length sample"
proof -
  let ?P = "\<lambda>(i, _). \<not> sample_marks (length xs) sample ! i"
  have "length (filter ?P (enumerate 0 xs)) = card {i. i < length xs \<and> ?P (enumerate 0 xs ! i)}"
    by (simp add: length_filter_conv_card)
  also have "{i. i < length xs \<and> ?P (enumerate 0 xs ! i)} = {..<length xs} - set sample"
    by (auto simp: nth_enumerate_eq sample_marks_nth)
  also have "card \<dots> = length xs - length sample"
    using assms by (simp add: card_Diff_subset distinct_card)
  finally show ?thesis .
qed

lemma bb84_run_cases:
  assumes "bb84_run sim nx s = (Inr r, s')" "n = qp_qubit_count (bb_params sim)" "k = qp_sample_size (bb_params sim)"
  obtains alice bob sample s1 where "transmit (bb_channel sim) nx n [] [] s = (Inr (alice, bob), s1)"
    and "k \<le> length alice" "random_unique_indices nx (length alice) k s1 = (Inr sample, s')"
    and "r = \<lparr>qr_raw_bits = n, qr_sifted_bits = length alice, qr_sampled_bits = k,
           qr_mismatches = length (filter (\<lambda>i. alice ! i \<noteq> bob ! i) sample),
           qr_qber = f64_div (length (filter (\<lambda>i. alice ! i \<noteq> bob ! i) sample)) k,
           qr_accepted = f64_le (f64_div (length (filter (\<lambda>i. alice ! i \<noteq> bob ! i) sample)) k) (qp_max_qber (bb_params sim)),
           qr_final_key_bits = map snd (filter (\<lambda>(i, _). \<not> sample_marks (length alice) sample ! i) (enumerate 0 alice))\<rparr>"
  using assms by (fastforce simp: bb84_run_def draw_then_Inr Let_def split: if_splits)

lemma unsampled_nths:
  "map snd (filter (\<lambda>(i, _). \<not> sample_marks (length xs) sample ! i) (enumerate 0 xs)) = nths xs (- set sample)"
proof -
  have "filter (\<lambda>(i, _). \<not> sample_marks (length xs) sample ! i) (enumerate 0 xs) =
      filter (\<lambda>(i, _). i \<notin> set sample) (enumerate 0 xs)"
    by (rule filter_cong) (auto simp: in_set_enumerate_eq sample_marks_nth)
  moreover have "enumerate 0 xs = map prod.swap (zip xs [0..<length xs])"
    by (simp add: enumerate_eq_zip zip_commute [of xs] comp_def case_prod_beta)
  ultimately show ?thesis
    by (simp add: nths_def filter_map comp_def case_prod_beta)
qed

lemma mismatches_card:
  "distinct sample \<Longrightarrow> length (filter P sample) = card {i \<in> set sample. P i}"
  by (metis distinct_card distinct_filter set_filter)

text \<open>
  C17. A report is that of the session it ends.  For every entropy source with which the run ends in a
  report there are the sifted bits of both parties, as many of one as of the other, no more than qubits
  were sent, all 0 or 1 and equal on a noiseless channel, and the positions that were drawn from them
  without replacement, as many as the sample size, such that the report is exactly this: the mismatches are the
  sampled positions at which the two differ, the error rate is their quotient by the sample size, the
  verdict compares it with the bound, and the key is the first party's sifted bits at the positions not
  sampled, in order.  So no bit of the key was compared in public, and none that was not is missing.
\<close>

theorem bb84_report:
  assumes "bb84_run sim nx s = (Inr r, s')" "n = qp_qubit_count (bb_params sim)" "k = qp_sample_size (bb_params sim)"
  shows "\<exists>alice bob sample s1.
    transmit (bb_channel sim) nx n [] [] s = (Inr (alice, bob), s1) \<and>
    random_unique_indices nx (length alice) k s1 = (Inr sample, s') \<and>
    length bob = length alice \<and> length alice \<le> n \<and> set alice \<subseteq> {0, 1} \<and>
    (qc_bit_flip_probability (bb_channel sim) = Fin 0 \<longrightarrow> bob = alice) \<and>
    distinct sample \<and> set sample \<subseteq> {..<length alice} \<and> length sample = k \<and>
    qr_raw_bits r = n \<and> qr_sifted_bits r = length alice \<and> qr_sampled_bits r = k \<and>
    qr_mismatches r = card {i \<in> set sample. alice ! i \<noteq> bob ! i} \<and>
    qr_qber r = f64_div (qr_mismatches r) k \<and> qr_accepted r = f64_le (qr_qber r) (qp_max_qber (bb_params sim)) \<and>
    qr_final_key_bits r = nths alice (- set sample)"
proof -
  obtain alice bob sample s1 where
    t: "transmit (bb_channel sim) nx n [] [] s = (Inr (alice, bob), s1)" and
    k: "k \<le> length alice" and i: "random_unique_indices nx (length alice) k s1 = (Inr sample, s')" and
    r: "r = \<lparr>qr_raw_bits = n, qr_sifted_bits = length alice, qr_sampled_bits = k,
           qr_mismatches = length (filter (\<lambda>i. alice ! i \<noteq> bob ! i) sample),
           qr_qber = f64_div (length (filter (\<lambda>i. alice ! i \<noteq> bob ! i) sample)) k,
           qr_accepted = f64_le (f64_div (length (filter (\<lambda>i. alice ! i \<noteq> bob ! i) sample)) k) (qp_max_qber (bb_params sim)),
           qr_final_key_bits = map snd (filter (\<lambda>(i, _). \<not> sample_marks (length alice) sample ! i) (enumerate 0 alice))\<rparr>"
    by (rule bb84_run_cases [OF assms])
  note smp = random_unique_indices_range [OF i k]
  let ?Q = "\<lambda>a b. a \<in> {0, 1} \<and> (qc_bit_flip_probability (bb_channel sim) = Fin 0 \<longrightarrow> b = a)"
  have "?Q a b" if "send_qubit (bb_channel sim) nx s = (Inr (Some (a, b)), s')" for a b s s'
    using send_qubit_bits [OF that] by blast
  from transmit_lists [OF t, of ?Q, OF list_all2_Nil [THEN iffD2] this]
  have q: "list_all2 ?Q alice bob" "length alice \<le> n"
    by simp_all
  then have "length bob = length alice" "set alice \<subseteq> {0, 1}"
    by (auto simp: list_all2_conv_all_nth in_set_conv_nth)
  moreover have "bob = alice" if "qc_bit_flip_probability (bb_channel sim) = Fin 0"
    using q(1) that by (auto simp: list_all2_conv_all_nth intro: nth_equalityI)
  ultimately show ?thesis
    using t i smp q(2) by (intro exI [of _ alice] exI [of _ bob] exI [of _ sample] exI [of _ s1])
      (simp add: r unsampled_nths mismatches_card)
qed

theorem bb84_report_witness:
  "\<exists>r s' sample. bb84_run \<lparr>bb_params = \<lparr>qp_qubit_count = 3, qp_sample_size = 1, qp_max_qber = Fin 0\<rparr>,
       bb_channel = \<lparr>qc_bit_flip_probability = Fin 0\<rparr>\<rparr> (\<lambda>s. (Inr 0, s)) () = (Inr r, s') \<and>
     length sample = 1 \<and> qr_mismatches r = 0 \<and> qr_final_key_bits r = nths [0, 0, 0] (- set sample)"
proof -
  let ?sim = "\<lparr>bb_params = \<lparr>qp_qubit_count = 3, qp_sample_size = 1, qp_max_qber = Fin 0\<rparr>,
       bb_channel = \<lparr>qc_bit_flip_probability = Fin 0\<rparr>\<rparr>"
  have "case bb84_run ?sim (\<lambda>s. (Inr 0, s)) () of (Inr r, s') \<Rightarrow> True | (Inl e, s') \<Rightarrow> False"
    by code_simp
  then obtain r s' where r: "bb84_run ?sim (\<lambda>s. (Inr 0, s)) () = (Inr r, s')"
    by (auto split: prod.splits sum.splits)
  have "transmit \<lparr>qc_bit_flip_probability = Fin 0\<rparr> (\<lambda>s. (Inr 0, s)) 3 [] [] () = (Inr ([0, 0, 0], [0, 0, 0]), ())"
    by code_simp
  then show ?thesis
    using bb84_report [OF r refl refl] r by auto
qed

section \<open>An entropy source that does not run dry\<close>

text \<open>Every draw of the source succeeds and keeps a property of its state; then so does every
  operation built from it.\<close>

definition live :: "('s \<Rightarrow> bool) \<Rightarrow> ('s, 'a) drawn \<Rightarrow> bool" where
  "live alive m = (\<forall>s. alive s \<longrightarrow> (\<exists>x s'. m s = (Inr x, s') \<and> alive s'))"

lemma liveI: "(\<And>s. alive s \<Longrightarrow> \<exists>x s'. m s = (Inr x, s') \<and> alive s') \<Longrightarrow> live alive m"
  by (simp add: live_def)

lemma live_return: "live alive (\<lambda>s. (Inr x, s))"
  by (simp add: live_def)

lemma live_then: "live alive m \<Longrightarrow> (\<And>x. live alive (f x)) \<Longrightarrow> live alive (draw_then m f)"
  unfolding live_def draw_then_def by fastforce

locale entropy_source =
  fixes next_u64 :: "('s, u64) drawn"
    and alive :: "'s \<Rightarrow> bool"
  assumes next_live: "live alive next_u64"
begin

lemma next_bit_live: "live alive (next_bit next_u64)"
  unfolding next_bit_def by (intro live_then live_return next_live)

lemma basis_random_live: "live alive (basis_random next_u64)"
  unfolding basis_random_def by (intro live_then live_return next_bit_live)

lemma maybe_flip_live: "live alive (maybe_flip ch next_u64 b)"
  unfolding maybe_flip_def next_unit_f64_def by (intro live_then live_return next_live)

lemma send_qubit_live: "live alive (send_qubit ch next_u64)"
proof -
  have "live alive (if c then (\<lambda>s. (Inr b, s)) else next_bit next_u64)" for c b
    by (simp add: live_return next_bit_live)
  then show ?thesis
    unfolding send_qubit_def
    by (intro live_then live_return next_bit_live basis_random_live maybe_flip_live) assumption
qed

lemma transmit_live: "live alive (transmit ch next_u64 n a b)"
  by (induction n arbitrary: a b) (auto intro!: live_then live_return send_qubit_live split: option.splits)

lemma shuffle_live: "live alive (shuffle next_u64 i idx)"
  by (induction i arbitrary: idx) (auto intro!: live_then live_return next_live)

lemma random_unique_indices_live: "live alive (random_unique_indices next_u64 len k)"
  unfolding random_unique_indices_def by (intro live_then live_return shuffle_live)

lemma run_live:
  assumes "alive s"
  shows "alive (snd (bb84_run sim next_u64 s)) \<and>
    (case fst (bb84_run sim next_u64 s) of Inl e \<Rightarrow> e = InsufficientSiftedBits | Inr r \<Rightarrow> True)"
proof -
  let ?n = "qp_qubit_count (bb_params sim)" and ?k = "qp_sample_size (bb_params sim)"
  obtain alice bob s1 where t: "transmit (bb_channel sim) next_u64 ?n [] [] s = (Inr (alice, bob), s1)" "alive s1"
    using transmit_live [of "bb_channel sim" ?n "[]" "[]"] assms unfolding live_def by fast
  obtain idx s2 where i: "random_unique_indices next_u64 (length alice) ?k s1 = (Inr idx, s2)" "alive s2"
    using random_unique_indices_live [of "length alice" ?k] t(2) unfolding live_def by fast
  show ?thesis
    using t i by (simp add: bb84_run_def draw_then_def Let_def)
qed

end

lemma xor_shl_0: "x XOR push_bit k x = 0 \<Longrightarrow> 0 < k \<Longrightarrow> x = 0" for x :: u64
proof -
  assume "x XOR push_bit k x = 0" "0 < k"
  then have eq: "x = push_bit k x"
    by (metis xor.right_neutral xor.left_commute xor_self_eq)
  have "\<not> bit x n" for n
  proof (induction n rule: less_induct)
    case (less n)
    have "bit x n = bit (push_bit k x) n"
      using eq by simp
    then show ?case
      using less [of "n - k"] \<open>0 < k\<close> by (auto simp: bit_simps)
  qed
  then show "x = 0"
    by (simp add: bit_eq_iff)
qed

lemma xor_shr_0: "x XOR drop_bit k x = 0 \<Longrightarrow> 0 < k \<Longrightarrow> x = 0" for x :: u64
proof -
  assume "x XOR drop_bit k x = 0" "0 < k"
  then have eq: "x = drop_bit k x"
    by (metis xor.right_neutral xor.left_commute xor_self_eq)
  have "\<not> bit x (64 - n)" for n
  proof (induction n rule: less_induct)
    case (less n)
    have "bit x (64 - n) = bit x (k + (64 - n))"
      using arg_cong [OF eq, of "\<lambda>y. bit y (64 - n)"] by (simp add: bit_simps)
    also have "\<dots> = False"
    proof (cases "k + (64 - n) < 64")
      case True
      then show ?thesis
        using less [of "64 - (k + (64 - n))"] \<open>0 < k\<close> by simp
    next
      case False
      then show ?thesis
        by (auto dest: bit_imp_le_length)
    qed
    finally show ?case
      by simp
  qed
  then have "\<not> bit x n" for n
  proof (cases "n < 64")
    case True
    then show ?thesis
      using \<open>\<And>n. \<not> bit x (64 - n)\<close> [of "64 - n"] by simp
  qed (auto dest: bit_imp_le_length)
  then show "x = 0"
    by (simp add: bit_eq_iff)
qed

interpretation xorshift: entropy_source xorshift_next "\<lambda>s. s \<noteq> 0"
proof unfold_locales
  show "live (\<lambda>s. s \<noteq> 0) xorshift_next"
  proof (rule liveI)
    fix s :: u64
    assume "s \<noteq> 0"
    define x where "x = s XOR push_bit 13 s"
    define y where "y = x XOR drop_bit 7 x"
    have "x \<noteq> 0"
      using \<open>s \<noteq> 0\<close> xor_shl_0 [of s 13] by (auto simp: x_def)
    then have "y \<noteq> 0"
      using xor_shr_0 [of x 7] by (auto simp: y_def)
    then have "y XOR push_bit 17 y \<noteq> 0"
      using xor_shl_0 [of y 17] by auto
    then show "\<exists>z s'. xorshift_next s = (Inr z, s') \<and> s' \<noteq> 0"
      unfolding xorshift_next_def Let_def x_def y_def by blast
  qed
qed

text \<open>
  C18. A session on the XorShift generator always comes to a verdict: from every seed, the zero seed
  included, the run ends in a report or in the error that too few bits were sifted, never in exhausted
  entropy, and the generator is never left in its absorbing zero state.
\<close>

theorem xorshift_session:
  "case bb84_run sim xorshift_next (xorshift_seed seed) of
     (r, s') \<Rightarrow> s' \<noteq> 0 \<and> (case r of Inl e \<Rightarrow> e = InsufficientSiftedBits | Inr _ \<Rightarrow> True)"
proof -
  have "xorshift_seed seed \<noteq> 0"
    by (simp add: xorshift_seed_def)
  from xorshift.run_live [OF this, of sim] show ?thesis
    by (auto split: prod.splits)
qed

text \<open>The draw from the unit interval can be 1: the doubles nearest to the largest words are 2 to the
  64th, so even a channel that flips every bit can leave one.\<close>

lemma unit_f64_reaches_one:
  "maybe_flip \<lparr>qc_bit_flip_probability = Fin 1\<rparr> (\<lambda>s. (Inr (- 1), s)) b s = (Inr b, s)"
proof -
  have "f64_lt (unit_f64 (- 1)) (Fin 1) = False"
    by code_simp
  then show ?thesis
    by (simp add: maybe_flip_def next_unit_f64_def draw_then_def)
qed


end
