(* ===== verification/Json.thy ===== *)
theory Json
  imports Utf8
begin

text \<open>
  JSON values as \<open>serde_json\<close> reads and writes them, for the structures that carry serde attributes.
  The text of a value is the business of the crate: its printer and parser are parameters
  (\<open>json_text\<close>), of which \<open>lawful_json\<close> says that a printed value is parsed back if its numbers are
  integers of 64 bits, no object repeats a name, and it nests less than the parser's limit of 128.  What a derived
  implementation does with the fields of a value follows serde's documentation: unknown fields are
  ignored, a repeated known field is an error, a missing field is an error unless its type is an
  \<open>Option\<close>, and a structure may also be given as the array of its fields in order.
\<close>

datatype json = JNull | JBool bool | JNum int | JReal string | JStr string | JArr "json list" | JObj "(string \<times> json) list"

record json_text =
  jt_print :: "json \<Rightarrow> string"
  jt_parse :: "string \<Rightarrow> string + json"
  jt_mismatch :: "json \<Rightarrow> string"

fun json_within :: "nat \<Rightarrow> json \<Rightarrow> bool" where
  "json_within d JNull = True"
| "json_within d (JBool b) = True"
| "json_within d (JNum i) = (- (2 ^ 63) \<le> i \<and> i < 2 ^ 64)"
| "json_within d (JReal s) = False"
| "json_within d (JStr s) = True"
| "json_within d (JArr js) = (0 < d \<and> list_all (json_within (d - 1)) js)"
| "json_within d (JObj fs) =
     (0 < d \<and> distinct (map fst fs) \<and> list_all (\<lambda>(k, j). json_within (d - 1) j) fs)"

definition lawful_json :: "json_text \<Rightarrow> bool" where
  "lawful_json J = (\<forall>j. json_within 127 j \<longrightarrow> jt_parse J (jt_print J j) = Inr j)"

lemma lawful_jsonD: "lawful_json J \<Longrightarrow> json_within 127 j \<Longrightarrow> jt_parse J (jt_print J j) = Inr j"
  by (simp add: lawful_json_def)

lemma json_within_uint [simp]: "LENGTH('n) \<le> 64 \<Longrightarrow> json_within d (JNum (uint (x :: 'n::len word)))"
proof -
  assume "LENGTH('n) \<le> 64"
  then have "(2 :: int) ^ LENGTH('n) \<le> 2 ^ 64"
    by (rule power_increasing) simp
  moreover have "uint x < 2 ^ LENGTH('n)"
    by (rule unsigned_less)
  ultimately have "uint x < 2 ^ 64"
    by linarith
  moreover have "- (2 ^ 63) \<le> uint x"
    by (rule order_trans [OF _ unsigned_greater_eq]) simp
  ultimately show ?thesis
    by (simp only: json_within.simps simp_thms)
qed

definition str_of :: "json \<Rightarrow> string option" where
  "str_of j = (case j of JStr s \<Rightarrow> Some s | _ \<Rightarrow> None)"

definition opt_str_of :: "json \<Rightarrow> string option option" where
  "opt_str_of j = (case j of JNull \<Rightarrow> Some None | JStr s \<Rightarrow> Some (Some s) | _ \<Rightarrow> None)"

definition bool_of :: "json \<Rightarrow> bool option" where
  "bool_of j = (case j of JBool b \<Rightarrow> Some b | _ \<Rightarrow> None)"

text \<open>An unsigned integer of the width of the result; a number with a fraction is refused.\<close>

definition uint_of :: "json \<Rightarrow> 'n::len word option" where
  "uint_of j =
     (case j of JNum i \<Rightarrow> if 0 \<le> i \<and> i < 2 ^ LENGTH('n) then Some (word_of_int i) else None | _ \<Rightarrow> None)"

text \<open>A variant without data: its name, or an object with that one member and \<open>null\<close>.\<close>

definition variant_of :: "json \<Rightarrow> string option" where
  "variant_of j = (case j of JStr s \<Rightarrow> Some s | JObj [(s, JNull)] \<Rightarrow> Some s | _ \<Rightarrow> None)"

text \<open>All elements of an array, \<open>None\<close> when one of them is refused.\<close>

fun all_some :: "('a \<Rightarrow> 'b option) \<Rightarrow> 'a list \<Rightarrow> 'b list option" where
  "all_some f [] = Some []"
| "all_some f (x # xs) =
     (case f x of None \<Rightarrow> None | Some y \<Rightarrow> map_option ((#) y) (all_some f xs))"

definition list_of :: "(json \<Rightarrow> 'a option) \<Rightarrow> json \<Rightarrow> 'a list option" where
  "list_of f j = (case j of JArr js \<Rightarrow> all_some f js | _ \<Rightarrow> None)"

text \<open>The fields of a structure with the given names: from an object, by name; from an array, by
  position.  \<open>None\<close> is a repeated field or a wrong number of elements; a missing field of an object is
  \<open>None\<close> in the list.\<close>

definition struct_fields :: "string list \<Rightarrow> json \<Rightarrow> json option list option" where
  "struct_fields names j =
     (case j of
        JObj fs \<Rightarrow>
          (if distinct (filter (\<lambda>n. n \<in> set names) (map fst fs)) then Some (map (map_of fs) names) else None)
      | JArr js \<Rightarrow> if length js = length names then Some (map Some js) else None
      | _ \<Rightarrow> None)"

text \<open>A field that must be present, and one of type \<open>Option\<close>.\<close>

definition field :: "(json \<Rightarrow> 'a option) \<Rightarrow> json option \<Rightarrow> 'a option" where
  "field f x = Option.bind x f"

definition opt_field :: "json option \<Rightarrow> string option option" where
  "opt_field x = (case x of None \<Rightarrow> Some None | Some j \<Rightarrow> opt_str_of j)"

lemma str_of_simps [simp]: "str_of (JStr s) = Some s" "opt_str_of (JStr s) = Some (Some s)" "opt_str_of JNull = Some None"
  by (simp_all add: str_of_def opt_str_of_def)

lemma field_simps [simp]: "field f None = None" "field f (Some j) = f j" "opt_field None = Some None"
  "opt_field (Some j) = opt_str_of j"
  by (simp_all add: field_def opt_field_def)

lemma all_some_map: "(\<And>x. x \<in> set xs \<Longrightarrow> f (g x) = Some x) \<Longrightarrow> all_some f (map g xs) = Some xs"
  by (induction xs) simp_all

lemma list_of_map: "(\<And>x. x \<in> set xs \<Longrightarrow> f (g x) = Some x) \<Longrightarrow> list_of f (JArr (map g xs)) = Some xs"
  by (simp add: list_of_def all_some_map)

definition bytes_value :: "bytes \<Rightarrow> json" where
  "bytes_value bs = JArr (map (\<lambda>b. JNum (uint b)) bs)"

definition opt_value :: "('a \<Rightarrow> json) \<Rightarrow> 'a option \<Rightarrow> json" where
  "opt_value f x = (case x of None \<Rightarrow> JNull | Some y \<Rightarrow> f y)"

lemma json_within_bytes [simp]: "json_within d (bytes_value bs) = (0 < d)"
  by (simp add: bytes_value_def list_all_iff del: json_within.simps(3))

lemma json_within_opt [simp]: "(\<And>y. json_within d (f y)) \<Longrightarrow> json_within d (opt_value f x)"
  by (simp add: opt_value_def split: option.splits)

text \<open>An \<open>Option\<close> member that is always written: absent or \<open>null\<close> is \<open>None\<close>.\<close>

definition option_field :: "(json \<Rightarrow> 'a option) \<Rightarrow> json option \<Rightarrow> 'a option option" where
  "option_field f x =
     (case x of None \<Rightarrow> Some None | Some j \<Rightarrow> if j = JNull then Some None else map_option Some (f j))"

definition bytes_of :: "json \<Rightarrow> bytes option" where
  "bytes_of = list_of uint_of"

lemma uint_of_uint [simp]: "uint_of (JNum (uint x)) = Some x"
  by (simp add: uint_of_def)

lemma simple_of_simps [simp]: "bool_of (JBool b) = Some b" "variant_of (JStr s) = Some s"
  by (simp_all add: bool_of_def variant_of_def)

lemma bytes_of_value [simp]: "bytes_of (bytes_value bs) = Some bs"
  unfolding bytes_of_def bytes_value_def by (rule list_of_map) simp

lemma option_field_value [simp]:
  "option_field f None = Some None"
  "(\<And>y. f (g y) = Some y) \<Longrightarrow> (\<And>y. g y \<noteq> JNull) \<Longrightarrow> option_field f (Some (opt_value g x)) = Some x"
  by (auto simp: option_field_def opt_value_def split: option.splits)

lemma bytes_value_not_null [simp]: "bytes_value bs \<noteq> JNull"
  by (simp add: bytes_value_def)

text \<open>\<open>serde_json::to_vec\<close> and \<open>from_slice\<close>: the same text as bytes.\<close>

definition json_to_vec :: "json_text \<Rightarrow> json \<Rightarrow> bytes" where
  "json_to_vec J j = as_bytes (jt_print J j)"

definition json_from_slice :: "json_text \<Rightarrow> (json \<Rightarrow> 'a option) \<Rightarrow> bytes \<Rightarrow> string + 'a" where
  "json_from_slice J f bs =
     (case jt_parse J (bytes_to_string bs) of
        Inl e \<Rightarrow> Inl e
      | Inr j \<Rightarrow> ok_or (jt_mismatch J j) (f j))"

lemma json_from_slice_to_vec:
  "lawful_json J \<Longrightarrow> json_within 127 j \<Longrightarrow> f j = Some x \<Longrightarrow> json_from_slice J f (json_to_vec J j) = Inr x"
  by (simp add: json_from_slice_def json_to_vec_def lawful_jsonD)

text \<open>An instance of the text layer, for witnesses: a bracketed prefix form with lengths in unary.\<close>

definition unary :: "nat \<Rightarrow> string" where
  "unary n = replicate n CHR ''1'' @ ''0''"

definition read_unary :: "string \<Rightarrow> nat \<times> string" where
  "read_unary s = (length (takeWhile (\<lambda>c. c = CHR ''1'') s), tl (dropWhile (\<lambda>c. c = CHR ''1'') s))"

lemma read_unary [simp]: "read_unary (unary n @ s) = (n, s)"
  by (induction n) (simp_all add: read_unary_def unary_def)

definition put_text :: "string \<Rightarrow> string" where
  "put_text s = unary (length s) @ s"

definition get_text :: "string \<Rightarrow> string \<times> string" where
  "get_text s = (case read_unary s of (n, r) \<Rightarrow> (take n r, drop n r))"

lemma get_text [simp]: "get_text (put_text s @ r) = (s, r)"
  by (simp add: get_text_def put_text_def)

fun toy_print :: "json \<Rightarrow> string" where
  "toy_print JNull = ''n''"
| "toy_print (JBool b) = (if b then ''t'' else ''f'')"
| "toy_print (JNum i) = (if i < 0 then ''-'' @ unary (nat (- i)) else ''+'' @ unary (nat i))"
| "toy_print (JReal s) = ''r'' @ put_text s"
| "toy_print (JStr s) = ''s'' @ put_text s"
| "toy_print (JArr js) = ''a'' @ unary (length js) @ concat (map toy_print js)"
| "toy_print (JObj fs) = ''o'' @ unary (length fs) @ concat (map (\<lambda>(k, j). put_text k @ toy_print j) fs)"

text \<open>The reader, with fuel for the nesting depth.\<close>

fun read_many :: "(string \<Rightarrow> 'a \<times> string) \<Rightarrow> nat \<Rightarrow> string \<Rightarrow> 'a list \<times> string" where
  "read_many f 0 s = ([], s)"
| "read_many f (Suc n) s = (case f s of (x, r) \<Rightarrow> case read_many f n r of (xs, r') \<Rightarrow> (x # xs, r'))"

fun toy_read :: "nat \<Rightarrow> string \<Rightarrow> json \<times> string" where
  "toy_read 0 s = (JNull, s)"
| "toy_read (Suc d) [] = (JNull, [])"
| "toy_read (Suc d) (c # s) =
     (if c = CHR ''t'' then (JBool True, s)
      else if c = CHR ''f'' then (JBool False, s)
      else if c = CHR ''-'' then (case read_unary s of (n, r) \<Rightarrow> (JNum (- int n), r))
      else if c = CHR ''+'' then (case read_unary s of (n, r) \<Rightarrow> (JNum (int n), r))
      else if c = CHR ''s'' then (case get_text s of (t, r) \<Rightarrow> (JStr t, r))
      else if c = CHR ''r'' then (case get_text s of (t, r) \<Rightarrow> (JReal t, r))
      else if c = CHR ''a'' then
        (case read_unary s of (n, r) \<Rightarrow> case read_many (toy_read d) n r of (js, r') \<Rightarrow> (JArr js, r'))
      else if c = CHR ''o'' then
        (case read_unary s of (n, r) \<Rightarrow>
           case read_many (\<lambda>s. case get_text s of (k, r) \<Rightarrow> case toy_read d r of (j, r') \<Rightarrow> ((k, j), r')) n r of
             (fs, r') \<Rightarrow> (JObj fs, r'))
      else (JNull, s))"

fun depth :: "json \<Rightarrow> nat" where
  "depth (JArr js) = Suc (foldr max (map depth js) 0)"
| "depth (JObj fs) = Suc (foldr max (map (\<lambda>(k, j). depth j) fs) 0)"
| "depth _ = 1"

lemma read_many_concat:
  "(\<And>x r. x \<in> set xs \<Longrightarrow> f (p x @ r) = (x, r)) \<Longrightarrow>
     read_many f (length xs) (concat (map p xs) @ r) = (xs, r)"
  by (induction xs) simp_all

lemma foldr_max_ge: "x \<in> set xs \<Longrightarrow> x \<le> foldr max xs (0 :: nat)"
  by (induction xs) auto

lemma toy_read_print: "depth j \<le> d \<Longrightarrow> toy_read d (toy_print j @ r) = (j, r)"
proof (induction j arbitrary: d r)
  case (JArr js)
  then obtain e where d: "d = Suc e" "foldr max (map depth js) 0 \<le> e"
    by (cases d) auto
  have "toy_read e (toy_print j @ r) = (j, r)" if "j \<in> set js" for j r
    using JArr.IH [OF that, of e r] foldr_max_ge [of "depth j" "map depth js"] that d(2) by auto
  then show ?case
    using read_many_concat [of js "toy_read e" toy_print r] by (simp add: d(1))
next
  case (JObj fs)
  then obtain e where d: "d = Suc e" "foldr max (map (\<lambda>(k, j). depth j) fs) 0 \<le> e"
    by (cases d) auto
  let ?f = "\<lambda>s. case get_text s of (k, r) \<Rightarrow> case toy_read e r of (j, r') \<Rightarrow> ((k, j), r')"
  have "?f ((case kj of (k, j) \<Rightarrow> put_text k @ toy_print j) @ r) = (kj, r)" if m: "kj \<in> set fs" for kj r
  proof -
    obtain k j where kj: "kj = (k, j)"
      by (cases kj)
    have "depth j \<in> set (map (\<lambda>(k, j). depth j) fs)"
      using m kj by force
    then have "depth j \<le> e"
      using foldr_max_ge d(2) by (meson order_trans)
    then show ?thesis
      using JObj.IH [OF m, of j e r] kj by simp
  qed
  then show ?case
    using read_many_concat [of fs ?f "\<lambda>(k, j). put_text k @ toy_print j" r] by (simp add: d(1))
next
  case JNull
  then show ?case by (cases d) simp_all
next
  case (JBool b)
  then show ?case by (cases d) simp_all
next
  case (JNum i)
  then show ?case by (cases d) simp_all
next
  case (JReal s)
  then show ?case by (cases d) simp_all
next
  case (JStr s)
  then show ?case by (cases d) simp_all
qed

text \<open>The printed form starts with the depth, the reader's fuel.\<close>

definition toy_json :: json_text where
  "toy_json = \<lparr>jt_print = (\<lambda>j. unary (depth j) @ toy_print j),
     jt_parse = (\<lambda>s. case read_unary s of (d, r) \<Rightarrow> Inr (fst (toy_read d r))), jt_mismatch = (\<lambda>_. ''mismatch'')\<rparr>"

lemma toy_json_lawful: "lawful_json toy_json"
  using toy_read_print [of _ _ "[]"] by (simp add: lawful_json_def toy_json_def)

end
