(* ===== verification/Jwk.thy ===== *)
theory Jwk
  imports Json
begin

text \<open>
  \<open>src/interop/jwk.rs\<close>: post-quantum keys as JSON web keys.  The base64url engine is a pair of
  parameters; the JSON of a key is written from the attributes of \<open>PqcJwk\<close>.
\<close>

datatype jwk_error = UnsupportedKeyType string | MissingField string | DecodeError string | EmptyKey

datatype pqc_algorithm = MlDsa65 | MlKem1024

fun alg_str :: "pqc_algorithm \<Rightarrow> string" where
  "alg_str MlDsa65 = ''ML-DSA-65''"
| "alg_str MlKem1024 = ''ML-KEM-1024''"

definition algorithm_from_str :: "string \<Rightarrow> jwk_error + pqc_algorithm" where
  "algorithm_from_str s =
     (if s = ''ML-DSA-65'' then Inr MlDsa65
      else if s = ''ML-KEM-1024'' then Inr MlKem1024
      else Inl (UnsupportedKeyType s))"

record pqc_jwk =
  jk_kty :: string
  jk_alg :: string
  jk_crv :: string
  jk_x :: string
  jk_d :: "string option"
  jk_kid :: "string option"

text \<open>The engine \<open>URL_SAFE_NO_PAD\<close>; its decoding error is given as text.\<close>

record base64url =
  bu_encode :: "bytes \<Rightarrow> string"
  bu_decode :: "string \<Rightarrow> string + bytes"

definition lawful_base64url :: "base64url \<Rightarrow> bool" where
  "lawful_base64url B = (\<forall>x. bu_decode B (bu_encode B x) = Inr x)"

definition from_public :: "base64url \<Rightarrow> pqc_algorithm \<Rightarrow> bytes \<Rightarrow> string option \<Rightarrow> jwk_error + pqc_jwk" where
  "from_public B algorithm public_key kid =
     (if public_key = [] then Inl EmptyKey
      else Inr \<lparr>jk_kty = ''OKP'', jk_alg = alg_str algorithm, jk_crv = alg_str algorithm,
                jk_x = bu_encode B public_key, jk_d = None, jk_kid = kid\<rparr>)"

definition from_keypair ::
  "base64url \<Rightarrow> pqc_algorithm \<Rightarrow> bytes \<Rightarrow> bytes \<Rightarrow> string option \<Rightarrow> jwk_error + pqc_jwk" where
  "from_keypair B algorithm public_key private_key kid =
     (if public_key = [] \<or> private_key = [] then Inl EmptyKey
      else Inr \<lparr>jk_kty = ''OKP'', jk_alg = alg_str algorithm, jk_crv = alg_str algorithm,
                jk_x = bu_encode B public_key, jk_d = Some (bu_encode B private_key), jk_kid = kid\<rparr>)"

definition b64url_decode :: "base64url \<Rightarrow> string \<Rightarrow> jwk_error + bytes" where
  "b64url_decode B s = (case bu_decode B s of Inl e \<Rightarrow> Inl (DecodeError e) | Inr bs \<Rightarrow> Inr bs)"

definition decode_public_key :: "base64url \<Rightarrow> pqc_jwk \<Rightarrow> jwk_error + bytes" where
  "decode_public_key B k = b64url_decode B (jk_x k)"

definition decode_private_key :: "base64url \<Rightarrow> pqc_jwk \<Rightarrow> jwk_error + bytes option" where
  "decode_private_key B k =
     (case jk_d k of
        None \<Rightarrow> Inr None
      | Some d \<Rightarrow> (case b64url_decode B d of Inl e \<Rightarrow> Inl e | Inr bs \<Rightarrow> Inr (Some bs)))"

definition jwk_algorithm :: "pqc_jwk \<Rightarrow> jwk_error + pqc_algorithm" where
  "jwk_algorithm k = algorithm_from_str (jk_alg k)"

text \<open>The derived \<open>Serialize\<close> and \<open>Deserialize\<close> of \<open>PqcJwk\<close>: the two optional fields are left out when
  absent.\<close>

definition opt_member :: "string \<Rightarrow> string option \<Rightarrow> (string \<times> json) list" where
  "opt_member name v = (case v of None \<Rightarrow> [] | Some s \<Rightarrow> [(name, JStr s)])"

definition jwk_value :: "pqc_jwk \<Rightarrow> json" where
  "jwk_value k =
     JObj ([(''kty'', JStr (jk_kty k)), (''alg'', JStr (jk_alg k)), (''crv'', JStr (jk_crv k)), (''x'', JStr (jk_x k))] @
       opt_member ''d'' (jk_d k) @ opt_member ''kid'' (jk_kid k))"

definition jwk_of_value :: "json \<Rightarrow> pqc_jwk option" where
  "jwk_of_value j =
     (case struct_fields [''kty'', ''alg'', ''crv'', ''x'', ''d'', ''kid''] j of
        Some [kty, alg, crv, x, d, kid] \<Rightarrow>
          Option.bind (field str_of kty) (\<lambda>kty.
          Option.bind (field str_of alg) (\<lambda>alg.
          Option.bind (field str_of crv) (\<lambda>crv.
          Option.bind (field str_of x) (\<lambda>x.
          Option.bind (opt_field d) (\<lambda>d.
          Option.bind (opt_field kid) (\<lambda>kid.
            Some \<lparr>jk_kty = kty, jk_alg = alg, jk_crv = crv, jk_x = x, jk_d = d, jk_kid = kid\<rparr>))))))
      | _ \<Rightarrow> None)"

definition jwk_to_json :: "json_text \<Rightarrow> pqc_jwk \<Rightarrow> string" where
  "jwk_to_json J k = jt_print J (jwk_value k)"

definition jwk_from_json :: "json_text \<Rightarrow> string \<Rightarrow> jwk_error + pqc_jwk" where
  "jwk_from_json J s =
     (case jt_parse J s of
        Inl e \<Rightarrow> Inl (MissingField e)
      | Inr j \<Rightarrow> (case jwk_of_value j of
                    None \<Rightarrow> Inl (MissingField (jt_mismatch J j)) | Some k \<Rightarrow> Inr k))"

section \<open>Keys survive the round trip\<close>

lemma jwk_of_value_value: "jwk_of_value (jwk_value k) = Some k"
  by (cases k; cases "jk_d k"; cases "jk_kid k")
    (simp_all add: jwk_of_value_def jwk_value_def opt_member_def struct_fields_def)

lemma json_within_jwk [simp]: "json_within d (jwk_value k) = (0 < d)"
  by (auto simp: jwk_value_def opt_member_def split: option.splits)

lemma jwk_from_to_json: "lawful_json J \<Longrightarrow> jwk_from_json J (jwk_to_json J k) = Inr k"
  by (simp add: jwk_from_json_def jwk_to_json_def lawful_jsonD jwk_of_value_value)

lemma algorithm_from_alg_str: "algorithm_from_str (alg_str a) = Inr a"
  by (cases a) (simp_all add: algorithm_from_str_def)

text \<open>
  A key pair exported as a JSON web key, written to JSON and read back gives both keys and the
  algorithm again; a public export never carries a private member, and an empty key is refused.
\<close>

theorem jwk_roundtrip:
  assumes "lawful_base64url B" "lawful_json J"
  shows "(case from_keypair B a pk sk kid of
      Inl e \<Rightarrow> e = EmptyKey \<and> (pk = [] \<or> sk = [])
    | Inr k \<Rightarrow> \<exists>k'. jwk_from_json J (jwk_to_json J k) = Inr k' \<and> decode_public_key B k' = Inr pk \<and>
        decode_private_key B k' = Inr (Some sk) \<and> jwk_algorithm k' = Inr a \<and> jk_kid k' = kid) \<and>
    (case from_public B a pk kid of
      Inl e \<Rightarrow> e = EmptyKey \<and> pk = []
    | Inr k \<Rightarrow> \<exists>k'. jwk_from_json J (jwk_to_json J k) = Inr k' \<and> decode_public_key B k' = Inr pk \<and>
        decode_private_key B k' = Inr None \<and> jwk_algorithm k' = Inr a \<and> jk_kid k' = kid)"
  using assms
  by (auto simp: from_keypair_def from_public_def jwk_from_to_json decode_public_key_def decode_private_key_def
      b64url_decode_def jwk_algorithm_def algorithm_from_alg_str lawful_base64url_def)

definition toy_base64url :: base64url where
  "toy_base64url = \<lparr>bu_encode = map (\<lambda>b. char_of (unat b)), bu_decode = (\<lambda>s. Inr (as_bytes s))\<rparr>"

lemma toy_base64url_lawful: "lawful_base64url toy_base64url"
proof -
  have u: "unat b < 256" for b :: u8
    using unsigned_less [of b, where ?'a = nat] by simp
  have "of_nat (of_char (char_of (unat b) :: char)) = b" for b :: u8
    using u [of b] by (simp add: of_char_of take_bit_eq_mod)
  then show ?thesis
    by (simp add: lawful_base64url_def toy_base64url_def as_bytes_def o_def)
qed

theorem jwk_roundtrip_witness:
  "\<exists>k k'. from_keypair toy_base64url MlKem1024 [1, 2] [3] (Some ''key-1'') = Inr k \<and>
     jwk_from_json toy_json (jwk_to_json toy_json k) = Inr k' \<and> decode_private_key toy_base64url k' = Inr (Some [3])"
  using jwk_roundtrip [OF toy_base64url_lawful toy_json_lawful, where a = MlKem1024 and pk = "[1, 2]" and sk = "[3]" and kid = "Some ''key-1''"]
  by (auto simp: from_keypair_def)

end
