(* ===== verification/Did.thy ===== *)
theory Did
  imports Jwk
begin

text \<open>
  \<open>src/interop/did.rs\<close>: DID documents.  The document is a record with the fields of \<open>DidDocument\<close>;
  its JSON is written from the serde attributes, with the three reference lists left out when empty.
\<close>

datatype did_error =
    DuplicateVerificationMethod string
  | VerificationMethodNotFound string
  | EmptyDid
  | EmptyMethodId

datatype relationship =
    Authentication | AssertionMethod | KeyAgreement | CapabilityInvocation | CapabilityDelegation

record verification_method =
  vm_id :: string
  vm_method_type :: string
  vm_controller :: string
  vm_public_key_jwk :: pqc_jwk

definition vm_new :: "string \<Rightarrow> string \<Rightarrow> pqc_jwk \<Rightarrow> verification_method" where
  "vm_new i controller jwk =
     \<lparr>vm_id = i, vm_method_type = ''JsonWebKey2020'', vm_controller = controller, vm_public_key_jwk = jwk\<rparr>"

record did_document =
  dd_context :: "string list"
  dd_id :: string
  dd_verification_methods :: "verification_method list"
  dd_authentication :: "string list"
  dd_assertion_method :: "string list"
  dd_key_agreement :: "string list"

definition did_new :: "string \<Rightarrow> did_error + did_document" where
  "did_new did =
     (if did = [] then Inl EmptyDid
      else Inr \<lparr>dd_context = [''https://www.w3.org/ns/did/v1'', ''https://w3id.org/security/suites/jws-2020/v1''],
                dd_id = did, dd_verification_methods = [], dd_authentication = [],
                dd_assertion_method = [], dd_key_agreement = []\<rparr>)"

fun add_relationship :: "string \<Rightarrow> relationship \<Rightarrow> did_document \<Rightarrow> did_document" where
  "add_relationship i Authentication d = d\<lparr>dd_authentication := dd_authentication d @ [i]\<rparr>"
| "add_relationship i AssertionMethod d = d\<lparr>dd_assertion_method := dd_assertion_method d @ [i]\<rparr>"
| "add_relationship i KeyAgreement d = d\<lparr>dd_key_agreement := dd_key_agreement d @ [i]\<rparr>"
| "add_relationship i CapabilityInvocation d = d"
| "add_relationship i CapabilityDelegation d = d"

definition add_verification_method ::
  "verification_method \<Rightarrow> relationship list \<Rightarrow> did_document \<Rightarrow> did_error + did_document" where
  "add_verification_method m rels d =
     (if vm_id m = [] then Inl EmptyMethodId
      else if list_ex (\<lambda>m'. vm_id m' = vm_id m) (dd_verification_methods d)
      then Inl (DuplicateVerificationMethod (vm_id m))
      else Inr (foldl (\<lambda>d r. add_relationship (vm_id m) r d)
                  (d\<lparr>dd_verification_methods := dd_verification_methods d @ [m]\<rparr>) rels))"

definition get_method :: "did_document \<Rightarrow> string \<Rightarrow> did_error + verification_method" where
  "get_method d i = ok_or (VerificationMethodNotFound i) (find (\<lambda>m. vm_id m = i) (dd_verification_methods d))"

definition remove_method :: "string \<Rightarrow> did_document \<Rightarrow> (did_error + unit) \<times> did_document" where
  "remove_method i d =
     (let d1 = d\<lparr>dd_verification_methods := filter (\<lambda>m. vm_id m \<noteq> i) (dd_verification_methods d)\<rparr>
      in if length (dd_verification_methods d1) = length (dd_verification_methods d)
         then (Inl (VerificationMethodNotFound i), d1)
         else (Inr (), d1\<lparr>dd_authentication := filter (\<lambda>x. x \<noteq> i) (dd_authentication d),
                     dd_assertion_method := filter (\<lambda>x. x \<noteq> i) (dd_assertion_method d),
                     dd_key_agreement := filter (\<lambda>x. x \<noteq> i) (dd_key_agreement d)\<rparr>))"

section \<open>JSON\<close>

definition str_list :: "string list \<Rightarrow> json" where
  "str_list ss = JArr (map JStr ss)"

definition nonempty_member :: "string \<Rightarrow> string list \<Rightarrow> (string \<times> json) list" where
  "nonempty_member name ss = (if ss = [] then [] else [(name, str_list ss)])"

definition vm_value :: "verification_method \<Rightarrow> json" where
  "vm_value m =
     JObj [(''id'', JStr (vm_id m)), (''type'', JStr (vm_method_type m)), (''controller'', JStr (vm_controller m)),
           (''publicKeyJwk'', jwk_value (vm_public_key_jwk m))]"

definition vm_of_value :: "json \<Rightarrow> verification_method option" where
  "vm_of_value j =
     (case struct_fields [''id'', ''type'', ''controller'', ''publicKeyJwk''] j of
        Some [i, t, c, k] \<Rightarrow>
          Option.bind (field str_of i) (\<lambda>i.
          Option.bind (field str_of t) (\<lambda>t.
          Option.bind (field str_of c) (\<lambda>c.
          Option.bind (field jwk_of_value k) (\<lambda>k.
            Some \<lparr>vm_id = i, vm_method_type = t, vm_controller = c, vm_public_key_jwk = k\<rparr>))))
      | _ \<Rightarrow> None)"

definition did_value :: "did_document \<Rightarrow> json" where
  "did_value d =
     JObj ([(''@context'', str_list (dd_context d)), (''id'', JStr (dd_id d)),
            (''verificationMethod'', JArr (map vm_value (dd_verification_methods d)))] @
       nonempty_member ''authentication'' (dd_authentication d) @
       nonempty_member ''assertionMethod'' (dd_assertion_method d) @
       nonempty_member ''keyAgreement'' (dd_key_agreement d))"

definition did_of_value :: "json \<Rightarrow> did_document option" where
  "did_of_value j =
     (case struct_fields [''@context'', ''id'', ''verificationMethod'', ''authentication'', ''assertionMethod'',
        ''keyAgreement''] j of
        Some [c, i, ms, au, am, ka] \<Rightarrow>
          Option.bind (field (list_of str_of) c) (\<lambda>c.
          Option.bind (field str_of i) (\<lambda>i.
          Option.bind (field (list_of vm_of_value) ms) (\<lambda>ms.
          Option.bind (field (list_of str_of) au) (\<lambda>au.
          Option.bind (field (list_of str_of) am) (\<lambda>am.
          Option.bind (field (list_of str_of) ka) (\<lambda>ka.
            Some \<lparr>dd_context = c, dd_id = i, dd_verification_methods = ms, dd_authentication = au,
                  dd_assertion_method = am, dd_key_agreement = ka\<rparr>))))))
      | _ \<Rightarrow> None)"

definition did_to_json :: "json_text \<Rightarrow> did_document \<Rightarrow> string" where
  "did_to_json J d = jt_print J (did_value d)"

definition did_from_json :: "json_text \<Rightarrow> string \<Rightarrow> did_error + did_document" where
  "did_from_json J s =
     (case jt_parse J s of
        Inl e \<Rightarrow> Inl EmptyDid
      | Inr j \<Rightarrow> ok_or EmptyDid (did_of_value j))"

section \<open>References\<close>

definition method_ids :: "did_document \<Rightarrow> string list" where
  "method_ids d = map vm_id (dd_verification_methods d)"

definition references :: "did_document \<Rightarrow> string list" where
  "references d = dd_authentication d @ dd_assertion_method d @ dd_key_agreement d"

lemma add_relationship_facts [simp]:
  "dd_verification_methods (add_relationship i r d) = dd_verification_methods d"
  "dd_id (add_relationship i r d) = dd_id d"
  "dd_context (add_relationship i r d) = dd_context d"
  by (cases r; simp)+

lemma add_relationships_facts [simp]:
  "dd_verification_methods (foldl (\<lambda>d r. add_relationship i r d) d rels) = dd_verification_methods d"
  "dd_id (foldl (\<lambda>d r. add_relationship i r d) d rels) = dd_id d"
  "dd_context (foldl (\<lambda>d r. add_relationship i r d) d rels) = dd_context d"
  by (induction rels arbitrary: d) simp_all

lemma add_relationships_lists:
  "dd_authentication (foldl (\<lambda>d r. add_relationship i r d) d rels) =
     dd_authentication d @ replicate (length (filter ((=) Authentication) rels)) i"
  "dd_assertion_method (foldl (\<lambda>d r. add_relationship i r d) d rels) =
     dd_assertion_method d @ replicate (length (filter ((=) AssertionMethod) rels)) i"
  "dd_key_agreement (foldl (\<lambda>d r. add_relationship i r d) d rels) =
     dd_key_agreement d @ replicate (length (filter ((=) KeyAgreement) rels)) i"
proof (induction rels arbitrary: d)
  case (Cons r rels)
  {
    case 1
    show ?case by (cases r) (simp_all add: Cons.IH)
  next
    case 2
    show ?case by (cases r) (simp_all add: Cons.IH)
  next
    case 3
    show ?case by (cases r) (simp_all add: Cons.IH)
  }
qed simp_all


definition did_inv :: "did_document \<Rightarrow> bool" where
  "did_inv d = (distinct (method_ids d) \<and> [] \<notin> set (method_ids d) \<and> set (references d) \<subseteq> set (method_ids d))"

lemma find_method:
  "find (\<lambda>m. vm_id m = i) ms = None \<longleftrightarrow> i \<notin> set (map vm_id ms)"
  "find (\<lambda>m. vm_id m = i) ms = Some m \<Longrightarrow> m \<in> set ms \<and> vm_id m = i"
  by (auto simp: find_None_iff find_Some_iff)

lemma method_ids_iff: "i \<in> set (method_ids d) \<longleftrightarrow> (\<exists>m \<in> set (dd_verification_methods d). vm_id m = i)"
  by (auto simp: method_ids_def)

lemma find_append: "find P (xs @ ys) = (case find P xs of None \<Rightarrow> find P ys | Some x \<Rightarrow> Some x)"
  by (induction xs) simp_all

lemma get_method_some:
  assumes "i \<in> set (method_ids d)"
  shows "\<exists>m. get_method d i = Inr m \<and> vm_id m = i"
proof -
  obtain m where m: "find (\<lambda>m. vm_id m = i) (dd_verification_methods d) = Some m"
    using assms find_method(1) [of i "dd_verification_methods d"]
    by (cases "find (\<lambda>m. vm_id m = i) (dd_verification_methods d)") (simp_all add: method_ids_def)
  then show ?thesis
    using find_method(2) [OF m] by (simp add: get_method_def)
qed

lemma add_Inr:
  "(add_verification_method m rels d = Inr d') =
     (vm_id m \<noteq> [] \<and> vm_id m \<notin> set (method_ids d) \<and>
      d' = foldl (\<lambda>d r. add_relationship (vm_id m) r d)
             (d\<lparr>dd_verification_methods := dd_verification_methods d @ [m]\<rparr>) rels)"
  by (auto simp: add_verification_method_def list_ex_iff method_ids_iff)

lemma did_inv_add: "did_inv d \<Longrightarrow> add_verification_method m rels d = Inr d' \<Longrightarrow> did_inv d'"
  by (auto simp: add_Inr did_inv_def method_ids_def references_def add_relationships_lists)

lemma filter_same_length: "length (filter P xs) = length xs \<longleftrightarrow> (\<forall>x\<in>set xs. P x)"
proof -
  have "length (filter P xs) = length xs \<longleftrightarrow> length (filter (\<lambda>x. \<not> P x) xs) = 0"
    using sum_length_filter_compl [of P xs] by linarith
  then show ?thesis
    by (simp add: filter_empty_conv)
qed

lemma remove_absent: "i \<notin> set (method_ids d) \<Longrightarrow> remove_method i d = (Inl (VerificationMethodNotFound i), d)"
proof -
  assume "i \<notin> set (method_ids d)"
  then have "filter (\<lambda>m. vm_id m \<noteq> i) (dd_verification_methods d) = dd_verification_methods d"
    by (auto simp: method_ids_def intro: filter_True)
  then show ?thesis
    by (simp add: remove_method_def)
qed

lemma remove_present:
  "i \<in> set (method_ids d) \<Longrightarrow> remove_method i d =
     (Inr (), d\<lparr>dd_verification_methods := filter (\<lambda>m. vm_id m \<noteq> i) (dd_verification_methods d),
        dd_authentication := filter (\<lambda>x. x \<noteq> i) (dd_authentication d),
        dd_assertion_method := filter (\<lambda>x. x \<noteq> i) (dd_assertion_method d),
        dd_key_agreement := filter (\<lambda>x. x \<noteq> i) (dd_key_agreement d)\<rparr>)"
  by (auto simp: remove_method_def Let_def filter_same_length method_ids_def)

lemma did_inv_remove: "did_inv d \<Longrightarrow> did_inv (snd (remove_method i d))"
proof (cases "i \<in> set (method_ids d)")
  case True
  then show "did_inv d \<Longrightarrow> ?thesis"
    by (auto simp: remove_present did_inv_def references_def method_ids_def distinct_map inj_on_def)
next
  case False
  then show "did_inv d \<Longrightarrow> ?thesis"
    by (simp add: remove_absent)
qed

text \<open>Sequences of calls; a call that fails leaves the document as it was.\<close>

datatype did_op = AddMethod verification_method "relationship list" | RemoveMethod string

fun did_exec :: "did_document \<Rightarrow> did_op \<Rightarrow> did_document" where
  "did_exec d (AddMethod m rels) = (case add_verification_method m rels d of Inl e \<Rightarrow> d | Inr d' \<Rightarrow> d')"
| "did_exec d (RemoveMethod i) = snd (remove_method i d)"

definition did_run :: "did_op list \<Rightarrow> did_document \<Rightarrow> did_document" where
  "did_run ops d = foldl did_exec d ops"

lemma did_inv_exec: "did_inv d \<Longrightarrow> did_inv (did_exec d op)"
  by (cases op) (auto split: sum.splits dest: did_inv_add intro: did_inv_remove)

lemma did_inv_run: "did_inv d \<Longrightarrow> did_inv (did_run ops d)"
  unfolding did_run_def by (induction ops arbitrary: d) (simp_all add: did_inv_exec)

lemma did_inv_new: "did_new did = Inr d \<Longrightarrow> did_inv d"
  by (auto simp: did_new_def did_inv_def method_ids_def references_def split: if_splits)

lemma did_id_exec: "dd_id (did_exec d op) = dd_id d"
  by (cases op) (auto simp: add_verification_method_def remove_method_def Let_def split: if_splits)

lemma did_id_run: "dd_id (did_run ops d) = dd_id d"
  unfolding did_run_def by (induction ops arbitrary: d) (simp_all add: did_id_exec)

text \<open>
  C16. References of a DID document resolve.  In every document reached from \<open>new\<close> by adding and
  removing methods the identifiers are distinct and not empty, every authentication, assertion and
  key-agreement reference names a method that \<open>get_method\<close> finds, adding a fresh method makes it
  findable without disturbing the others, and removing it again gives exactly the document before.
\<close>

theorem did_references_resolve:
  assumes "did_new did = Inr d0" "d = did_run ops d0"
  shows "dd_id d = did \<and> distinct (method_ids d) \<and> [] \<notin> set (method_ids d) \<and>
    (\<forall>i \<in> set (references d). \<exists>m. get_method d i = Inr m \<and> vm_id m = i) \<and>
    (\<forall>m rels d'. add_verification_method m rels d = Inr d' \<longrightarrow>
       get_method d' (vm_id m) = Inr m \<and> (\<forall>i. i \<noteq> vm_id m \<longrightarrow> get_method d' i = get_method d i) \<and>
       remove_method (vm_id m) d' = (Inr (), d))"
proof -
  have inv: "did_inv d"
    using did_inv_run [OF did_inv_new [OF assms(1)]] assms(2) by simp
  have "get_method d' (vm_id m) = Inr m \<and> (\<forall>i. i \<noteq> vm_id m \<longrightarrow> get_method d' i = get_method d i) \<and>
      remove_method (vm_id m) d' = (Inr (), d)"
    if a: "add_verification_method m rels d = Inr d'" for m rels d'
  proof -
    have new: "vm_id m \<notin> set (method_ids d)" and ms: "dd_verification_methods d' = dd_verification_methods d @ [m]"
      using a by (auto simp: add_Inr)
    have "find (\<lambda>m'. vm_id m' = vm_id m) (dd_verification_methods d @ [m]) = Some m"
      using new find_method(1) [of "vm_id m" "dd_verification_methods d"] by (auto simp: method_ids_def find_append)
    moreover have "find (\<lambda>m'. vm_id m' = i) (dd_verification_methods d @ [m]) = find (\<lambda>m. vm_id m = i) (dd_verification_methods d)"
      if "i \<noteq> vm_id m" for i
      using that by (auto simp: find_append split: option.splits)
    moreover have "remove_method (vm_id m) d' = (Inr (), d)"
    proof -
      have keep: "filter (\<lambda>m'. vm_id m' \<noteq> vm_id m) (dd_verification_methods d) = dd_verification_methods d"
        "filter (\<lambda>x. x \<noteq> vm_id m) (dd_authentication d) = dd_authentication d"
        "filter (\<lambda>x. x \<noteq> vm_id m) (dd_assertion_method d) = dd_assertion_method d"
        "filter (\<lambda>x. x \<noteq> vm_id m) (dd_key_agreement d) = dd_key_agreement d"
        using new inv by (auto simp: did_inv_def references_def method_ids_iff intro!: filter_True)
      have "vm_id m \<in> set (method_ids d')"
        using ms by (simp add: method_ids_def)
      then show ?thesis
        using a keep by (simp add: remove_present add_Inr add_relationships_lists)
    qed
    ultimately show ?thesis
      by (simp add: get_method_def ms)
  qed
  moreover have "\<forall>i \<in> set (references d). \<exists>m. get_method d i = Inr m \<and> vm_id m = i"
    using inv get_method_some [of _ d] by (auto simp: did_inv_def)
  moreover have "dd_id d = did"
    using assms by (auto simp: did_id_run did_new_def split: if_splits)
  ultimately show ?thesis
    using inv by (simp add: did_inv_def)
qed

definition demo_method :: verification_method where
  "demo_method = vm_new ''d#k'' ''d'' \<lparr>jk_kty = ''OKP'', jk_alg = ''ML-DSA-65'', jk_crv = ''ML-DSA-65'',
     jk_x = ''AA'', jk_d = None, jk_kid = None\<rparr>"

theorem did_references_resolve_witness:
  "\<exists>d0. did_new ''d'' = Inr d0 \<and>
     (let d = did_run [AddMethod demo_method [Authentication, Authentication], RemoveMethod ''x''] d0
      in references d = [''d#k'', ''d#k''] \<and> (\<forall>i \<in> set (references d). \<exists>m. get_method d i = Inr m \<and> vm_id m = i))"
proof -
  obtain d0 where d0: "did_new ''d'' = Inr d0" "dd_verification_methods d0 = []" "references d0 = []"
    by (simp add: did_new_def references_def)
  let ?d = "did_run [AddMethod demo_method [Authentication, Authentication], RemoveMethod ''x''] d0"
  have r: "references ?d = [''d#k'', ''d#k'']"
    using d0(2,3) by (simp add: did_run_def add_verification_method_def demo_method_def vm_new_def remove_method_def references_def)
  have "\<forall>i \<in> set (references ?d). \<exists>m. get_method ?d i = Inr m \<and> vm_id m = i"
    using did_references_resolve [OF d0(1) refl,
      where ops = "[AddMethod demo_method [Authentication, Authentication], RemoveMethod ''x'']"] by blast
  then show ?thesis
    using d0(1) r by (auto simp: Let_def)
qed

section \<open>Documents and JSON\<close>

lemma str_list_of: "list_of str_of (str_list ss) = Some ss"
  unfolding str_list_def by (rule list_of_map) simp

lemma vm_of_value_value: "vm_of_value (vm_value m) = Some m"
  by (cases m) (simp add: vm_of_value_def vm_value_def struct_fields_def jwk_of_value_value)

lemma vms_of_values: "list_of vm_of_value (JArr (map vm_value ms)) = Some ms"
  by (rule list_of_map) (simp add: vm_of_value_value)

lemma did_of_value_value:
  "did_of_value (did_value d) =
     (if dd_authentication d = [] \<or> dd_assertion_method d = [] \<or> dd_key_agreement d = [] then None else Some d)"
proof -
  have f: "struct_fields [''@context'', ''id'', ''verificationMethod'', ''authentication'', ''assertionMethod'', ''keyAgreement'']
      (did_value d) = Some
      [Some (str_list (dd_context d)), Some (JStr (dd_id d)), Some (JArr (map vm_value (dd_verification_methods d))),
       (if dd_authentication d = [] then None else Some (str_list (dd_authentication d))),
       (if dd_assertion_method d = [] then None else Some (str_list (dd_assertion_method d))),
       (if dd_key_agreement d = [] then None else Some (str_list (dd_key_agreement d)))]"
    by (simp add: struct_fields_def did_value_def nonempty_member_def)
  show ?thesis
    by (simp add: did_of_value_def f str_list_of vms_of_values)
qed

lemma json_within_did: "json_within 127 (did_value d)"
proof -
  have "json_within n (vm_value m)" if "2 \<le> n" for n m
    using that by (simp add: vm_value_def)
  then show ?thesis
    by (auto simp: did_value_def nonempty_member_def str_list_def list_all_iff)
qed

text \<open>
  C39. A document written as JSON is read back only if it has references of all three kinds.  The
  writer leaves out an empty list, the reader demands it: a document with authentication,
  assertion and key-agreement references is read back unchanged, and every other one, such as a
  fresh document or one with an authentication key alone, is refused as \<open>EmptyDid\<close>.
\<close>

theorem did_json_roundtrip:
  assumes "lawful_json J"
  shows "did_from_json J (did_to_json J d) =
    (if dd_authentication d = [] \<or> dd_assertion_method d = [] \<or> dd_key_agreement d = [] then Inl EmptyDid else Inr d)"
  by (simp add: did_from_json_def did_to_json_def lawful_jsonD [OF assms json_within_did] did_of_value_value)

theorem did_json_roundtrip_witness:
  "\<exists>d d'. did_new ''d'' = Inr d \<and> did_from_json toy_json (did_to_json toy_json d) = Inl EmptyDid \<and>
     add_verification_method demo_method [Authentication, AssertionMethod, KeyAgreement] d = Inr d' \<and>
     did_from_json toy_json (did_to_json toy_json d') = Inr d'"
  unfolding did_json_roundtrip [OF toy_json_lawful]
  by (simp add: did_new_def add_verification_method_def demo_method_def vm_new_def)

end
