(* ===== verification/Tee_Common.thy ===== *)
theory Tee_Common
  imports Json
begin

text \<open>
  \<open>src/confidential_computing/tee_common.rs\<close>: what the trusted execution platforms share, with the
  JSON of the structures that cross the command interface.
\<close>

datatype tee_type = SGX | TrustZone | AmdSev | IntelTdx

fun tee_name :: "tee_type \<Rightarrow> string" where
  "tee_name SGX = ''SGX''"
| "tee_name TrustZone = ''TrustZone''"
| "tee_name AmdSev = ''AmdSev''"
| "tee_name IntelTdx = ''IntelTdx''"

definition tee_of_name :: "string \<Rightarrow> tee_type option" where
  "tee_of_name s = find (\<lambda>t. tee_name t = s) [SGX, TrustZone, AmdSev, IntelTdx]"

record tee_config =
  tc_tee_type :: tee_type
  tc_debug_mode :: bool
  tc_max_enclave_size :: u64

definition tee_config_sgx :: tee_config where
  "tee_config_sgx = \<lparr>tc_tee_type = SGX, tc_debug_mode = False, tc_max_enclave_size = 0x100000\<rparr>"

definition tee_config_trustzone :: tee_config where
  "tee_config_trustzone = \<lparr>tc_tee_type = TrustZone, tc_debug_mode = False, tc_max_enclave_size = 0x200000\<rparr>"

definition with_debug :: "tee_config \<Rightarrow> tee_config" where
  "with_debug c = c\<lparr>tc_debug_mode := True\<rparr>"

record sealed_data =
  sd_tee_type :: tee_type
  sd_ciphertext :: bytes
  sd_auth_tag :: bytes
  sd_nonce :: bytes

definition sealed_data_new :: "tee_type \<Rightarrow> bytes \<Rightarrow> bytes \<Rightarrow> bytes \<Rightarrow> sealed_data" where
  "sealed_data_new t ciphertext auth_tag nonce =
     \<lparr>sd_tee_type = t, sd_ciphertext = ciphertext, sd_auth_tag = auth_tag, sd_nonce = nonce\<rparr>"

record tee_report =
  tr_tee_type :: tee_type
  tr_attestation_data :: bytes
  tr_timestamp :: u64

section \<open>JSON\<close>

definition tee_value :: "tee_type \<Rightarrow> json" where
  "tee_value t = JStr (tee_name t)"

definition tee_of_value :: "json \<Rightarrow> tee_type option" where
  "tee_of_value j = Option.bind (variant_of j) tee_of_name"

definition sealed_data_value :: "sealed_data \<Rightarrow> json" where
  "sealed_data_value s =
     JObj [(''tee_type'', tee_value (sd_tee_type s)), (''ciphertext'', bytes_value (sd_ciphertext s)),
           (''auth_tag'', bytes_value (sd_auth_tag s)), (''nonce'', bytes_value (sd_nonce s))]"

definition sealed_data_of_value :: "json \<Rightarrow> sealed_data option" where
  "sealed_data_of_value j =
     (case struct_fields [''tee_type'', ''ciphertext'', ''auth_tag'', ''nonce''] j of
        Some [t, c, a, n] \<Rightarrow>
          Option.bind (field tee_of_value t) (\<lambda>t.
          Option.bind (field bytes_of c) (\<lambda>c.
          Option.bind (field bytes_of a) (\<lambda>a.
          Option.bind (field bytes_of n) (\<lambda>n.
            Some \<lparr>sd_tee_type = t, sd_ciphertext = c, sd_auth_tag = a, sd_nonce = n\<rparr>))))
      | _ \<Rightarrow> None)"

definition tee_report_value :: "tee_report \<Rightarrow> json" where
  "tee_report_value r =
     JObj [(''tee_type'', tee_value (tr_tee_type r)), (''attestation_data'', bytes_value (tr_attestation_data r)),
           (''timestamp'', JNum (uint (tr_timestamp r)))]"

definition tee_report_of_value :: "json \<Rightarrow> tee_report option" where
  "tee_report_of_value j =
     (case struct_fields [''tee_type'', ''attestation_data'', ''timestamp''] j of
        Some [t, a, s] \<Rightarrow>
          Option.bind (field tee_of_value t) (\<lambda>t.
          Option.bind (field bytes_of a) (\<lambda>a.
          Option.bind (field uint_of s) (\<lambda>s.
            Some \<lparr>tr_tee_type = t, tr_attestation_data = a, tr_timestamp = s\<rparr>)))
      | _ \<Rightarrow> None)"

lemma tee_of_value_value [simp]: "tee_of_value (tee_value t) = Some t"
  by (cases t) (simp_all add: tee_of_value_def tee_value_def tee_of_name_def)

lemma sealed_data_of_value_value [simp]: "sealed_data_of_value (sealed_data_value s) = Some s"
  by (cases s) (simp add: sealed_data_of_value_def sealed_data_value_def struct_fields_def)

lemma tee_report_of_value_value [simp]: "tee_report_of_value (tee_report_value r) = Some r"
  by (cases r) (simp add: tee_report_of_value_def tee_report_value_def struct_fields_def)

lemma json_within_tee [simp]:
  "json_within d (tee_value t)" "json_within d (sealed_data_value x) = (2 \<le> d)" "json_within d (tee_report_value r) = (2 \<le> d)"
  by (auto simp: tee_value_def sealed_data_value_def tee_report_value_def simp del: json_within.simps(3))

end
