(* ===== verification/Sgx.thy ===== *)
theory Sgx
  imports Tee_Common
begin

text \<open>
  \<open>src/confidential_computing/sgx/mod.rs\<close>: the SGX enclave.  The operations are the placeholders the
  source has.  Whether the build is a simulator or debug build is the argument \<open>simulator\<close>; the clock,
  seconds since the epoch, is an argument.  A \<open>[u8; 32]\<close> is a byte list, of 32 bytes where the code
  has one.
\<close>

datatype enclave_error =
    InitializationFailed string
  | OperationFailed string
  | AttestationFailed string
  | QuoteGenerationFailed string
  | QuoteVerificationFailed string
  | SealedStorageError string
  | InvalidState string
  | CommunicationError string
  | CryptoError string

fun enclave_error_text :: "enclave_error \<Rightarrow> string" where
  "enclave_error_text (InitializationFailed s) = ''Enclave initialization failed: '' @ s"
| "enclave_error_text (OperationFailed s) = ''Enclave operation failed: '' @ s"
| "enclave_error_text (AttestationFailed s) = ''Attestation failed: '' @ s"
| "enclave_error_text (QuoteGenerationFailed s) = ''Quote generation failed: '' @ s"
| "enclave_error_text (QuoteVerificationFailed s) = ''Quote verification failed: '' @ s"
| "enclave_error_text (SealedStorageError s) = ''Sealed storage error: '' @ s"
| "enclave_error_text (InvalidState s) = ''Invalid enclave state: '' @ s"
| "enclave_error_text (CommunicationError s) = ''Communication error: '' @ s"
| "enclave_error_text (CryptoError s) = ''Cryptographic error: '' @ s"

datatype attestation_provider = DCAP | IAS

record attestation_config =
  ac_provider :: attestation_provider
  ac_ias_api_key :: "string option"
  ac_dcap_collateral_url :: "string option"
  ac_allow_outdated_pcks :: bool

definition config_dcap :: attestation_config where
  "config_dcap =
     \<lparr>ac_provider = DCAP, ac_ias_api_key = None,
      ac_dcap_collateral_url = Some ''https://api.trustedservices.intel.com/sgx/certification/v4'',
      ac_allow_outdated_pcks = False\<rparr>"

definition config_ias :: "string \<Rightarrow> attestation_config" where
  "config_ias api_key =
     \<lparr>ac_provider = IAS, ac_ias_api_key = Some api_key, ac_dcap_collateral_url = None,
      ac_allow_outdated_pcks = False\<rparr>"

definition with_development_mode :: "attestation_config \<Rightarrow> attestation_config" where
  "with_development_mode c = c\<lparr>ac_allow_outdated_pcks := True\<rparr>"

section \<open>Platform configuration registers\<close>

record pcr_values =
  pv_pcr0 :: bytes
  pv_pcr1 :: bytes
  pv_pcr2 :: bytes

record pcr_policy =
  pp_pcr0 :: "bytes option"
  pp_pcr1 :: "bytes option"
  pp_pcr2 :: "bytes option"

definition pcr_new :: "bytes \<Rightarrow> bytes \<Rightarrow> bytes \<Rightarrow> pcr_values" where
  "pcr_new p0 p1 p2 = \<lparr>pv_pcr0 = p0, pv_pcr1 = p1, pv_pcr2 = p2\<rparr>"

text \<open>\<open>opt.is_some_and(|e| x != e)\<close>.\<close>

definition differs :: "bytes option \<Rightarrow> bytes \<Rightarrow> bool" where
  "differs expected x = (case expected of None \<Rightarrow> False | Some e \<Rightarrow> x \<noteq> e)"

definition matches_policy :: "pcr_values \<Rightarrow> pcr_policy \<Rightarrow> bool" where
  "matches_policy v p =
     (if differs (pp_pcr0 p) (pv_pcr0 v) then False
      else if differs (pp_pcr1 p) (pv_pcr1 v) then False
      else if differs (pp_pcr2 p) (pv_pcr2 v) then False
      else True)"

definition policy_any :: pcr_policy where
  "policy_any = \<lparr>pp_pcr0 = None, pp_pcr1 = None, pp_pcr2 = None\<rparr>"

definition policy_strict :: "bytes \<Rightarrow> bytes \<Rightarrow> bytes \<Rightarrow> pcr_policy" where
  "policy_strict p0 p1 p2 = \<lparr>pp_pcr0 = Some p0, pp_pcr1 = Some p1, pp_pcr2 = Some p2\<rparr>"

lemma matches_policy_iff:
  "matches_policy v p =
     (pp_pcr0 p \<in> {None, Some (pv_pcr0 v)} \<and> pp_pcr1 p \<in> {None, Some (pv_pcr1 v)} \<and> pp_pcr2 p \<in> {None, Some (pv_pcr2 v)})"
  by (auto simp: matches_policy_def differs_def split: option.splits)

lemma matches_any [simp]: "matches_policy v policy_any"
  by (simp add: matches_policy_iff policy_any_def)

lemma matches_strict [simp]: "matches_policy v (policy_strict p0 p1 p2) = (v = pcr_new p0 p1 p2)"
  by (cases v) (auto simp: matches_policy_iff policy_strict_def pcr_new_def)

section \<open>Quotes and the enclave\<close>

record sgx_quote =
  qu_quote :: bytes
  qu_signature :: bytes
  qu_cert_chain :: bytes
  qu_user_data :: bytes
  qu_pcr_values :: pcr_values
  qu_timestamp :: u64

record enclave =
  en_config :: attestation_config
  en_enclave_id :: u64
  en_is_initialized :: bool

text \<open>Accessors.\<close>

definition as_quote_bytes :: "sgx_quote \<Rightarrow> bytes" where
  "as_quote_bytes q = qu_quote q"

definition quote_signature :: "sgx_quote \<Rightarrow> bytes" where
  "quote_signature q = qu_signature q"

definition quote_pcr_values :: "sgx_quote \<Rightarrow> pcr_values" where
  "quote_pcr_values q = qu_pcr_values q"

definition enclave_is_initialized :: "enclave \<Rightarrow> bool" where
  "enclave_is_initialized e = en_is_initialized e"

definition enclave_id :: "enclave \<Rightarrow> u64" where
  "enclave_id e = en_enclave_id e"

definition enclave_attestation_config :: "enclave \<Rightarrow> attestation_config" where
  "enclave_attestation_config e = en_config e"

definition enclave_initialize :: "bool \<Rightarrow> attestation_config \<Rightarrow> enclave_error + enclave" where
  "enclave_initialize simulator config =
     (if simulator then Inr \<lparr>en_config = config, en_enclave_id = 1, en_is_initialized = True\<rparr>
      else Inl (InitializationFailed ''SGX not available on this platform''))"

definition when_initialized :: "enclave \<Rightarrow> enclave_error + 'a \<Rightarrow> enclave_error + 'a" where
  "when_initialized e r = (if \<not> en_is_initialized e then Inl (InvalidState ''Enclave not initialized'') else r)"

definition enclave_generate_keypair :: "enclave \<Rightarrow> string \<Rightarrow> enclave_error + string \<times> string" where
  "enclave_generate_keypair e key_id = when_initialized e (Inr (''pub_'' @ key_id, ''sec_'' @ key_id))"

definition zeros :: "nat \<Rightarrow> bytes" where
  "zeros n = replicate n 0"

definition get_quote :: "u64 \<Rightarrow> enclave \<Rightarrow> enclave_error + sgx_quote" where
  "get_quote now e =
     when_initialized e (Inr
       \<lparr>qu_quote = zeros 1024, qu_signature = zeros 256, qu_cert_chain = [], qu_user_data = zeros 32,
        qu_pcr_values = pcr_new (zeros 32) (zeros 32) (zeros 32), qu_timestamp = now\<rparr>)"

definition enclave_seal_data :: "enclave \<Rightarrow> bytes \<Rightarrow> pcr_policy \<Rightarrow> enclave_error + bytes" where
  "enclave_seal_data e plaintext pcr_policy = when_initialized e (Inr (zeros (length plaintext + 72)))"

definition enclave_unseal_data :: "enclave \<Rightarrow> bytes \<Rightarrow> enclave_error + bytes" where
  "enclave_unseal_data e sealed_blob =
     when_initialized e
       (if length sealed_blob < 72 then Inl (SealedStorageError ''Sealed blob too short'')
        else Inr (zeros (length sealed_blob - 72)))"

definition enclave_sign :: "enclave \<Rightarrow> string \<Rightarrow> bytes \<Rightarrow> enclave_error + bytes" where
  "enclave_sign e key_id data = when_initialized e (Inr (zeros 4096))"

definition enclave_drop :: "enclave \<Rightarrow> enclave" where
  "enclave_drop e = (if en_is_initialized e then e\<lparr>en_is_initialized := False\<rparr> else e)"

lemma zeros_simps [simp]: "length (zeros n) = n" "zeros n = zeros m \<longleftrightarrow> n = m"
  by (auto simp: zeros_def replicate_eq_replicate)

text \<open>
  Sealing by the enclave keeps only the length of the data.  Sealing succeeds and unsealing the
  blob succeeds, under whatever policy, but gives zeros: the plaintext comes back exactly when it was
  all zeros, and two plaintexts of one length have the same sealed form.
\<close>

theorem enclave_seal_keeps_length_only:
  assumes "enclave_initialize simulator config = Inr e"
  shows "\<exists>blob. enclave_seal_data e plaintext policy = Inr blob \<and>
    enclave_unseal_data e blob = Inr (zeros (length plaintext)) \<and>
    (enclave_unseal_data e blob = Inr plaintext \<longleftrightarrow> list_all ((=) 0) plaintext) \<and>
    (length other = length plaintext \<longrightarrow> enclave_seal_data e other policy' = Inr blob)"
proof -
  have i: "en_is_initialized e"
    using assms by (auto simp: enclave_initialize_def split: if_splits)
  have "zeros (length plaintext) = plaintext \<longleftrightarrow> list_all ((=) 0) plaintext"
    by (metis (mono_tags, lifting) in_set_replicate list_all_iff replicate_length_same zeros_def)
  then show ?thesis
    using i by (simp add: enclave_seal_data_def enclave_unseal_data_def when_initialized_def)
qed

theorem enclave_seal_keeps_length_only_witness:
  "\<exists>e blob. enclave_initialize True config_dcap = Inr e \<and> enclave_seal_data e [1, 2] policy_any = Inr blob \<and>
     enclave_unseal_data e blob = Inr (zeros 2)"
proof -
  obtain e where e: "enclave_initialize True config_dcap = Inr e"
    by (simp add: enclave_initialize_def)
  show ?thesis
    using enclave_seal_keeps_length_only [OF e, where plaintext = "[1, 2]" and policy = policy_any] e by (auto simp: numeral_2_eq_2)
qed

end
