(* ===== verification/Sealed_Storage.thy ===== *)
theory Sealed_Storage
  imports Sgx Keyed_Store
begin

text \<open>
  \<open>src/confidential_computing/sgx/sealed_storage.rs\<close>: sealed blobs, their cache and the key store
  over it.
\<close>

record sealed_blob =
  sb_nonce :: bytes
  sb_ciphertext :: bytes
  sb_auth_tag :: bytes
  sb_pcr_policy :: pcr_policy
  sb_aad :: "bytes option"

definition NONCE_SIZE :: nat where "NONCE_SIZE = 12"
definition AUTH_TAG_SIZE :: nat where "AUTH_TAG_SIZE = 16"

definition blob_new :: "bytes \<Rightarrow> bytes \<Rightarrow> bytes \<Rightarrow> pcr_policy \<Rightarrow> sealed_blob" where
  "blob_new nonce ciphertext auth_tag policy =
     \<lparr>sb_nonce = nonce, sb_ciphertext = ciphertext, sb_auth_tag = auth_tag, sb_pcr_policy = policy, sb_aad = None\<rparr>"

definition with_aad :: "bytes \<Rightarrow> sealed_blob \<Rightarrow> sealed_blob" where
  "with_aad aad b = b\<lparr>sb_aad := Some aad\<rparr>"

definition blob_size :: "sealed_blob \<Rightarrow> nat" where
  "blob_size b = length (sb_nonce b) + length (sb_ciphertext b) + length (sb_auth_tag b)"

section \<open>Blobs as JSON bytes\<close>

text \<open>A register is an array of exactly 32 bytes.\<close>

definition pcr_of :: "json \<Rightarrow> bytes option" where
  "pcr_of j = (case bytes_of j of Some bs \<Rightarrow> if length bs = 32 then Some bs else None | None \<Rightarrow> None)"

definition policy_value :: "pcr_policy \<Rightarrow> json" where
  "policy_value p =
     JObj [(''pcr0'', opt_value bytes_value (pp_pcr0 p)), (''pcr1'', opt_value bytes_value (pp_pcr1 p)),
           (''pcr2'', opt_value bytes_value (pp_pcr2 p))]"

definition policy_of_value :: "json \<Rightarrow> pcr_policy option" where
  "policy_of_value j =
     (case struct_fields [''pcr0'', ''pcr1'', ''pcr2''] j of
        Some [a, b, c] \<Rightarrow>
          Option.bind (option_field pcr_of a) (\<lambda>a.
          Option.bind (option_field pcr_of b) (\<lambda>b.
          Option.bind (option_field pcr_of c) (\<lambda>c.
            Some \<lparr>pp_pcr0 = a, pp_pcr1 = b, pp_pcr2 = c\<rparr>)))
      | _ \<Rightarrow> None)"

definition blob_value :: "sealed_blob \<Rightarrow> json" where
  "blob_value b =
     JObj [(''nonce'', bytes_value (sb_nonce b)), (''ciphertext'', bytes_value (sb_ciphertext b)),
           (''auth_tag'', bytes_value (sb_auth_tag b)), (''pcr_policy'', policy_value (sb_pcr_policy b)),
           (''aad'', opt_value bytes_value (sb_aad b))]"

definition blob_of_value :: "json \<Rightarrow> sealed_blob option" where
  "blob_of_value j =
     (case struct_fields [''nonce'', ''ciphertext'', ''auth_tag'', ''pcr_policy'', ''aad''] j of
        Some [n, c, t, p, a] \<Rightarrow>
          Option.bind (field bytes_of n) (\<lambda>n.
          Option.bind (field bytes_of c) (\<lambda>c.
          Option.bind (field bytes_of t) (\<lambda>t.
          Option.bind (field policy_of_value p) (\<lambda>p.
          Option.bind (option_field bytes_of a) (\<lambda>a.
            Some \<lparr>sb_nonce = n, sb_ciphertext = c, sb_auth_tag = t, sb_pcr_policy = p, sb_aad = a\<rparr>)))))
      | _ \<Rightarrow> None)"

definition blob_to_bytes :: "json_text \<Rightarrow> sealed_blob \<Rightarrow> bytes" where
  "blob_to_bytes J b = json_to_vec J (blob_value b)"

definition blob_from_bytes :: "json_text \<Rightarrow> bytes \<Rightarrow> enclave_error + sealed_blob" where
  "blob_from_bytes J data =
     (case json_from_slice J blob_of_value data of
        Inl e \<Rightarrow> Inl (SealedStorageError (''Deserialization failed: '' @ e))
      | Inr b \<Rightarrow> Inr b)"

definition pcr_sized :: "pcr_policy \<Rightarrow> bool" where
  "pcr_sized p = (pred_option (\<lambda>b. length b = 32) (pp_pcr0 p) \<and> pred_option (\<lambda>b. length b = 32) (pp_pcr1 p) \<and>
     pred_option (\<lambda>b. length b = 32) (pp_pcr2 p))"

lemma pcr_field: "pred_option (\<lambda>b. length b = 32) x \<Longrightarrow> option_field pcr_of (Some (opt_value bytes_value x)) = Some x"
  by (cases x) (simp_all add: option_field_def opt_value_def pcr_of_def)

lemma policy_of_value_value: "pcr_sized p \<Longrightarrow> policy_of_value (policy_value p) = Some p"
  by (cases p) (simp add: policy_of_value_def policy_value_def struct_fields_def pcr_sized_def pcr_field)

lemma blob_of_value_value: "pcr_sized (sb_pcr_policy b) \<Longrightarrow> blob_of_value (blob_value b) = Some b"
  by (cases b) (simp add: blob_of_value_def blob_value_def struct_fields_def policy_of_value_value)

lemma json_within_blob: "json_within 127 (blob_value b)"
  by (simp add: blob_value_def policy_value_def)

lemma blob_bytes_roundtrip:
  "lawful_json J \<Longrightarrow> pcr_sized (sb_pcr_policy b) \<Longrightarrow> blob_from_bytes J (blob_to_bytes J b) = Inr b"
  by (simp add: blob_from_bytes_def blob_to_bytes_def json_from_slice_to_vec json_within_blob blob_of_value_value)

section \<open>The storage\<close>

record sealed_storage =
  ss_cache :: "(string, sealed_blob) hmap"
  ss_current_pcr :: pcr_values

definition storage_new :: "pcr_values \<Rightarrow> sealed_storage" where
  "storage_new pcr = \<lparr>ss_cache = [], ss_current_pcr = pcr\<rparr>"

definition seal :: "string \<Rightarrow> bytes \<Rightarrow> pcr_policy \<Rightarrow> sealed_storage \<Rightarrow> (enclave_error + sealed_blob) \<times> sealed_storage" where
  "seal key_id plaintext policy s =
     (let blob = blob_new (zeros NONCE_SIZE) plaintext (zeros AUTH_TAG_SIZE) policy
      in (Inr blob, s\<lparr>ss_cache := hm_insert key_id blob (ss_cache s)\<rparr>))"

definition unseal :: "sealed_blob \<Rightarrow> sealed_storage \<Rightarrow> enclave_error + bytes" where
  "unseal blob s =
     (if \<not> matches_policy (ss_current_pcr s) (sb_pcr_policy blob)
      then Inl (SealedStorageError (''Current PCR values don'' @ [CHR 0x27] @ ''t match sealing policy''))
      else Inr (sb_ciphertext blob))"

definition cache_blob :: "string \<Rightarrow> sealed_blob \<Rightarrow> sealed_storage \<Rightarrow> sealed_storage" where
  "cache_blob key_id blob s = s\<lparr>ss_cache := hm_insert key_id blob (ss_cache s)\<rparr>"

definition get_cached :: "sealed_storage \<Rightarrow> string \<Rightarrow> sealed_blob option" where
  "get_cached s key_id = hm_get (ss_cache s) key_id"

definition storage_clear_cache :: "sealed_storage \<Rightarrow> sealed_storage" where
  "storage_clear_cache s = s\<lparr>ss_cache := []\<rparr>"

definition cache_size :: "sealed_storage \<Rightarrow> nat" where
  "cache_size s = length (ss_cache s)"

definition update_pcr :: "pcr_values \<Rightarrow> sealed_storage \<Rightarrow> sealed_storage" where
  "update_pcr pcr s = s\<lparr>ss_current_pcr := pcr\<rparr>"

definition current_pcr :: "sealed_storage \<Rightarrow> pcr_values" where
  "current_pcr s = ss_current_pcr s"

text \<open>\<open>SealedKeyStore\<close> holds one storage and has no state of its own.\<close>

type_synonym sealed_key_store = sealed_storage

definition key_store_new :: "pcr_values \<Rightarrow> sealed_key_store" where
  "key_store_new pcr = storage_new pcr"

definition store_private_key ::
  "string \<Rightarrow> bytes \<Rightarrow> pcr_policy option \<Rightarrow> sealed_storage \<Rightarrow> (enclave_error + sealed_blob) \<times> sealed_storage" where
  "store_private_key key_id private_key policy =
     seal key_id private_key (case policy of Some p \<Rightarrow> p | None \<Rightarrow> policy_any)"

definition retrieve_private_key :: "sealed_blob \<Rightarrow> sealed_storage \<Rightarrow> enclave_error + bytes" where
  "retrieve_private_key = unseal"

definition can_retrieve :: "sealed_blob \<Rightarrow> sealed_storage \<Rightarrow> bool" where
  "can_retrieve blob s = matches_policy (ss_current_pcr s) (sb_pcr_policy blob)"

text \<open>The cache is a keyed store; deleting a single blob is not an operation of the code, whose
  \<open>clear\<close> deletes all.\<close>

interpretation blob_cache: keyed_store get_cached cache_blob
  "\<lambda>k s. s\<lparr>ss_cache := hm_remove k (ss_cache s)\<rparr>" "\<lambda>s. hm_wf (ss_cache s)"
  by unfold_locales (simp_all add: get_cached_def cache_blob_def store_simps fun_eq_iff)

section \<open>Access follows the policy\<close>

datatype storage_op = Seal string bytes pcr_policy | CacheBlob string sealed_blob | ClearBlobs | UpdatePcr pcr_values

fun storage_exec :: "sealed_storage \<Rightarrow> storage_op \<Rightarrow> sealed_storage" where
  "storage_exec s (Seal k x p) = snd (seal k x p s)"
| "storage_exec s (CacheBlob k b) = cache_blob k b s"
| "storage_exec s ClearBlobs = storage_clear_cache s"
| "storage_exec s (UpdatePcr pcr) = update_pcr pcr s"

definition storage_run :: "storage_op list \<Rightarrow> sealed_storage \<Rightarrow> sealed_storage" where
  "storage_run ops s = foldl storage_exec s ops"

text \<open>The registers after a run: those of its last update.\<close>

fun last_pcr :: "pcr_values \<Rightarrow> storage_op list \<Rightarrow> pcr_values" where
  "last_pcr pcr [] = pcr"
| "last_pcr pcr (UpdatePcr pcr' # ops) = last_pcr pcr' ops"
| "last_pcr pcr (_ # ops) = last_pcr pcr ops"

lemma storage_run_pcr: "ss_current_pcr (storage_run ops s) = last_pcr (ss_current_pcr s) ops"
  unfolding storage_run_def
  by (induction "ss_current_pcr s" ops arbitrary: s rule: last_pcr.induct)
    (simp_all add: seal_def Let_def cache_blob_def storage_clear_cache_def update_pcr_def)

text \<open>
  C38. A sealed blob opens by its policy alone.  After any further calls, unsealing a blob returns the
  plaintext exactly when every one of the three registers the policy names has, in the values last set,
  the value the policy names for it (a register the policy leaves out does not matter), and is the
  policy error otherwise; blobs written as bytes and read back are the same blobs.  What protects the
  plaintext is this check only: the ciphertext of the blob is the plaintext itself.
\<close>

theorem unseal_follows_policy:
  assumes "seal key_id plaintext policy s = (Inr blob, s1)" "lawful_json J" "pcr_sized policy"
    and "regs = last_pcr (ss_current_pcr s) ops"
  shows "sb_ciphertext blob = plaintext \<and> get_cached s1 key_id = Some blob \<and>
    blob_from_bytes J (blob_to_bytes J blob) = Inr blob \<and>
    unseal blob (storage_run ops s1) =
      (if (pp_pcr0 policy = None \<or> pp_pcr0 policy = Some (pv_pcr0 regs)) \<and>
          (pp_pcr1 policy = None \<or> pp_pcr1 policy = Some (pv_pcr1 regs)) \<and>
          (pp_pcr2 policy = None \<or> pp_pcr2 policy = Some (pv_pcr2 regs))
       then Inr plaintext
       else Inl (SealedStorageError (''Current PCR values don'' @ [CHR 0x27] @ ''t match sealing policy'')))"
proof -
  have b: "blob = blob_new (zeros NONCE_SIZE) plaintext (zeros AUTH_TAG_SIZE) policy"
    and s1: "s1 = cache_blob key_id blob s"
    using assms(1) by (auto simp: seal_def cache_blob_def Let_def)
  have "ss_current_pcr s1 = ss_current_pcr s" "get_cached s1 key_id = Some blob"
    by (simp_all add: s1 cache_blob_def get_cached_def store_simps)
  moreover have "blob_from_bytes J (blob_to_bytes J blob) = Inr blob"
    using blob_bytes_roundtrip [OF assms(2), of blob] assms(3) by (simp add: b blob_new_def)
  ultimately show ?thesis
    by (simp add: unseal_def storage_run_pcr b blob_new_def matches_policy_iff assms(4))
qed

text \<open>A blob bound to all three registers: refused while the third differs, opened once it is right.\<close>

theorem unseal_follows_policy_witness:
  "let pcr = (\<lambda>b. pcr_new (replicate 32 1) (replicate 32 2) (replicate 32 b))
   in \<exists>blob s1. seal ''k'' [7] (policy_strict (replicate 32 1) (replicate 32 2) (replicate 32 3))
          (storage_new (pcr 4)) = (Inr blob, s1) \<and>
        isl (unseal blob (storage_run [ClearBlobs] s1)) \<and>
        unseal blob (storage_run [UpdatePcr (pcr 5), UpdatePcr (pcr 3), ClearBlobs] s1) = Inr [7]"
proof -
  let ?pcr = "\<lambda>b. pcr_new (replicate 32 1) (replicate 32 2) (replicate 32 b)"
  let ?policy = "policy_strict (replicate 32 1) (replicate 32 2) (replicate 32 3)"
  obtain blob s1 where s: "seal ''k'' [7] ?policy (storage_new (?pcr 4)) = (Inr blob, s1)"
    by (simp add: seal_def Let_def)
  have sized: "pcr_sized ?policy"
    by (simp add: pcr_sized_def policy_strict_def)
  note run = unseal_follows_policy [OF s toy_json_lawful sized refl]
  have "isl (unseal blob (storage_run [ClearBlobs] s1))"
    using run [of "[ClearBlobs]"] by (simp add: policy_strict_def pcr_new_def storage_new_def)
  moreover have "unseal blob (storage_run [UpdatePcr (?pcr 5), UpdatePcr (?pcr 3), ClearBlobs] s1) = Inr [7]"
    using run [of "[UpdatePcr (?pcr 5), UpdatePcr (?pcr 3), ClearBlobs]"]
    by (simp add: policy_strict_def pcr_new_def)
  ultimately show ?thesis
    using s by (auto simp: Let_def)
qed

end
