(* ===== verification/Quote_Verifier.thy ===== *)
theory Quote_Verifier
  imports Sgx
begin

text \<open>
  \<open>src/confidential_computing/sgx/quote_verifier.rs\<close>: the checks on a quote.  The clock is an
  argument.
\<close>

record security_advisory =
  sa_id :: string
  sa_affected_cpus :: "string list"
  sa_description :: string
  sa_severity :: string
  sa_issued :: string

record quote_policy =
  qp_max_age_seconds :: u64
  qp_require_intel_signature :: bool
  qp_require_patched_cpu :: bool
  qp_allowed_cpus :: "string set"

definition quote_policy_default :: quote_policy where
  "quote_policy_default =
     \<lparr>qp_max_age_seconds = 3600, qp_require_intel_signature = True, qp_require_patched_cpu = True, qp_allowed_cpus = {}\<rparr>"

record quote_result =
  qr_is_valid :: bool
  qr_signature_valid :: bool
  qr_cert_chain_valid :: bool
  qr_is_fresh :: bool
  qr_cpu_patched :: bool
  qr_advisories :: "security_advisory list"
  qr_verified_at :: u64
  qr_quote_age_seconds :: u64

record quote_verifier =
  qv_policy :: quote_policy
  qv_intel_root_certs :: "bytes list"
  qv_advisory_db :: "security_advisory list"

definition verifier_new :: "quote_policy \<Rightarrow> quote_verifier" where
  "verifier_new policy = \<lparr>qv_policy = policy, qv_intel_root_certs = [], qv_advisory_db = []\<rparr>"

definition add_intel_cert :: "bytes \<Rightarrow> quote_verifier \<Rightarrow> quote_verifier" where
  "add_intel_cert cert v = v\<lparr>qv_intel_root_certs := qv_intel_root_certs v @ [cert]\<rparr>"

definition add_advisory :: "security_advisory \<Rightarrow> quote_verifier \<Rightarrow> quote_verifier" where
  "add_advisory a v = v\<lparr>qv_advisory_db := qv_advisory_db v @ [a]\<rparr>"

definition verify_signature :: "quote_verifier \<Rightarrow> sgx_quote \<Rightarrow> enclave_error + bool" where
  "verify_signature v q = Inr (qu_signature q \<noteq> [])"

definition verify_cert_chain :: "quote_verifier \<Rightarrow> sgx_quote \<Rightarrow> enclave_error + bool" where
  "verify_cert_chain v q = Inr (qu_cert_chain q \<noteq> [] \<or> qv_intel_root_certs v = [])"

definition check_advisories :: "quote_verifier \<Rightarrow> sgx_quote \<Rightarrow> enclave_error + security_advisory list" where
  "check_advisories v q = Inr []"

definition quote_verify :: "u64 \<Rightarrow> quote_verifier \<Rightarrow> sgx_quote \<Rightarrow> enclave_error + quote_result" where
  "quote_verify now v q =
     (let quote_age = saturating_sub now (qu_timestamp q);
          is_fresh = quote_age \<le> qp_max_age_seconds (qv_policy v)
      in case verify_signature v q of Inl e \<Rightarrow> Inl e | Inr signature_valid \<Rightarrow>
         (case verify_cert_chain v q of Inl e \<Rightarrow> Inl e | Inr cert_chain_valid \<Rightarrow>
         (case check_advisories v q of Inl e \<Rightarrow> Inl e | Inr advisories \<Rightarrow>
           (let cpu_patched = list_all (\<lambda>a. sa_severity a \<noteq> ''CRITICAL'') advisories
            in Inr \<lparr>qr_is_valid = (signature_valid \<and> cert_chain_valid \<and> is_fresh \<and>
                     (\<not> qp_require_patched_cpu (qv_policy v) \<or> cpu_patched)),
                   qr_signature_valid = signature_valid, qr_cert_chain_valid = cert_chain_valid,
                   qr_is_fresh = is_fresh, qr_cpu_patched = cpu_patched, qr_advisories = advisories,
                   qr_verified_at = now, qr_quote_age_seconds = quote_age\<rparr>))))"

definition verify_quote_standard :: "u64 \<Rightarrow> sgx_quote \<Rightarrow> enclave_error + quote_result" where
  "verify_quote_standard now q = quote_verify now (verifier_new quote_policy_default) q"

definition verify_quote_strict :: "u64 \<Rightarrow> sgx_quote \<Rightarrow> enclave_error + quote_result" where
  "verify_quote_strict now q =
     quote_verify now (verifier_new (quote_policy_default\<lparr>qp_max_age_seconds := 300, qp_require_patched_cpu := True\<rparr>)) q"

text \<open>The verdict in closed form: it never fails, and reads only four things of the quote and the
  verifier.\<close>

lemma quote_verify_eq:
  "quote_verify now v q = Inr
     (let age = saturating_sub now (qu_timestamp q);
          fresh = age \<le> qp_max_age_seconds (qv_policy v);
          chain = (qu_cert_chain q \<noteq> [] \<or> qv_intel_root_certs v = [])
      in \<lparr>qr_is_valid = (qu_signature q \<noteq> [] \<and> chain \<and> fresh), qr_signature_valid = (qu_signature q \<noteq> []),
          qr_cert_chain_valid = chain, qr_is_fresh = fresh, qr_cpu_patched = True, qr_advisories = [],
          qr_verified_at = now, qr_quote_age_seconds = age\<rparr>)"
  by (simp add: quote_verify_def verify_signature_def verify_cert_chain_def check_advisories_def Let_def)

lemma saturating_sub_future: "now \<le> t \<Longrightarrow> saturating_sub now t = 0"
  by (auto simp: saturating_sub_def)

lemma saturating_sub_le: "saturating_sub now t \<le> b \<longleftrightarrow> unat now \<le> unat t + unat b"
  by (simp add: word_le_nat_alt unat_saturating_sub le_diff_conv add.commute)

text \<open>
  What the verdict on a quote rests on: the signature is any non-empty byte string, the chain
  is any non-empty byte string (or nothing, when the verifier has no root certificate), and the age.
  Quote bytes, user data and registers are not read; advisories added to the database, the allowed
  processors and the flag that demands Intel's signature do not change the verdict; a quote dated in
  the future is fresh.
\<close>

theorem quote_verdict_rests_on_presence:
  "(\<exists>r. quote_verify now v q = Inr r \<and>
      (qr_is_valid r \<longleftrightarrow> qu_signature q \<noteq> [] \<and> (qu_cert_chain q \<noteq> [] \<or> qv_intel_root_certs v = []) \<and>
        unat now \<le> unat (qu_timestamp q) + unat (qp_max_age_seconds (qv_policy v)))) \<and>
   quote_verify now v (q\<lparr>qu_quote := any_quote, qu_user_data := any_data, qu_pcr_values := any_pcr\<rparr>) = quote_verify now v q \<and>
   quote_verify now (add_advisory adv v) q = quote_verify now v q \<and>
   quote_verify now (v\<lparr>qv_policy := (qv_policy v)\<lparr>qp_allowed_cpus := cpus, qp_require_intel_signature := sig,
      qp_require_patched_cpu := patched\<rparr>\<rparr>) q = quote_verify now v q"
  by (simp add: quote_verify_eq Let_def saturating_sub_le add_advisory_def)

end
