(* ===== verification/Sgx_Attestation.thy ===== *)
theory Sgx_Attestation
  imports Sgx
begin

text \<open>
  \<open>src/confidential_computing/sgx/attestation.rs\<close>: the two attestation verifiers and the choice between
  them.  Awaiting a future that does not wait is a call; the clock is an argument.
\<close>

record attestation_result =
  ar_is_valid :: bool
  ar_is_patched :: bool
  ar_verified_at :: u64
  ar_quote_age_seconds :: u64
  ar_advisory_ids :: "string list"

record dcap_collateral =
  dc_pck_cert_chain :: string
  dc_pck_crl :: string
  dc_root_ca_cert :: string
  dc_processor_cert :: string

record ias_report =
  ir_id :: string
  ir_attestation_result :: string
  ir_timestamp :: u64
  ir_quote_status :: string
  ir_advisory_ids :: "string list"

record dcap_verifier =
  dv_collateral_url :: string
  dv_allow_outdated_pcks :: bool

record ias_verifier =
  iv_api_key :: string

definition dcap_new :: "string \<Rightarrow> bool \<Rightarrow> dcap_verifier" where
  "dcap_new url outdated = \<lparr>dv_collateral_url = url, dv_allow_outdated_pcks = outdated\<rparr>"

definition fetch_collateral :: "dcap_verifier \<Rightarrow> sgx_quote \<Rightarrow> enclave_error + dcap_collateral" where
  "fetch_collateral v q =
     Inr \<lparr>dc_pck_cert_chain = [], dc_pck_crl = [], dc_root_ca_cert = [], dc_processor_cert = []\<rparr>"

definition verify_offline :: "u64 \<Rightarrow> dcap_verifier \<Rightarrow> sgx_quote \<Rightarrow> dcap_collateral \<Rightarrow> enclave_error + attestation_result" where
  "verify_offline now v q collateral =
     Inr \<lparr>ar_is_valid = True, ar_is_patched = True, ar_verified_at = now, ar_quote_age_seconds = 0, ar_advisory_ids = []\<rparr>"

definition ias_new :: "string \<Rightarrow> ias_verifier" where
  "ias_new api_key = \<lparr>iv_api_key = api_key\<rparr>"

definition get_report :: "u64 \<Rightarrow> ias_verifier \<Rightarrow> sgx_quote \<Rightarrow> enclave_error + ias_report" where
  "get_report now v q =
     Inr \<lparr>ir_id = ''report-'' @ dec (unat now), ir_attestation_result = ''OK'', ir_timestamp = now,
          ir_quote_status = ''OK'', ir_advisory_ids = []\<rparr>"

record attestation_verifier =
  av_dcap :: "dcap_verifier option"
  av_ias :: "ias_verifier option"

definition from_config :: "attestation_config \<Rightarrow> enclave_error + attestation_verifier" where
  "from_config config =
     (case ac_provider config of
        DCAP \<Rightarrow>
          (case ac_dcap_collateral_url config of
             None \<Rightarrow> Inl (AttestationFailed ''DCAP collateral URL not provided'')
           | Some url \<Rightarrow> Inr \<lparr>av_dcap = Some (dcap_new url (ac_allow_outdated_pcks config)), av_ias = None\<rparr>)
      | IAS \<Rightarrow>
          (case ac_ias_api_key config of
             None \<Rightarrow> Inl (AttestationFailed ''IAS API key not provided'')
           | Some api_key \<Rightarrow> Inr \<lparr>av_dcap = None, av_ias = Some (ias_new api_key)\<rparr>))"

definition attestation_verify :: "u64 \<Rightarrow> u64 \<Rightarrow> attestation_verifier \<Rightarrow> sgx_quote \<Rightarrow> enclave_error + attestation_result" where
  "attestation_verify now now' v q =
     (case av_dcap v of
        Some dcap \<Rightarrow>
          (case fetch_collateral dcap q of
             Inl e \<Rightarrow> Inl e
           | Inr collateral \<Rightarrow> verify_offline now dcap q collateral)
      | None \<Rightarrow>
          (case av_ias v of
             Some ias \<Rightarrow>
               (case get_report now ias q of
                  Inl e \<Rightarrow> Inl e
                | Inr report \<Rightarrow>
                    Inr \<lparr>ar_is_valid = True, ar_is_patched = True, ar_verified_at = now', ar_quote_age_seconds = 0,
                         ar_advisory_ids = []\<rparr>)
           | None \<Rightarrow> Inl (AttestationFailed ''No attestation provider configured'')))"

text \<open>
  A verifier built from a configuration has exactly the configured provider, building fails exactly
  when what that provider needs is missing, and then every quote whatsoever is reported valid,
  patched and of age zero.
\<close>

theorem attestation_accepts_every_quote:
  "case from_config config of
     Inl e \<Rightarrow> (ac_provider config = DCAP \<and> ac_dcap_collateral_url config = None \<or>
               ac_provider config = IAS \<and> ac_ias_api_key config = None)
   | Inr v \<Rightarrow> ((av_dcap v \<noteq> None) = (ac_provider config = DCAP)) \<and> ((av_ias v \<noteq> None) = (ac_provider config = IAS)) \<and>
       (\<exists>r. attestation_verify now now' v q = Inr r \<and> ar_is_valid r \<and> ar_is_patched r \<and> ar_quote_age_seconds r = 0)"
  by (simp add: from_config_def attestation_verify_def fetch_collateral_def verify_offline_def get_report_def
      split: attestation_provider.splits option.splits)

end
