(* ===== verification/Trustzone.thy ===== *)
theory Trustzone
  imports Tee_Common "HOL-Library.Sublist"
begin

text \<open>
  \<open>src/confidential_computing/trustzone/\<close>: the session (mod.rs), the report verifier (attestation.rs) and
  the command interface (interface.rs).  The operations are the placeholders the source has; the clock
  is an argument.
\<close>

section \<open>The session\<close>

datatype trustzone_error =
    InitializationFailed string
  | OperationFailed string
  | AttestationFailed string
  | InvalidState string

fun trustzone_error_text :: "trustzone_error \<Rightarrow> string" where
  "trustzone_error_text (InitializationFailed s) = ''TrustZone initialization failed: '' @ s"
| "trustzone_error_text (OperationFailed s) = ''Trusted application operation failed: '' @ s"
| "trustzone_error_text (AttestationFailed s) = ''Attestation failed: '' @ s"
| "trustzone_error_text (InvalidState s) = ''Invalid state: '' @ s"

record trustzone_config =
  tz_ta_uuid :: string
  tz_require_attestation :: bool

definition secure_default :: trustzone_config where
  "secure_default = \<lparr>tz_ta_uuid = ''00000000-0000-0000-0000-000000000001'', tz_require_attestation = True\<rparr>"

record trustzone_enclave =
  tz_config :: trustzone_config
  tz_session_id :: u64
  tz_initialized :: bool

definition tz_initialize :: "trustzone_config \<Rightarrow> trustzone_error + trustzone_enclave" where
  "tz_initialize config =
     (if tz_ta_uuid config = [] then Inl (InitializationFailed ''TA UUID cannot be empty'')
      else Inr \<lparr>tz_config = config, tz_session_id = 1, tz_initialized = True\<rparr>)"

definition tz_is_initialized :: "trustzone_enclave \<Rightarrow> bool" where
  "tz_is_initialized e = tz_initialized e"

definition tz_session :: "trustzone_enclave \<Rightarrow> u64" where
  "tz_session e = tz_session_id e"

definition tz_session_config :: "trustzone_enclave \<Rightarrow> trustzone_config" where
  "tz_session_config e = tz_config e"

definition when_session :: "trustzone_enclave \<Rightarrow> trustzone_error + 'a \<Rightarrow> trustzone_error + 'a" where
  "when_session e r =
     (if \<not> tz_initialized e then Inl (InvalidState ''TrustZone session is not initialized'') else r)"

definition get_attestation :: "trustzone_enclave \<Rightarrow> trustzone_error + tee_report" where
  "get_attestation e =
     when_session e (Inr \<lparr>tr_tee_type = TrustZone, tr_attestation_data = replicate 256 0, tr_timestamp = 0\<rparr>)"

definition tz_seal_data :: "trustzone_enclave \<Rightarrow> bytes \<Rightarrow> trustzone_error + sealed_data" where
  "tz_seal_data e plaintext =
     when_session e (Inr (sealed_data_new TrustZone plaintext (replicate 16 0) (replicate 12 0)))"

definition tz_unseal_data :: "trustzone_enclave \<Rightarrow> sealed_data \<Rightarrow> trustzone_error + bytes" where
  "tz_unseal_data e sealed =
     when_session e
       (if sd_tee_type sealed \<noteq> TrustZone
        then Inl (OperationFailed ''Sealed payload does not belong to TrustZone'')
        else Inr (sd_ciphertext sealed))"

definition as_tee_config :: "trustzone_enclave \<Rightarrow> tee_config" where
  "as_tee_config e = tee_config_trustzone"

section \<open>The report verifier\<close>

record trustzone_policy =
  tp_max_age_seconds :: u64
  tp_require_format_marker :: bool

definition trustzone_policy_default :: trustzone_policy where
  "trustzone_policy_default = \<lparr>tp_max_age_seconds = 300, tp_require_format_marker = True\<rparr>"

record trustzone_result =
  tv_is_valid :: bool
  tv_is_fresh :: bool
  tv_has_expected_format :: bool
  tv_report_age_seconds :: u64
  tv_verified_at :: u64

text \<open>\<open>TrustZoneAttestationVerifier\<close> is the policy it was built with.\<close>

type_synonym trustzone_verifier = trustzone_policy

definition tz_verifier_new :: "trustzone_policy \<Rightarrow> trustzone_verifier" where
  "tz_verifier_new policy = policy"

definition tz_verify :: "u64 \<Rightarrow> trustzone_policy \<Rightarrow> tee_report \<Rightarrow> trustzone_error + trustzone_result" where
  "tz_verify now policy report =
     (if tr_tee_type report \<noteq> TrustZone
      then Inl (AttestationFailed ''report tee type is not TrustZone'')
      else
        (let age = saturating_sub now (tr_timestamp report);
             is_fresh = age \<le> tp_max_age_seconds policy;
             has_expected_format =
               (if tp_require_format_marker policy then prefix (as_bytes ''TZ-ATTEST'') (tr_attestation_data report)
                else True)
         in Inr \<lparr>tv_is_valid = (is_fresh \<and> has_expected_format), tv_is_fresh = is_fresh,
                 tv_has_expected_format = has_expected_format, tv_report_age_seconds = age, tv_verified_at = now\<rparr>))"

definition build_simulated_report :: "u64 \<Rightarrow> tee_report" where
  "build_simulated_report timestamp =
     \<lparr>tr_tee_type = TrustZone, tr_attestation_data = as_bytes ''TZ-ATTEST:SIMULATED:OP-TEE'', tr_timestamp = timestamp\<rparr>"

text \<open>
  The session's own report does not pass the verifier.  A session that initialises produces a
  report, but its data is 256 zero bytes and its time is 0: under every policy that asks for the
  format marker, the default one included, the verifier finds it invalid at every time, while the
  simulated report built at any time is accepted up to the policy's age after it.
\<close>

theorem own_report_rejected:
  assumes "tz_initialize config = Inr e" "tp_require_format_marker policy"
  shows "\<exists>report r r'. get_attestation e = Inr report \<and> tz_verify now policy report = Inr r \<and> \<not> tv_is_valid r \<and>
    tz_verify now policy (build_simulated_report t) = Inr r' \<and>
    (tv_is_valid r' \<longleftrightarrow> unat now \<le> unat t + unat (tp_max_age_seconds policy))"
proof -
  have "tz_initialized e"
    using assms(1) by (auto simp: tz_initialize_def split: if_splits)
  moreover have "\<not> prefix (as_bytes ''TZ-ATTEST'') (replicate 256 0)"
    by code_simp
  moreover have "prefix (as_bytes ''TZ-ATTEST'') (as_bytes ''TZ-ATTEST:SIMULATED:OP-TEE'')"
    by simp
  ultimately show ?thesis
    using assms(2)
    by (simp del: as_bytes_simps add: get_attestation_def when_session_def tz_verify_def build_simulated_report_def Let_def
        word_le_nat_alt unat_saturating_sub le_diff_conv add.commute)
qed

theorem own_report_rejected_witness:
  "\<exists>e report r. tz_initialize secure_default = Inr e \<and> get_attestation e = Inr report \<and>
     tz_verify 0 trustzone_policy_default report = Inr r \<and> \<not> tv_is_valid r"
proof -
  obtain e where e: "tz_initialize secure_default = Inr e"
    by (simp add: tz_initialize_def secure_default_def)
  have "tp_require_format_marker trustzone_policy_default"
    by (simp add: trustzone_policy_default_def)
  from own_report_rejected [OF e this, of 0 0] e show ?thesis
    by blast
qed

section \<open>The command interface\<close>

datatype ta_command = GetAttestation | SealData | UnsealData

fun command_name :: "ta_command \<Rightarrow> string" where
  "command_name GetAttestation = ''GetAttestation''"
| "command_name SealData = ''SealData''"
| "command_name UnsealData = ''UnsealData''"

definition command_of_name :: "string \<Rightarrow> ta_command option" where
  "command_of_name s = find (\<lambda>c. command_name c = s) [GetAttestation, SealData, UnsealData]"

record ta_request =
  rq_session_id :: u64
  rq_command :: ta_command
  rq_payload :: bytes

definition ta_request_new :: "u64 \<Rightarrow> ta_command \<Rightarrow> bytes \<Rightarrow> ta_request" where
  "ta_request_new session_id command payload =
     \<lparr>rq_session_id = session_id, rq_command = command, rq_payload = payload\<rparr>"

definition request_value :: "ta_request \<Rightarrow> json" where
  "request_value r =
     JObj [(''session_id'', JNum (uint (rq_session_id r))), (''command'', JStr (command_name (rq_command r))),
           (''payload'', bytes_value (rq_payload r))]"

definition request_of_value :: "json \<Rightarrow> ta_request option" where
  "request_of_value j =
     (case struct_fields [''session_id'', ''command'', ''payload''] j of
        Some [s, c, p] \<Rightarrow>
          Option.bind (field uint_of s) (\<lambda>s.
          Option.bind (field (\<lambda>j. Option.bind (variant_of j) command_of_name) c) (\<lambda>c.
          Option.bind (field bytes_of p) (\<lambda>p.
            Some \<lparr>rq_session_id = s, rq_command = c, rq_payload = p\<rparr>)))
      | _ \<Rightarrow> None)"

definition request_to_bytes :: "json_text \<Rightarrow> ta_request \<Rightarrow> bytes" where
  "request_to_bytes J r = json_to_vec J (request_value r)"

definition request_from_bytes :: "json_text \<Rightarrow> bytes \<Rightarrow> trustzone_error + ta_request" where
  "request_from_bytes J bs =
     (case json_from_slice J request_of_value bs of
        Inl e \<Rightarrow> Inl (OperationFailed (''request deserialization failed: '' @ e)) | Inr r \<Rightarrow> Inr r)"

record ta_response =
  rs_success :: bool
  rs_message :: string
  rs_payload :: bytes

definition response_ok :: "bytes \<Rightarrow> ta_response" where
  "response_ok payload = \<lparr>rs_success = True, rs_message = [], rs_payload = payload\<rparr>"

definition response_err :: "string \<Rightarrow> ta_response" where
  "response_err message = \<lparr>rs_success = False, rs_message = message, rs_payload = []\<rparr>"

definition response_value :: "ta_response \<Rightarrow> json" where
  "response_value r =
     JObj [(''success'', JBool (rs_success r)), (''message'', JStr (rs_message r)), (''payload'', bytes_value (rs_payload r))]"

definition response_of_value :: "json \<Rightarrow> ta_response option" where
  "response_of_value j =
     (case struct_fields [''success'', ''message'', ''payload''] j of
        Some [s, m, p] \<Rightarrow>
          Option.bind (field bool_of s) (\<lambda>s.
          Option.bind (field str_of m) (\<lambda>m.
          Option.bind (field bytes_of p) (\<lambda>p.
            Some \<lparr>rs_success = s, rs_message = m, rs_payload = p\<rparr>)))
      | _ \<Rightarrow> None)"

definition response_to_bytes :: "json_text \<Rightarrow> ta_response \<Rightarrow> bytes" where
  "response_to_bytes J r = json_to_vec J (response_value r)"

definition response_from_bytes :: "json_text \<Rightarrow> bytes \<Rightarrow> trustzone_error + ta_response" where
  "response_from_bytes J bs =
     (case json_from_slice J response_of_value bs of
        Inl e \<Rightarrow> Inl (OperationFailed (''response deserialization failed: '' @ e)) | Inr r \<Rightarrow> Inr r)"

definition dispatch_command :: "json_text \<Rightarrow> trustzone_enclave \<Rightarrow> ta_request \<Rightarrow> trustzone_error + ta_response" where
  "dispatch_command J e request =
     (if \<not> tz_initialized e
      then Inl (InvalidState ''cannot dispatch command on uninitialized TrustZone session'')
      else if rq_session_id request \<noteq> tz_session_id e then Inr (response_err ''session mismatch'')
      else case rq_command request of
        GetAttestation \<Rightarrow>
          (case get_attestation e of
             Inl err \<Rightarrow> Inl err
           | Inr report \<Rightarrow> Inr (response_ok (json_to_vec J (tee_report_value report))))
      | SealData \<Rightarrow>
          (case tz_seal_data e (rq_payload request) of
             Inl err \<Rightarrow> Inl err
           | Inr sealed \<Rightarrow> Inr (response_ok (json_to_vec J (sealed_data_value sealed))))
      | UnsealData \<Rightarrow>
          (case json_from_slice J sealed_data_of_value (rq_payload request) of
             Inl err \<Rightarrow> Inl (OperationFailed (''sealed payload decoding failed: '' @ err))
           | Inr sealed \<Rightarrow>
               (case tz_unseal_data e sealed of
                  Inl err \<Rightarrow> Inl err
                | Inr plain \<Rightarrow> Inr (response_ok plain))))"

text \<open>One exchange over the transport: the request as bytes, dispatched, the response as bytes.\<close>

definition exchange :: "json_text \<Rightarrow> trustzone_enclave \<Rightarrow> bytes \<Rightarrow> trustzone_error + bytes" where
  "exchange J e wire =
     (case request_from_bytes J wire of
        Inl err \<Rightarrow> Inl err
      | Inr request \<Rightarrow>
          (case dispatch_command J e request of Inl err \<Rightarrow> Inl err | Inr resp \<Rightarrow> Inr (response_to_bytes J resp)))"

lemma command_of_name_name [simp]: "command_of_name (command_name c) = Some c"
  by (cases c) (simp_all add: command_of_name_def)

lemma request_of_value_value: "request_of_value (request_value r) = Some r"
  by (cases r) (simp add: request_of_value_def request_value_def struct_fields_def)

lemma response_of_value_value: "response_of_value (response_value r) = Some r"
  by (cases r) (simp add: response_of_value_def response_value_def struct_fields_def)

lemma json_within_messages: "json_within 127 (request_value q)" "json_within 127 (response_value r)"
  by (simp_all add: request_value_def response_value_def del: json_within.simps(3))

lemma request_bytes: "lawful_json J \<Longrightarrow> request_from_bytes J (request_to_bytes J r) = Inr r"
  by (simp add: request_from_bytes_def request_to_bytes_def json_from_slice_to_vec json_within_messages request_of_value_value)

lemma response_bytes: "lawful_json J \<Longrightarrow> response_from_bytes J (response_to_bytes J r) = Inr r"
  by (simp add: response_from_bytes_def response_to_bytes_def json_from_slice_to_vec json_within_messages response_of_value_value)

text \<open>
  C22. Sealing and unsealing through the command interface.  Over the wire, a \<open>SealData\<close> request of the
  session is answered with success and a payload that, sent back in an \<open>UnsealData\<close> request, is
  answered with the bytes sealed; a request of any other session is answered with \<open>session mismatch\<close>
  and an empty payload, whatever its command.
\<close>

theorem command_seal_unseal:
  assumes "lawful_json J" "tz_initialize config = Inr e"
  shows "(\<exists>wire sealed wire'.
      exchange J e (request_to_bytes J (ta_request_new (tz_session_id e) SealData plain)) = Inr wire \<and>
      response_from_bytes J wire = Inr (response_ok sealed) \<and>
      exchange J e (request_to_bytes J (ta_request_new (tz_session_id e) UnsealData sealed)) = Inr wire' \<and>
      response_from_bytes J wire' = Inr (response_ok plain)) \<and>
    (s \<noteq> tz_session_id e \<longrightarrow>
      exchange J e (request_to_bytes J (ta_request_new s c p)) = Inr (response_to_bytes J (response_err ''session mismatch'')))"
proof -
  have i: "tz_initialized e"
    using assms(2) by (auto simp: tz_initialize_def split: if_splits)
  define sd where "sd = sealed_data_new TrustZone plain (replicate 16 0) (replicate 12 0)"
  define sealed where "sealed = json_to_vec J (sealed_data_value sd)"
  note rt = request_bytes [OF assms(1)] response_bytes [OF assms(1)]
  have sl: "json_from_slice J sealed_data_of_value sealed = Inr sd"
    unfolding sealed_def by (rule json_from_slice_to_vec [OF assms(1)]) simp_all
  have "exchange J e (request_to_bytes J (ta_request_new (tz_session_id e) SealData plain)) =
      Inr (response_to_bytes J (response_ok sealed))"
    using i by (simp add: exchange_def rt dispatch_command_def ta_request_new_def tz_seal_data_def when_session_def
        sealed_def sd_def)
  moreover have "exchange J e (request_to_bytes J (ta_request_new (tz_session_id e) UnsealData sealed)) =
      Inr (response_to_bytes J (response_ok plain))"
    using i sl by (simp add: exchange_def rt dispatch_command_def ta_request_new_def tz_unseal_data_def when_session_def)
      (simp add: sd_def sealed_data_new_def)
  moreover have "s \<noteq> tz_session_id e \<Longrightarrow>
      exchange J e (request_to_bytes J (ta_request_new s c p)) = Inr (response_to_bytes J (response_err ''session mismatch''))"
    using i by (simp add: exchange_def rt dispatch_command_def ta_request_new_def)
  ultimately show ?thesis
    using rt(2) by blast
qed

theorem command_seal_unseal_witness:
  "\<exists>e wire. tz_initialize secure_default = Inr e \<and>
     exchange toy_json e (request_to_bytes toy_json (ta_request_new 1 SealData [7])) = Inr wire \<and>
     exchange toy_json e (request_to_bytes toy_json (ta_request_new 2 SealData [7])) =
       Inr (response_to_bytes toy_json (response_err ''session mismatch''))"
proof -
  obtain e where e: "tz_initialize secure_default = Inr e" "tz_session_id e = 1"
    by (simp add: tz_initialize_def secure_default_def)
  from command_seal_unseal [OF toy_json_lawful e(1), where plain = "[7]" and s = 2 and c = SealData and p = "[7]"] e
  show ?thesis
    by auto
qed

end
