(* ===== verification/Attestation_Service.thy ===== *)
theory Attestation_Service
  imports Quote_Verifier Trustzone
begin

text \<open>
  \<open>src/confidential_computing/attestation_service/mod.rs\<close>: one policy over the evidence of both
  platforms.  The clock is an argument; in a batch every item has its own reading.
\<close>

datatype service_error =
    SgxVerification string
  | TrustZoneVerification string
  | UnsupportedTee tee_type
  | PolicyRejected string

datatype trust_level = Low | Medium | High

fun trust_rank :: "trust_level \<Rightarrow> u8" where
  "trust_rank Low = 1"
| "trust_rank Medium = 2"
| "trust_rank High = 3"

definition meets_minimum :: "trust_level \<Rightarrow> trust_level \<Rightarrow> bool" where
  "meets_minimum l minimum = (trust_rank minimum \<le> trust_rank l)"

text \<open>The order the ranks induce.\<close>

instantiation trust_level :: linorder
begin

definition less_eq_trust_level :: "trust_level \<Rightarrow> trust_level \<Rightarrow> bool" where
  "less_eq_trust_level a b = (trust_rank a \<le> trust_rank b)"

definition less_trust_level :: "trust_level \<Rightarrow> trust_level \<Rightarrow> bool" where
  "less_trust_level a b = (trust_rank a < trust_rank b)"

instance
proof
  fix a b c :: trust_level
  show "a < b \<longleftrightarrow> a \<le> b \<and> \<not> b \<le> a" "a \<le> a" "a \<le> b \<or> b \<le> a"
    by (auto simp: less_trust_level_def less_eq_trust_level_def)
  show "a \<le> b \<Longrightarrow> b \<le> c \<Longrightarrow> a \<le> c"
    by (simp add: less_eq_trust_level_def)
  show "a \<le> b \<Longrightarrow> b \<le> a \<Longrightarrow> a = b"
    by (cases a; cases b) (simp_all add: less_eq_trust_level_def word_le_nat_alt)
qed

end

lemma meets_minimum_iff: "meets_minimum l m \<longleftrightarrow> m \<le> l"
  by (simp add: meets_minimum_def less_eq_trust_level_def)

fun level_name :: "trust_level \<Rightarrow> string" where
  "level_name Low = ''Low''"
| "level_name Medium = ''Medium''"
| "level_name High = ''High''"

record routing_policy =
  rp_allowed_tees :: "tee_type set"
  rp_max_sgx_age_seconds :: u64
  rp_max_trustzone_age_seconds :: u64
  rp_minimum_trust_level :: trust_level

definition routing_policy_default :: routing_policy where
  "routing_policy_default =
     \<lparr>rp_allowed_tees = {SGX, TrustZone}, rp_max_sgx_age_seconds = 3600, rp_max_trustzone_age_seconds = 300,
      rp_minimum_trust_level = Low\<rparr>"

record unified_result =
  ur_tee_type :: tee_type
  ur_is_valid :: bool
  ur_is_fresh :: bool
  ur_evidence_age_seconds :: u64
  ur_trust_level :: trust_level
  ur_summary :: string

definition bool_text :: "bool \<Rightarrow> string" where
  "bool_text b = (if b then ''true'' else ''false'')"

definition unified_of_quote :: "quote_result \<Rightarrow> unified_result" where
  "unified_of_quote r =
     \<lparr>ur_tee_type = SGX, ur_is_valid = qr_is_valid r, ur_is_fresh = qr_is_fresh r,
      ur_evidence_age_seconds = qr_quote_age_seconds r,
      ur_trust_level =
        (if qr_signature_valid r \<and> qr_cert_chain_valid r \<and> qr_advisories r = [] then High
         else if qr_signature_valid r \<and> qr_cert_chain_valid r then Medium
         else Low),
      ur_summary = ''sgx: signature_valid='' @ bool_text (qr_signature_valid r) @ '', cert_chain_valid='' @
        bool_text (qr_cert_chain_valid r) @ '', advisories='' @ dec (length (qr_advisories r))\<rparr>"

definition unified_of_trustzone :: "trustzone_result \<Rightarrow> unified_result" where
  "unified_of_trustzone r =
     \<lparr>ur_tee_type = TrustZone, ur_is_valid = tv_is_valid r, ur_is_fresh = tv_is_fresh r,
      ur_evidence_age_seconds = tv_report_age_seconds r,
      ur_trust_level = (if tv_is_valid r then Medium else Low),
      ur_summary = ''trustzone: expected_format='' @ bool_text (tv_has_expected_format r)\<rparr>"

record attestation_service =
  as_tz_policy :: trustzone_policy
  as_routing_policy :: routing_policy

definition service_new :: attestation_service where
  "service_new = \<lparr>as_tz_policy = trustzone_policy_default, as_routing_policy = routing_policy_default\<rparr>"

definition with_trustzone_policy :: "trustzone_policy \<Rightarrow> attestation_service" where
  "with_trustzone_policy p = \<lparr>as_tz_policy = p, as_routing_policy = routing_policy_default\<rparr>"

definition with_routing_policy :: "routing_policy \<Rightarrow> attestation_service" where
  "with_routing_policy p = \<lparr>as_tz_policy = trustzone_policy_default, as_routing_policy = p\<rparr>"

definition max_age :: "routing_policy \<Rightarrow> tee_type \<Rightarrow> u64 option" where
  "max_age p t =
     (case t of SGX \<Rightarrow> Some (rp_max_sgx_age_seconds p) | TrustZone \<Rightarrow> Some (rp_max_trustzone_age_seconds p) | _ \<Rightarrow> None)"

definition enforce_policy :: "attestation_service \<Rightarrow> unified_result \<Rightarrow> service_error + unified_result" where
  "enforce_policy s r =
     (let p = as_routing_policy s; tee = tee_name (ur_tee_type r)
      in if ur_tee_type r \<notin> rp_allowed_tees p
         then Inl (PolicyRejected (''tee type '' @ tee @ '' is not allowed by routing policy''))
         else case max_age p (ur_tee_type r) of
           None \<Rightarrow> Inl (PolicyRejected (''tee type '' @ tee @ '' has no configured age SLA''))
         | Some age \<Rightarrow>
             if age < ur_evidence_age_seconds r
             then Inl (PolicyRejected (''evidence age '' @ dec (unat (ur_evidence_age_seconds r)) @ ''s exceeds SLA '' @
               dec (unat age) @ ''s for '' @ tee))
             else if \<not> meets_minimum (ur_trust_level r) (rp_minimum_trust_level p)
             then Inl (PolicyRejected (''trust level '' @ level_name (ur_trust_level r) @ '' below minimum '' @
               level_name (rp_minimum_trust_level p)))
             else if \<not> ur_is_valid r \<or> \<not> ur_is_fresh r
             then Inl (PolicyRejected ''provider verification did not return valid/fresh evidence'')
             else Inr (r\<lparr>ur_summary := ur_summary r @ ''; policy=enforced''\<rparr>))"

definition verify_sgx_quote :: "u64 \<Rightarrow> attestation_service \<Rightarrow> sgx_quote \<Rightarrow> service_error + unified_result" where
  "verify_sgx_quote now s q =
     (case verify_quote_standard now q of
        Inl e \<Rightarrow> Inl (SgxVerification (enclave_error_text e))
      | Inr r \<Rightarrow> enforce_policy s (unified_of_quote r))"

definition verify_trustzone_report :: "u64 \<Rightarrow> attestation_service \<Rightarrow> tee_report \<Rightarrow> service_error + unified_result" where
  "verify_trustzone_report now s report =
     (case tz_verify now (as_tz_policy s) report of
        Inl e \<Rightarrow> Inl (TrustZoneVerification (trustzone_error_text e))
      | Inr r \<Rightarrow> enforce_policy s (unified_of_trustzone r))"

definition verify_report :: "u64 \<Rightarrow> attestation_service \<Rightarrow> tee_report \<Rightarrow> service_error + unified_result" where
  "verify_report now s report =
     (case tr_tee_type report of
        TrustZone \<Rightarrow> verify_trustzone_report now s report
      | other \<Rightarrow> Inl (UnsupportedTee other))"

record batch_result =
  br_items :: "(service_error + unified_result) list"
  br_passed :: nat
  br_failed :: nat

definition batch_of :: "(service_error + unified_result) list \<Rightarrow> batch_result" where
  "batch_of items =
     (let passed = length (filter (\<lambda>i. \<not> isl i) items)
      in \<lparr>br_items = items, br_passed = passed, br_failed = length items - passed\<rparr>)"

definition verify_reports_batch :: "attestation_service \<Rightarrow> (u64 \<times> tee_report) list \<Rightarrow> batch_result" where
  "verify_reports_batch s reports = batch_of (map (\<lambda>(now, r). verify_report now s r) reports)"

definition verify_sgx_quotes_batch :: "attestation_service \<Rightarrow> (u64 \<times> sgx_quote) list \<Rightarrow> batch_result" where
  "verify_sgx_quotes_batch s quotes = batch_of (map (\<lambda>(now, q). verify_sgx_quote now s q) quotes)"

section \<open>The policy\<close>

text \<open>What the policy demands of a result, without the order of the checks.\<close>

definition policy_admits :: "routing_policy \<Rightarrow> unified_result \<Rightarrow> bool" where
  "policy_admits p r =
     (ur_tee_type r \<in> rp_allowed_tees p \<and>
      (\<exists>age. max_age p (ur_tee_type r) = Some age \<and> ur_evidence_age_seconds r \<le> age) \<and>
      rp_minimum_trust_level p \<le> ur_trust_level r \<and> ur_is_valid r \<and> ur_is_fresh r)"

lemma enforce_policy_Inr:
  "(enforce_policy s r = Inr r') =
     (policy_admits (as_routing_policy s) r \<and> r' = r\<lparr>ur_summary := ur_summary r @ ''; policy=enforced''\<rparr>)"
  by (auto simp: enforce_policy_def policy_admits_def Let_def meets_minimum_iff split: option.splits)

lemma enforce_policy_Inl: "enforce_policy s r = Inl e \<Longrightarrow> \<exists>m. e = PolicyRejected m"
  by (auto simp: enforce_policy_def Let_def split: option.splits if_splits)

text \<open>A stricter policy: fewer platforms, smaller ages, a higher minimum.\<close>

definition stricter :: "routing_policy \<Rightarrow> routing_policy \<Rightarrow> bool" where
  "stricter p p' =
     (rp_allowed_tees p \<subseteq> rp_allowed_tees p' \<and> rp_max_sgx_age_seconds p \<le> rp_max_sgx_age_seconds p' \<and>
      rp_max_trustzone_age_seconds p \<le> rp_max_trustzone_age_seconds p' \<and>
      rp_minimum_trust_level p' \<le> rp_minimum_trust_level p)"

lemma policy_admits_mono: "stricter p p' \<Longrightarrow> policy_admits p r \<Longrightarrow> policy_admits p' r"
  by (auto simp: stricter_def policy_admits_def max_age_def split: tee_type.splits)

lemma verify_sgx_quote_Inr:
  "(\<exists>r. verify_sgx_quote now s q = Inr r) =
     (SGX \<in> rp_allowed_tees (as_routing_policy s) \<and> qu_signature q \<noteq> [] \<and>
      unat now \<le> unat (qu_timestamp q) + min 3600 (unat (rp_max_sgx_age_seconds (as_routing_policy s))))"
proof -
  have "verify_sgx_quote now s q = enforce_policy s (unified_of_quote
      \<lparr>qr_is_valid = (qu_signature q \<noteq> [] \<and> saturating_sub now (qu_timestamp q) \<le> 3600),
       qr_signature_valid = (qu_signature q \<noteq> []), qr_cert_chain_valid = True,
       qr_is_fresh = (saturating_sub now (qu_timestamp q) \<le> 3600), qr_cpu_patched = True, qr_advisories = [],
       qr_verified_at = now, qr_quote_age_seconds = saturating_sub now (qu_timestamp q)\<rparr>)"
    by (simp add: verify_sgx_quote_def verify_quote_standard_def quote_verify_eq verifier_new_def
        quote_policy_default_def Let_def conj_commute)
  moreover have "m \<le> High" for m
    by (cases m) (simp_all add: less_eq_trust_level_def word_le_nat_alt)
  ultimately show ?thesis
    by (auto simp: enforce_policy_Inr policy_admits_def unified_of_quote_def max_age_def saturating_sub_le)
qed

lemma verify_report_Inr:
  "(\<exists>r. verify_report now s report = Inr r) =
     (tr_tee_type report = TrustZone \<and> TrustZone \<in> rp_allowed_tees (as_routing_policy s) \<and>
      rp_minimum_trust_level (as_routing_policy s) \<noteq> High \<and>
      (tp_require_format_marker (as_tz_policy s) \<longrightarrow> prefix (as_bytes ''TZ-ATTEST'') (tr_attestation_data report)) \<and>
      unat now \<le> unat (tr_timestamp report) +
        min (unat (tp_max_age_seconds (as_tz_policy s))) (unat (rp_max_trustzone_age_seconds (as_routing_policy s))))"
proof -
  have m: "m \<le> Medium \<longleftrightarrow> m \<noteq> High" for m
    by (cases m) (simp_all add: less_eq_trust_level_def word_le_nat_alt)
  show ?thesis
    by (auto simp del: as_bytes_simps simp add: verify_report_def verify_trustzone_report_def tz_verify_def Let_def
        enforce_policy_Inr policy_admits_def unified_of_trustzone_def max_age_def saturating_sub_le m
        split: tee_type.splits)
qed

text \<open>
  C15. The service accepts exactly what its policy says.  A quote is accepted if and only if SGX is
  allowed, the signature is not empty and its age is within both the hour of the standard verifier and
  the routing policy; a report if and only if it is TrustZone's, TrustZone is allowed, the minimum is
  not \<open>High\<close>, the format marker is there when asked for, and its age is within both policies.  An
  accepted result is valid, fresh and of at least the minimum trust, and a stricter routing policy
  accepts nothing more.
\<close>

theorem service_accepts_exactly:
  "((\<exists>r. verify_sgx_quote now s q = Inr r) \<longleftrightarrow>
      SGX \<in> rp_allowed_tees (as_routing_policy s) \<and> qu_signature q \<noteq> [] \<and>
      unat now \<le> unat (qu_timestamp q) + min 3600 (unat (rp_max_sgx_age_seconds (as_routing_policy s)))) \<and>
   ((\<exists>r. verify_report now s report = Inr r) \<longleftrightarrow>
      tr_tee_type report = TrustZone \<and> TrustZone \<in> rp_allowed_tees (as_routing_policy s) \<and>
      rp_minimum_trust_level (as_routing_policy s) \<noteq> High \<and>
      (tp_require_format_marker (as_tz_policy s) \<longrightarrow> prefix (as_bytes ''TZ-ATTEST'') (tr_attestation_data report)) \<and>
      unat now \<le> unat (tr_timestamp report) +
        min (unat (tp_max_age_seconds (as_tz_policy s))) (unat (rp_max_trustzone_age_seconds (as_routing_policy s)))) \<and>
   (\<forall>r. enforce_policy s u = Inr r \<longrightarrow> ur_is_valid r \<and> ur_is_fresh r \<and>
      rp_minimum_trust_level (as_routing_policy s) \<le> ur_trust_level r \<and>
      (\<forall>p. stricter (as_routing_policy s) p \<longrightarrow> enforce_policy (s\<lparr>as_routing_policy := p\<rparr>) u = Inr r))"
  by (intro conjI allI impI verify_sgx_quote_Inr verify_report_Inr)
    (auto simp: enforce_policy_Inr policy_admits_mono, auto simp: policy_admits_def)

theorem service_accepts_exactly_witness:
  "(\<exists>r. verify_report 100 service_new (build_simulated_report 0) = Inr r) \<and>
   \<not> (\<exists>r. verify_report 301 service_new (build_simulated_report 0) = Inr r)"
proof -
  have "prefix (as_bytes ''TZ-ATTEST'') (as_bytes ''TZ-ATTEST:SIMULATED:OP-TEE'')"
    by simp
  moreover have "(\<exists>r. verify_report now service_new (build_simulated_report 0) = Inr r) \<longleftrightarrow>
      tr_tee_type (build_simulated_report 0) = TrustZone \<and> TrustZone \<in> rp_allowed_tees (as_routing_policy service_new) \<and>
      rp_minimum_trust_level (as_routing_policy service_new) \<noteq> High \<and>
      (tp_require_format_marker (as_tz_policy service_new) \<longrightarrow>
         prefix (as_bytes ''TZ-ATTEST'') (tr_attestation_data (build_simulated_report 0))) \<and>
      unat now \<le> unat (tr_timestamp (build_simulated_report 0)) +
        min (unat (tp_max_age_seconds (as_tz_policy service_new)))
          (unat (rp_max_trustzone_age_seconds (as_routing_policy service_new)))" for now
    using service_accepts_exactly by blast
  ultimately show ?thesis
    by (simp del: as_bytes_simps add: build_simulated_report_def service_new_def routing_policy_default_def
        trustzone_policy_default_def)
qed

text \<open>
  A batch is its items: every position holds the verdict on that item alone, the counts are those
  of the accepted and refused items and add up, and a report of any platform but TrustZone is refused
  as unsupported without a look at its data.
\<close>

theorem batch_is_pointwise:
  "br_items (verify_reports_batch s reports) = map (\<lambda>(now, r). verify_report now s r) reports \<and>
   br_passed (verify_reports_batch s reports) = length (filter (\<lambda>(now, r). \<exists>u. verify_report now s r = Inr u) reports) \<and>
   br_passed (verify_reports_batch s reports) + br_failed (verify_reports_batch s reports) = length reports \<and>
   br_items (verify_sgx_quotes_batch s quotes) = map (\<lambda>(now, q). verify_sgx_quote now s q) quotes \<and>
   br_passed (verify_sgx_quotes_batch s quotes) + br_failed (verify_sgx_quotes_batch s quotes) = length quotes \<and>
   verify_report now s (r\<lparr>tr_tee_type := t\<rparr>) =
     (if t = TrustZone then verify_trustzone_report now s (r\<lparr>tr_tee_type := t\<rparr>) else Inl (UnsupportedTee t))"
proof -
  have c: "br_passed (batch_of items) + br_failed (batch_of items) = length items" for items
    by (simp add: batch_of_def Let_def)
  have f: "filter ((\<lambda>i. \<not> isl i) \<circ> (\<lambda>(now, r). verify_report now s r)) reports =
      filter (\<lambda>(now, r). \<exists>u. verify_report now s r = Inr u) reports"
    by (rule filter_cong) (auto simp: isl_def, metis sum.exhaust)
  show ?thesis
    using c f by (cases t) (simp_all add: verify_reports_batch_def verify_sgx_quotes_batch_def
      verify_report_def [where report = "r\<lparr>tr_tee_type := t\<rparr>" for r t] batch_of_def Let_def filter_map)
qed

end
