(* ===== verification/Zero_Copy.thy ===== *)
theory Zero_Copy
  imports Quantum_Kernel Keyed_Store
begin

text \<open>
  \<open>src/zero_copy.rs\<close>: a vault with a bounded cache of encrypted data.  The key that the iterator of a
  hash map yields first is the parameter \<open>first_key\<close>, of which only that it is a key of the map is
  known.  A panic while the lock on the keys is held poisons it; nothing panics under the cache lock.
\<close>

definition MAX_CACHE_ENTRIES :: nat where
  "MAX_CACHE_ENTRIES = 100"

type_synonym first_key = "(string, bytes) hmap \<Rightarrow> string option"

definition lawful_first_key :: "first_key \<Rightarrow> bool" where
  "lawful_first_key first_key =
     (first_key [] = None \<and> (\<forall>m. m \<noteq> [] \<longrightarrow> (\<exists>k. first_key m = Some k \<and> hm_contains m k)))"

record zero_copy_vault =
  zc_keys :: "(string, string \<times> bytes) hmap"
  zc_keys_poisoned :: bool
  zc_cache :: "(string, bytes) hmap"

definition zc_new :: zero_copy_vault where
  "zc_new = \<lparr>zc_keys = [], zc_keys_poisoned = False, zc_cache = []\<rparr>"

text \<open>\<open>self.keys.lock().unwrap()\<close> around a body that leaves the keys alone.\<close>

definition with_keys ::
  "((string, string \<times> bytes) hmap \<Rightarrow> ('e, 'a) outcome) \<Rightarrow> zero_copy_vault \<Rightarrow> ('e, 'a) outcome \<times> zero_copy_vault" where
  "with_keys body v =
     (if zc_keys_poisoned v then (Panic ''PoisonError'', v)
      else case body (zc_keys v) of
        Panic m \<Rightarrow> (Panic m, v\<lparr>zc_keys_poisoned := True\<rparr>)
      | r \<Rightarrow> (r, v))"

definition zc_generate_keypair ::
  "primitives \<Rightarrow> bytes \<Rightarrow> string \<Rightarrow> zero_copy_vault \<Rightarrow> (string, string) outcome \<times> zero_copy_vault" where
  "zc_generate_keypair P seed key_id v =
     (let (kp, sk) = keygen P seed
      in if zc_keys_poisoned v then (Panic ''PoisonError'', v)
         else (Ok (kp_public_key kp), v\<lparr>zc_keys := hm_insert key_id (kp_secret_key kp, sk) (zc_keys v)\<rparr>))"

definition zc_store ::
  "primitives \<Rightarrow> bytes \<Rightarrow> nat \<Rightarrow> string \<Rightarrow> bytes \<Rightarrow> zero_copy_vault \<Rightarrow> (string, ciphertext) outcome \<times> zero_copy_vault" where
  "zc_store P nonce elapsed key_id plaintext =
     with_keys (\<lambda>keys. case hm_get keys key_id of
       None \<Rightarrow> Err ''Key not found'' | Some (_, sk) \<Rightarrow> hybrid_encrypt P nonce elapsed plaintext sk)"

definition zc_retrieve ::
  "primitives \<Rightarrow> nat \<Rightarrow> string \<Rightarrow> ciphertext \<Rightarrow> zero_copy_vault \<Rightarrow> (string, bytes) outcome \<times> zero_copy_vault" where
  "zc_retrieve P elapsed key_id ct =
     with_keys (\<lambda>keys. case hm_get keys key_id of
       None \<Rightarrow> Err ''Key not found'' | Some (_, sk) \<Rightarrow> hybrid_decrypt P elapsed ct sk)"

definition zc_evict :: "first_key \<Rightarrow> (string, bytes) hmap \<Rightarrow> (string, bytes) hmap" where
  "zc_evict first_key cache =
     (if MAX_CACHE_ENTRIES \<le> length cache
      then (case first_key cache of Some k \<Rightarrow> hm_remove k cache | None \<Rightarrow> cache)
      else cache)"

definition cache_write :: "first_key \<Rightarrow> string \<Rightarrow> bytes \<Rightarrow> zero_copy_vault \<Rightarrow> zero_copy_vault" where
  "cache_write first_key key_id data v =
     v\<lparr>zc_cache := hm_insert key_id data (zc_evict first_key (zc_cache v))\<rparr>"

definition cache_read :: "zero_copy_vault \<Rightarrow> string \<Rightarrow> bytes option" where
  "cache_read v key_id = hm_get (zc_cache v) key_id"

definition zc_clear_cache :: "zero_copy_vault \<Rightarrow> zero_copy_vault" where
  "zc_clear_cache v = v\<lparr>zc_cache := []\<rparr>"

section \<open>Sequences of calls\<close>

datatype zc_op =
    ZGenerate bytes string
  | ZStore bytes nat string bytes
  | ZRetrieve nat string ciphertext
  | ZWrite string bytes
  | ZClear

fun zc_exec :: "primitives \<Rightarrow> first_key \<Rightarrow> zero_copy_vault \<Rightarrow> zc_op \<Rightarrow> zero_copy_vault" where
  "zc_exec P fk v (ZGenerate seed k) = snd (zc_generate_keypair P seed k v)"
| "zc_exec P fk v (ZStore nonce t k x) = snd (zc_store P nonce t k x v)"
| "zc_exec P fk v (ZRetrieve t k ct) = snd (zc_retrieve P t k ct v)"
| "zc_exec P fk v (ZWrite k data) = cache_write fk k data v"
| "zc_exec P fk v ZClear = zc_clear_cache v"

definition zc_run :: "primitives \<Rightarrow> first_key \<Rightarrow> zc_op list \<Rightarrow> zero_copy_vault \<Rightarrow> zero_copy_vault" where
  "zc_run P fk ops v = foldl (zc_exec P fk) v ops"

lemma with_keys_facts [simp]:
  "zc_keys (snd (with_keys body v)) = zc_keys v" "zc_cache (snd (with_keys body v)) = zc_cache v"
  by (auto simp: with_keys_def split: outcome.splits)

definition cache_ok :: "zero_copy_vault \<Rightarrow> bool" where
  "cache_ok v = (hm_wf (zc_cache v) \<and> length (zc_cache v) \<le> MAX_CACHE_ENTRIES)"

lemma evict_below:
  assumes "lawful_first_key fk" "hm_wf m" "length m \<le> MAX_CACHE_ENTRIES"
  shows "hm_wf (zc_evict fk m)" "length (zc_evict fk m) < MAX_CACHE_ENTRIES"
proof -
  have full: "\<exists>k. fk m = Some k \<and> hm_contains m k" if "MAX_CACHE_ENTRIES \<le> length m"
    using assms(1) that by (cases m) (auto simp: lawful_first_key_def MAX_CACHE_ENTRIES_def)
  show "hm_wf (zc_evict fk m)" "length (zc_evict fk m) < MAX_CACHE_ENTRIES"
    using full assms(2,3) by (auto simp: zc_evict_def hm_len_remove MAX_CACHE_ENTRIES_def)
qed

lemma cache_ok_exec: "lawful_first_key fk \<Longrightarrow> cache_ok v \<Longrightarrow> cache_ok (zc_exec P fk v op)"
  using evict_below [of fk "zc_cache v"]
  by (cases op) (auto simp: cache_ok_def zc_generate_keypair_def keygen_def zc_store_def zc_retrieve_def
      cache_write_def zc_clear_cache_def hm_len_insert)

lemma cache_ok_run: "lawful_first_key fk \<Longrightarrow> cache_ok v \<Longrightarrow> cache_ok (zc_run P fk ops v)"
  unfolding zc_run_def by (induction ops arbitrary: v) (simp_all add: cache_ok_exec)

text \<open>
  C19. The zero-copy cache is bounded and its writes are visible.  In every state reached by calls the
  cache holds at most 100 entries; a write is read back at once, and at most one other entry is lost
  by it, none while there is room; but which one is the hash map's choice: for every entry of a full
  cache there is an iteration order under which a write, even one that only replaces an entry, loses
  that entry, the most recent one included.
\<close>

theorem zc_cache_bounded:
  assumes "lawful_first_key fk" "v = zc_run P fk ops zc_new"
  shows "length (zc_cache v) \<le> 100 \<and> cache_read (cache_write fk k x v) k = Some x \<and>
    (length (zc_cache v) < 100 \<longrightarrow> cache_read (cache_write fk k x v) = (cache_read v)(k \<mapsto> x)) \<and>
    (\<exists>victim. \<forall>i. i \<noteq> k \<longrightarrow> i \<noteq> victim \<longrightarrow> cache_read (cache_write fk k x v) i = cache_read v i) \<and>
    (length (zc_cache v) = 100 \<longrightarrow> i \<noteq> k \<longrightarrow> cache_read v i \<noteq> None \<longrightarrow>
       (\<exists>fk'. lawful_first_key fk' \<and> cache_read (cache_write fk' k x v) i = None))"
proof -
  have ok: "cache_ok v"
    using cache_ok_run [OF assms(1), of zc_new] assms(2) by (simp add: cache_ok_def zc_new_def MAX_CACHE_ENTRIES_def)
  have get: "cache_read (cache_write f k x v) = (hm_get (zc_evict f (zc_cache v)))(k \<mapsto> x)" for f
    by (rule ext) (simp add: cache_read_def cache_write_def store_simps)
  have one: "\<exists>victim. \<forall>i. i \<noteq> victim \<longrightarrow> hm_get (zc_evict fk (zc_cache v)) i = hm_get (zc_cache v) i"
    by (cases "fk (zc_cache v)") (auto simp: zc_evict_def store_simps)
  have choice: "\<exists>fk'. lawful_first_key fk' \<and> hm_get (zc_evict fk' (zc_cache v)) i = None"
    if "length (zc_cache v) = 100" "cache_read v i \<noteq> None"
  proof -
    let ?fk = "\<lambda>m. if m = zc_cache v then Some i else fk m"
    have "zc_cache v \<noteq> []"
      using that(1) by auto
    then have "lawful_first_key ?fk"
      using assms(1) that(2) by (auto simp: lawful_first_key_def hm_contains_def cache_read_def)
    moreover have "hm_get (zc_evict ?fk (zc_cache v)) i = None"
      using that(1) by (simp add: zc_evict_def MAX_CACHE_ENTRIES_def store_simps)
    ultimately show ?thesis
      by blast
  qed
  have "length (zc_cache v) < 100 \<longrightarrow> zc_evict fk (zc_cache v) = zc_cache v"
    by (simp add: zc_evict_def MAX_CACHE_ENTRIES_def)
  then have "length (zc_cache v) < 100 \<longrightarrow> cache_read (cache_write fk k x v) = (cache_read v)(k \<mapsto> x)"
    unfolding get by (auto simp: cache_read_def fun_eq_iff)
  then show ?thesis
    using ok one choice by (auto simp: get cache_ok_def MAX_CACHE_ENTRIES_def cache_read_def)
qed

definition head_key :: first_key where
  "head_key m = (case m of [] \<Rightarrow> None | (k, _) # _ \<Rightarrow> Some k)"

lemma head_key_lawful: "lawful_first_key head_key"
  by (auto simp: lawful_first_key_def head_key_def hm_contains_def neq_Nil_conv split: list.splits)

theorem zc_cache_bounded_witness:
  "length (zc_cache (zc_run plain_primitives head_key [ZWrite ''a'' [1], ZWrite ''b'' [2]] zc_new)) \<le> 100 \<and>
   cache_read (cache_write head_key ''a'' [3] (zc_run plain_primitives head_key [ZWrite ''a'' [1], ZWrite ''b'' [2]] zc_new)) ''a'' = Some [3]"
  using zc_cache_bounded [OF head_key_lawful refl, where P = plain_primitives and k = "''a''" and x = "[3]" and
      ops = "[ZWrite ''a'' [1], ZWrite ''b'' [2]]"] by blast

section \<open>What is stored is retrieved\<close>

interpretation zc_keys: keyed_store "\<lambda>v. hm_get (zc_keys v)" "\<lambda>k r v. v\<lparr>zc_keys := hm_insert k r (zc_keys v)\<rparr>"
  "\<lambda>k v. v\<lparr>zc_keys := hm_remove k (zc_keys v)\<rparr>" "\<lambda>v. hm_wf (zc_keys v)"
  by unfold_locales (simp_all add: store_simps)

lemma zc_key_kept:
  assumes "\<forall>seed. ZGenerate seed k \<notin> set ops"
  shows "hm_get (zc_keys (zc_run P fk ops v)) k = hm_get (zc_keys v) k"
proof -
  have "hm_get (zc_keys (zc_exec P fk v op)) k = hm_get (zc_keys v) k" if "\<forall>seed. op \<noteq> ZGenerate seed k" for v op
    using that by (cases op) (auto simp: zc_generate_keypair_def keygen_def zc_store_def zc_retrieve_def
        cache_write_def zc_clear_cache_def store_simps)
  then show ?thesis
    using assms unfolding zc_run_def by (induction ops arbitrary: v) (auto, metis)
qed

text \<open>
  A plaintext stored under a key is what \<open>retrieve\<close> gives back after any further calls that do not
  generate that key again and none of which panicked under the lock.
\<close>

theorem zc_store_retrieve:
  assumes "lawful_base64 P" "lawful_aes P" "length nonce = 12" "t' \<le> 200"
    and "zc_store P nonce t k x v = (Ok ct, v1)" "\<forall>seed. ZGenerate seed k \<notin> set ops"
    and "v2 = zc_run P fk ops v1" "\<not> zc_keys_poisoned v2"
  shows "fst (zc_retrieve P t' k ct v2) = Ok x"
proof -
  obtain p sk where sk: "hm_get (zc_keys v) k = Some (p, sk)" "hybrid_encrypt P nonce t x sk = (Ok ct :: (string, _) outcome)"
    and v1: "zc_keys v1 = zc_keys v"
    using assms(5) by (auto simp: zc_store_def with_keys_def split: if_splits option.splits outcome.splits)
  have "hybrid_decrypt P t' ct sk = Ok x"
    by (rule hybrid_decrypt_encrypt [OF assms(1-4) sk(2)])
  then show ?thesis
    using zc_key_kept [OF assms(6), of P fk v1] assms(7,8) sk(1) v1
    by (simp add: zc_retrieve_def with_keys_def)
qed

end
