(* ===== verification/Entropy.thy ===== *)
theory Entropy
  imports Prelude
begin

text \<open>
  \<open>src/entropy_inject.rs\<close>: the collector of timing jitter.  One call of \<open>collect\<close> is given the ten
  jitters it measures.  The counter is a machine word of 64 bits that wraps.
\<close>

definition ENTROPY_POOL_SIZE :: nat where
  "ENTROPY_POOL_SIZE = 256"

definition MIN_ENTROPY_BITS :: u64 where
  "MIN_ENTROPY_BITS = 256"

record entropy_collector =
  ec_buffer :: "u64 list"
  ec_sample_count :: u64

definition entropy_new :: entropy_collector where
  "entropy_new = \<lparr>ec_buffer = [], ec_sample_count = 0\<rparr>"

text \<open>The measuring loop pushes each jitter and counts it.\<close>

definition collect :: "u64 list \<Rightarrow> entropy_collector \<Rightarrow> u64 \<times> entropy_collector" where
  "collect jitters c =
     (let collected = of_nat (length jitters);
          buffer = ec_buffer c @ jitters @ [collected, ec_sample_count c]
      in (collected,
          \<lparr>ec_buffer = (if ENTROPY_POOL_SIZE < length buffer then tl buffer else buffer),
           ec_sample_count = ec_sample_count c + collected\<rparr>))"

definition is_ready :: "entropy_collector \<Rightarrow> bool" where
  "is_ready c = (MIN_ENTROPY_BITS div 8 \<le> ec_sample_count c)"

text \<open>The two loops of \<open>get_seed\<close>: bytes are added from the front of the buffer until 32 are.\<close>

fun seed_bytes :: "bytes \<Rightarrow> nat \<Rightarrow> bytes \<Rightarrow> nat \<times> bytes" where
  "seed_bytes [] i seed = (i, seed)"
| "seed_bytes (b # bs) i seed =
     (if 32 \<le> i then (i, seed) else seed_bytes bs (i + 1) (seed[i := seed ! i + b]))"

fun seed_loop :: "u64 list \<Rightarrow> nat \<Rightarrow> bytes \<Rightarrow> bytes" where
  "seed_loop [] i seed = seed"
| "seed_loop (v # vs) i seed =
     (if 32 \<le> i then seed
      else case seed_bytes (to_le_bytes v) i seed of (i', seed') \<Rightarrow> seed_loop vs i' seed')"

fun mix_count :: "(nat \<times> u8) list \<Rightarrow> bytes \<Rightarrow> bytes" where
  "mix_count [] seed = seed"
| "mix_count ((j, b) # rest) seed = mix_count rest (if j < 4 then seed[j := seed ! j + b] else seed)"

definition get_seed :: "entropy_collector \<Rightarrow> bytes" where
  "get_seed c =
     mix_count (enumerate 0 (to_le_bytes (ec_sample_count c))) (seed_loop (ec_buffer c) 0 (replicate 32 0))"

section \<open>The pool and the seed\<close>

definition collect_all :: "u64 list list \<Rightarrow> entropy_collector \<Rightarrow> entropy_collector" where
  "collect_all rounds c = foldl (\<lambda>c js. snd (collect js c)) c rounds"

lemma seed_loop_stop [simp]: "32 \<le> i \<Longrightarrow> seed_loop vs i seed = seed"
  by (cases vs) simp_all

lemma seed_bytes_index: "i + length bs \<le> 32 \<Longrightarrow> fst (seed_bytes bs i seed) = i + length bs"
  by (induction bs i seed rule: seed_bytes.induct) auto

lemma seed_loop_take: "i = 8 * k \<Longrightarrow> k \<le> 4 \<Longrightarrow> seed_loop (take (4 - k) vs) i seed = seed_loop vs i seed"
proof (induction vs i seed arbitrary: k rule: seed_loop.induct)
  case (1 i seed)
  then show ?case by simp
next
  case (2 v vs i seed)
  show ?case
  proof (cases "k = 4")
    case True
    then show ?thesis
      using 2(2) by simp
  next
    case False
    then have k: "4 - k = Suc (4 - Suc k)" "Suc k \<le> 4" "\<not> 32 \<le> i" "i + 8 \<le> 32"
      using 2(2,3) by auto
    obtain i' seed' where s: "seed_bytes (to_le_bytes v) i seed = (i', seed')"
      by (cases "seed_bytes (to_le_bytes v) i seed")
    have "i' = 8 * Suc k"
      using seed_bytes_index [of i "to_le_bytes v" seed] s k(4) 2(2) by simp
    then show ?thesis
      using 2(1) [OF k(3) s [symmetric], of "Suc k"] k(1-3) s by simp
  qed
qed

lemma get_seed_take: "get_seed (c\<lparr>ec_buffer := take 4 (ec_buffer c)\<rparr>) = get_seed c"
  using seed_loop_take [of 0 0 "ec_buffer c"] by (simp add: get_seed_def)

lemma collect_length:
  "length js = 10 \<Longrightarrow> length (ec_buffer (snd (collect js c))) =
     (if 256 < length (ec_buffer c) + 12 then length (ec_buffer c) + 11 else length (ec_buffer c) + 12)"
  by (simp add: collect_def Let_def ENTROPY_POOL_SIZE_def)

lemma collect_all_length:
  assumes "\<forall>js \<in> set rounds. length js = 10"
  shows "length (ec_buffer (collect_all rounds entropy_new)) =
    (if length rounds \<le> 21 then 12 * length rounds else 11 * length rounds + 21)"
  using assms
proof (induction rounds rule: rev_induct)
  case Nil
  then show ?case by (simp add: collect_all_def entropy_new_def)
next
  case (snoc js rounds)
  have "collect_all (rounds @ [js]) entropy_new = snd (collect js (collect_all rounds entropy_new))"
    by (simp add: collect_all_def)
  then show ?case
    using snoc by (auto simp: collect_length)
qed

lemma collect_all_front:
  assumes "length rounds \<le> 20" "\<forall>js \<in> set (first # rounds). length js = 10"
  shows "take 4 (ec_buffer (collect_all (first # rounds) entropy_new)) = take 4 first"
  using assms
proof (induction rounds rule: rev_induct)
  case Nil
  then show ?case by (simp add: collect_all_def entropy_new_def collect_def Let_def ENTROPY_POOL_SIZE_def)
next
  case (snoc js rounds)
  let ?c = "collect_all (first # rounds) entropy_new"
  have l: "length (ec_buffer ?c) = 12 * Suc (length rounds)"
    using collect_all_length [of "first # rounds"] snoc.prems by simp
  then have "ec_buffer (snd (collect js ?c)) = ec_buffer ?c @ js @ [of_nat (length js), ec_sample_count ?c]"
    using snoc.prems by (simp add: collect_def Let_def ENTROPY_POOL_SIZE_def)
  moreover have "collect_all (first # rounds @ [js]) entropy_new = snd (collect js ?c)"
    by (simp add: collect_all_def)
  ultimately show ?case
    using snoc l by simp
qed

lemma collect_all_count:
  assumes "\<forall>js \<in> set rounds. length js = 10"
  shows "ec_sample_count (collect_all rounds c) = ec_sample_count c + of_nat (10 * length rounds)"
  using assms unfolding collect_all_def
  by (induction rounds arbitrary: c) (simp_all add: collect_def Let_def algebra_simps)

text \<open>
  The pool grows without bound and the seed ignores almost all of it.  Each call adds twelve words
  and drops at most one, so that after \<open>n\<close> calls the pool of 256 holds \<open>12 n\<close>, and from the 22nd on
  \<open>11 n + 21\<close>, words; and up to the 21st call the seed depends on the first four jitters ever measured
  and the number of calls alone: collecting more adds no entropy to it.
\<close>

theorem seed_ignores_later_jitter:
  assumes "\<forall>js \<in> set (first # rounds). length js = 10" "\<forall>js \<in> set (first' # rounds'). length js = 10"
  shows "length (ec_buffer (collect_all (first # rounds) entropy_new)) =
      (if length rounds \<le> 20 then 12 * (length rounds + 1) else 11 * (length rounds + 1) + 21) \<and>
    (length rounds \<le> 20 \<longrightarrow> length rounds' = length rounds \<longrightarrow> take 4 first' = take 4 first \<longrightarrow>
      get_seed (collect_all (first' # rounds') entropy_new) = get_seed (collect_all (first # rounds) entropy_new))"
proof -
  have "get_seed (collect_all (first' # rounds') entropy_new) = get_seed (collect_all (first # rounds) entropy_new)"
    if l: "length rounds \<le> 20" "length rounds' = length rounds" "take 4 first' = take 4 first"
  proof -
    let ?c = "collect_all (first # rounds) entropy_new" and ?c' = "collect_all (first' # rounds') entropy_new"
    have "take 4 (ec_buffer ?c') = take 4 (ec_buffer ?c)"
      using collect_all_front [of rounds first] collect_all_front [of rounds' first'] assms l by simp
    moreover have "ec_sample_count ?c' = ec_sample_count ?c"
      using collect_all_count [OF assms(1), of entropy_new] collect_all_count [OF assms(2), of entropy_new] l(2) by simp
    ultimately have "?c'\<lparr>ec_buffer := take 4 (ec_buffer ?c')\<rparr> = ?c\<lparr>ec_buffer := take 4 (ec_buffer ?c)\<rparr>"
      by (simp add: entropy_collector.equality)
    then show ?thesis
      using get_seed_take [of ?c] get_seed_take [of ?c'] by simp
  qed
  then show ?thesis
    using collect_all_length [OF assms(1)] by simp
qed

theorem seed_ignores_later_jitter_witness:
  "get_seed (collect_all [[1, 2, 3, 4, 5, 6, 7, 8, 9, 10], replicate 10 0] entropy_new) =
   get_seed (collect_all [[1, 2, 3, 4, 0, 0, 0, 0, 0, 0], replicate 10 99] entropy_new)"
  using seed_ignores_later_jitter [of "[1, 2, 3, 4, 0, 0, 0, 0, 0, 0]" "[replicate 10 99]"
      "[1, 2, 3, 4, 5, 6, 7, 8, 9, 10]" "[replicate 10 0]"] by simp

end
