(* ===== verification/F64_Arith.thy ===== *)
theory F64_Arith
  imports F64
begin

text \<open>
  Addition, multiplication and division of doubles: the exact rational result rounded to nearest, ties
  to even, with gradual underflow and overflow to an infinity, and the conversion to \<open>i64\<close>.  A zero
  carries no sign; the source divides by no zero, and the sign of a zero reaches none of its results.
\<close>

section \<open>Rounding\<close>

text \<open>The double nearest to \<open>a / b\<close>, for \<open>0 \<le> a\<close> and \<open>0 < b\<close>.\<close>

definition f64_magnitude :: "int \<Rightarrow> int \<Rightarrow> f64" where
  "f64_magnitude a b =
     (if a * 2 ^ 1022 < b then Fin (of_int (round_even (a * 2 ^ 1074) b) / 2 ^ 1074)
      else (let r = f64_quot a b in if 2 ^ 1024 \<le> r then PosInf else Fin r))"

fun f64_neg :: "f64 \<Rightarrow> f64" where
  "f64_neg NaN = NaN"
| "f64_neg NegInf = PosInf"
| "f64_neg PosInf = NegInf"
| "f64_neg (Fin r) = Fin (- r)"

definition f64_round :: "rat \<Rightarrow> f64" where
  "f64_round q = (let m = (case quotient_of \<bar>q\<bar> of (a, b) \<Rightarrow> f64_magnitude a b) in if q < 0 then f64_neg m else m)"

section \<open>Operations\<close>

fun f64_negative :: "f64 \<Rightarrow> bool" where
  "f64_negative NegInf = True"
| "f64_negative (Fin r) = (r < 0)"
| "f64_negative _ = False"

definition f64_inf :: "bool \<Rightarrow> f64" where
  "f64_inf neg = (if neg then NegInf else PosInf)"

fun f64_add :: "f64 \<Rightarrow> f64 \<Rightarrow> f64" where
  "f64_add (Fin a) (Fin b) = f64_round (a + b)"
| "f64_add NaN _ = NaN"
| "f64_add _ NaN = NaN"
| "f64_add PosInf NegInf = NaN"
| "f64_add NegInf PosInf = NaN"
| "f64_add (Fin a) b = b"
| "f64_add a _ = a"

definition f64_sub :: "f64 \<Rightarrow> f64 \<Rightarrow> f64" where
  "f64_sub a b = f64_add a (f64_neg b)"

fun f64_mul :: "f64 \<Rightarrow> f64 \<Rightarrow> f64" where
  "f64_mul (Fin a) (Fin b) = f64_round (a * b)"
| "f64_mul NaN _ = NaN"
| "f64_mul _ NaN = NaN"
| "f64_mul a b = (if a = Fin 0 \<or> b = Fin 0 then NaN else f64_inf (f64_negative a \<noteq> f64_negative b))"

fun f64_divide :: "f64 \<Rightarrow> f64 \<Rightarrow> f64" where
  "f64_divide (Fin a) (Fin b) =
     (if b = 0 then (if a = 0 then NaN else f64_inf (a < 0)) else f64_round (a / b))"
| "f64_divide NaN _ = NaN"
| "f64_divide _ NaN = NaN"
| "f64_divide (Fin a) _ = Fin 0"
| "f64_divide a (Fin b) = f64_inf (f64_negative a \<noteq> (b < 0))"
| "f64_divide _ _ = NaN"

fun f64_abs :: "f64 \<Rightarrow> f64" where
  "f64_abs NaN = NaN"
| "f64_abs (Fin r) = Fin \<bar>r\<bar>"
| "f64_abs _ = PosInf"

fun f64_signum :: "f64 \<Rightarrow> f64" where
  "f64_signum NaN = NaN"
| "f64_signum x = Fin (if f64_negative x then - 1 else 1)"

text \<open>\<open>x as i64\<close>: toward zero, saturating, NaN to 0.\<close>

fun f64_to_i64 :: "f64 \<Rightarrow> u64" where
  "f64_to_i64 NaN = 0"
| "f64_to_i64 PosInf = word_of_int (2 ^ 63 - 1)"
| "f64_to_i64 NegInf = word_of_int (- (2 ^ 63))"
| "f64_to_i64 (Fin r) =
     word_of_int (max (- (2 ^ 63)) (min (2 ^ 63 - 1) (if r < 0 then \<lceil>r\<rceil> else \<lfloor>r\<rfloor>)))"

section \<open>The shape of a rounded number\<close>

text \<open>Rounding to an integer as a function of the rational.\<close>

definition rnd :: "rat \<Rightarrow> int" where
  "rnd r = (let f = \<lfloor>r\<rfloor>; d = r - of_int f in if 2 * d < 1 then f else if 1 < 2 * d then f + 1 else if even f then f else f + 1)"

lemma round_even_rnd:
  assumes "0 < b"
  shows "round_even a b = rnd (of_int a / of_int b)"
proof -
  have b: "(of_int b :: rat) > 0"
    using assms by simp
  have f: "\<lfloor>(of_int a / of_int b) :: rat\<rfloor> = a div b"
    by (simp add: floor_divide_of_int_eq)
  have "(of_int a / of_int b :: rat) = of_int (a div b * b + a mod b) / of_int b"
    by (simp only: div_mult_mod_eq)
  also have "\<dots> = of_int (a div b) + of_int (a mod b) / of_int b"
    unfolding of_int_add of_int_mult using b by (simp only: add_divide_distrib) simp
  finally have d: "(of_int a / of_int b :: rat) - of_int (a div b) = of_int (a mod b) / of_int b"
    by simp
  have half: "2 * (x / y) < 1 \<longleftrightarrow> 2 * x < y" "1 < 2 * (x / y) \<longleftrightarrow> y < 2 * x" if "0 < y" for x y :: rat
    using that by (simp_all add: field_simps)
  have "2 * (of_int (a mod b) / of_int b) < (1 :: rat) \<longleftrightarrow> 2 * (a mod b) < b"
    "(1 :: rat) < 2 * (of_int (a mod b) / of_int b) \<longleftrightarrow> b < 2 * (a mod b)"
    unfolding half [OF b] by (metis of_int_less_iff of_int_mult of_int_numeral)+
  then show ?thesis
    by (simp only: round_even_def rnd_def Let_def f d)
qed

lemma rnd_near: "\<bar>of_int (rnd r) - r\<bar> \<le> 1 / 2"
proof -
  have "of_int \<lfloor>r\<rfloor> \<le> r" "r < of_int \<lfloor>r\<rfloor> + 1"
    by linarith+
  then show ?thesis
    unfolding rnd_def Let_def by (auto simp: abs_le_iff)
qed

lemma rnd_of_int [simp]: "rnd (of_int n) = n"
  by (simp add: rnd_def Let_def)

lemma rnd_mono_int: "of_int n \<le> r \<Longrightarrow> n \<le> rnd r" "r \<le> of_int n \<Longrightarrow> rnd r \<le> n"
proof -
  assume "of_int n \<le> r"
  then show "n \<le> rnd r"
    using le_floor_iff [of n r] by (auto simp: rnd_def Let_def)
next
  assume a: "r \<le> of_int n"
  have "\<lfloor>r\<rfloor> \<le> n" "\<lfloor>r\<rfloor> = n \<Longrightarrow> r = of_int n"
    using a floor_mono [OF a] by linarith+
  then show "rnd r \<le> n"
    by (cases "\<lfloor>r\<rfloor> = n") (auto simp: rnd_def Let_def)
qed

lemma rnd_below: "2 * r < 2 * of_int n + 1 \<Longrightarrow> rnd r \<le> n"
proof -
  assume "2 * r < 2 * of_int n + 1"
  moreover have "of_int (rnd r) \<le> r + 1 / 2"
    using rnd_near [of r] unfolding abs_le_iff by linarith
  ultimately have "(of_int (rnd r) :: rat) < of_int (n + 1)"
    by simp
  then show ?thesis
    by (simp only: of_int_less_iff)
qed

lemma bit_length_bounds:
  assumes "0 < n"
  shows "0 < bit_length n" "2 ^ nat (bit_length n - 1) \<le> n" "n < 2 ^ nat (bit_length n)"
proof -
  have "0 < bit_length n \<and> 2 ^ nat (bit_length n - 1) \<le> n \<and> n < 2 ^ nat (bit_length n)"
    using assms
  proof (induction n rule: bit_length.induct)
    case (1 n)
    show ?case
    proof (cases "n = 1")
      case True
      then show ?thesis
        by (simp add: bit_length.simps)
    next
      case False
      let ?k = "bit_length (n div 2)"
      have ih: "0 < ?k" "2 ^ nat (?k - 1) \<le> n div 2" "n div 2 < 2 ^ nat ?k"
        using 1 False by auto
      have b: "bit_length n = 1 + ?k"
        using 1(2) by (subst bit_length.simps) simp
      have "nat ?k = Suc (nat (?k - 1))" "nat (1 + ?k) = Suc (nat ?k)"
        using ih(1) by simp_all
      then have p: "(2 :: int) ^ nat ?k = 2 * 2 ^ nat (?k - 1)" "(2 :: int) ^ nat (1 + ?k) = 2 * 2 ^ nat ?k"
        by (simp_all only: power_Suc)
      show ?thesis
        using ih p b by (auto simp only: add_diff_cancel_left') (linarith+)
    qed
  qed
  then show "0 < bit_length n" "2 ^ nat (bit_length n - 1) \<le> n" "n < 2 ^ nat (bit_length n)"
    by auto
qed

lemma scaled_ratio:
  assumes "0 < b" "scaled a b s = (x, y)"
  shows "0 < y" "(of_int x / of_int y :: rat) = of_int a / of_int b * 2 powi s"
proof -
  show "0 < y"
    using assms by (auto simp: scaled_def split: if_splits)
  show "(of_int x / of_int y :: rat) = of_int a / of_int b * 2 powi s"
    using assms(2) by (auto simp: scaled_def power_int_def divide_simps split: if_splits)
qed

lemma bit_length_range:
  assumes "0 < n"
  shows "(2 :: rat) powi (bit_length n - 1) \<le> of_int n" "of_int n < (2 :: rat) powi bit_length n"
proof -
  note b = bit_length_bounds [OF assms]
  have "(2 :: rat) powi (bit_length n - 1) = of_int (2 ^ nat (bit_length n - 1))"
    "(2 :: rat) powi bit_length n = of_int (2 ^ nat (bit_length n))"
    using b(1) by (simp_all add: power_int_def)
  then show "(2 :: rat) powi (bit_length n - 1) \<le> of_int n" "of_int n < (2 :: rat) powi bit_length n"
    using b(2,3) by (simp_all only: of_int_le_iff of_int_less_iff)
qed

text \<open>A nonzero quotient is rounded on the grid on which it has 53 bits.\<close>

lemma f64_quot_grid:
  assumes "0 < a" "0 < b" "q = of_int a / of_int b"
  obtains s where "f64_quot a b = of_int (rnd (q * 2 powi s)) * 2 powi (- s)"
    "2 ^ 52 \<le> q * 2 powi s" "q * 2 powi s < 2 ^ 53"
proof -
  define s0 where "s0 = 53 + bit_length b - bit_length a"
  define s where "s = (case scaled a b s0 of (x, y) \<Rightarrow> if y * 2 ^ 53 \<le> x then s0 - 1 else s0)"
  note la = bit_length_range [OF assms(1)] and lb = bit_length_range [OF assms(2)]
  have pos: "(0 :: rat) < 2 powi t" for t :: int
    by (simp add: zero_less_power_int)
  have p: "(2 :: rat) powi (s0 + (bit_length a - 1) - bit_length b) = 2 ^ 52"
    "(2 :: rat) powi (s0 + bit_length a - (bit_length b - 1)) = 2 ^ 54"
    by (simp_all add: s0_def power_int_def)
  have low: "2 ^ 52 \<le> q * 2 powi s0"
  proof -
    have "(2 :: rat) powi (bit_length a - 1) / 2 powi bit_length b \<le> q"
      unfolding assms(3) using la lb pos assms(1,2) by (intro frac_le) auto
    then have "(2 :: rat) powi (bit_length a - 1) / 2 powi bit_length b * 2 powi s0 \<le> q * 2 powi s0"
      by (rule mult_right_mono) (rule less_imp_le [OF pos])
    moreover have "(2 :: rat) powi (bit_length a - 1) / 2 powi bit_length b * 2 powi s0 = 2 ^ 52"
      unfolding p(1) [symmetric] by (simp add: power_int_add power_int_diff)
    ultimately show ?thesis
      by simp
  qed
  have high: "q * 2 powi s0 < 2 ^ 54"
  proof -
    have "q < (2 :: rat) powi bit_length a / 2 powi (bit_length b - 1)"
      unfolding assms(3) using la lb pos assms(1,2) by (intro frac_less) auto
    then have "q * 2 powi s0 < (2 :: rat) powi bit_length a / 2 powi (bit_length b - 1) * 2 powi s0"
      by (rule mult_strict_right_mono) (rule pos)
    moreover have "(2 :: rat) powi bit_length a / 2 powi (bit_length b - 1) * 2 powi s0 = 2 ^ 54"
      unfolding p(2) [symmetric] by (simp add: power_int_add power_int_diff)
    ultimately show ?thesis
      by simp
  qed
  obtain x y where xy: "scaled a b s0 = (x, y)"
    by (cases "scaled a b s0")
  have r: "q * 2 powi s0 = of_int x / of_int y" and y: "0 < (of_int y :: rat)"
    using scaled_ratio [OF assms(2) xy] assms(3) by simp_all
  have c: "y * 2 ^ 53 \<le> x \<longleftrightarrow> 2 ^ 53 \<le> q * 2 powi s0"
  proof -
    have "y * 2 ^ 53 \<le> x \<longleftrightarrow> (of_int (y * 2 ^ 53) :: rat) \<le> of_int x"
      by (simp only: of_int_le_iff)
    also have "\<dots> \<longleftrightarrow> 2 ^ 53 \<le> q * 2 powi s0"
      unfolding r using y by (simp add: field_simps)
    finally show ?thesis .
  qed
  have s: "2 ^ 52 \<le> q * 2 powi s \<and> q * 2 powi s < 2 ^ 53"
  proof (cases "2 ^ 53 \<le> q * 2 powi s0")
    case True
    then have "s = s0 - 1"
      using c by (simp add: s_def xy)
    then have "(2 :: rat) powi s0 = 2 * 2 powi s"
      by (simp add: power_int_diff)
    then have e: "q * 2 powi s0 = 2 * (q * 2 powi s)"
      by (simp only: mult.left_commute)
    have "2 ^ 53 \<le> 2 * z \<Longrightarrow> 2 * z < 2 ^ 54 \<Longrightarrow> 2 ^ 52 \<le> z \<and> z < 2 ^ 53" for z :: rat
      by simp
    then show ?thesis
      using True high unfolding e by blast
  next
    case False
    then have "s = s0"
      using c by (simp add: s_def xy)
    then show ?thesis
      using False low by simp
  qed
  obtain u v where uv: "scaled a b s = (u, v)"
    by (cases "scaled a b s")
  have m: "round_even u v = rnd (q * 2 powi s)"
    using round_even_rnd [of v u] scaled_ratio [OF assms(2) uv] assms(3) by simp
  have "f64_quot a b = of_int (rnd (q * 2 powi s)) * 2 powi (- s)"
  proof -
    have "f64_quot a b = (if 0 \<le> s then of_int (rnd (q * 2 powi s)) / of_int (2 ^ nat s)
        else of_int (rnd (q * 2 powi s) * 2 ^ nat (- s)))"
      unfolding f64_quot_def Let_def s0_def [symmetric] s_def [symmetric] uv prod.case m using assms(1) by simp
    moreover have "(2 :: rat) powi (- s) = (if 0 \<le> s then inverse (2 ^ nat s) else 2 ^ nat (- s))"
      by (auto simp: power_int_def inverse_eq_divide power_one_over)
    ultimately show ?thesis
      by (simp add: divide_inverse)
  qed
  then show thesis
    using that s by blast
qed

text \<open>Powers of two bound what they bound before rounding.\<close>

lemma f64_quot_pow2:
  assumes "0 < a" "0 < b"
  shows "(2 :: rat) powi k \<le> of_int a / of_int b \<Longrightarrow> 2 powi k \<le> f64_quot a b"
    and "of_int a / of_int b \<le> (2 :: rat) powi k \<Longrightarrow> f64_quot a b \<le> 2 powi k"
proof -
  define q :: rat where "q = of_int a / of_int b"
  obtain s where g: "f64_quot a b = of_int (rnd (q * 2 powi s)) * 2 powi (- s)"
    "2 ^ 52 \<le> q * 2 powi s" "q * 2 powi s < 2 ^ 53"
    using f64_quot_grid [OF assms q_def] .
  have int: "(2 :: rat) powi t = of_int (2 ^ nat t)" if "0 \<le> t" for t :: int
    using that by (simp add: power_int_def)
  have shift: "(2 :: rat) powi (k + s) * 2 powi (- s) = 2 powi k" for k
    by (simp flip: power_int_add)
  have up: "x * 2 powi (- s) \<le> y * 2 powi (- s)" if "x \<le> y" for x y :: rat
    using that by (intro mult_right_mono) simp_all
  have le: "x * 2 powi s \<le> y * 2 powi s" if "x \<le> y" for x y :: rat
    using that by (intro mult_right_mono) simp_all
  show "2 powi k \<le> f64_quot a b" if k: "2 powi k \<le> (of_int a / of_int b :: rat)"
  proof -
    have q: "(2 :: rat) powi (k + s) \<le> q * 2 powi s"
      using le [OF k] by (simp add: q_def power_int_add)
    have "(2 :: rat) powi (k + s) \<le> of_int (rnd (q * 2 powi s))"
    proof (cases "0 \<le> k + s")
      case True
      then show ?thesis
        using rnd_mono_int(1) [of "2 ^ nat (k + s)"] q unfolding int [OF True] of_int_le_iff by blast
    next
      case False
      then have "(2 :: rat) powi (k + s) \<le> 2 powi 0"
        by (intro power_int_increasing) simp_all
      moreover have "1 \<le> rnd (q * 2 powi s)"
        using g(2) by (intro rnd_mono_int(1)) simp
      then have "(of_int 1 :: rat) \<le> of_int (rnd (q * 2 powi s))"
        by (simp only: of_int_le_iff)
      ultimately show ?thesis
        by simp
    qed
    from up [OF this] show ?thesis
      by (simp only: shift g(1))
  qed
  show "f64_quot a b \<le> 2 powi k" if k: "(of_int a / of_int b :: rat) \<le> 2 powi k"
  proof -
    have q: "q * 2 powi s \<le> (2 :: rat) powi (k + s)"
      using le [OF k] by (simp add: q_def power_int_add)
    have nn: "0 \<le> k + s"
    proof (rule ccontr)
      assume "\<not> 0 \<le> k + s"
      then have "(2 :: rat) powi (k + s) \<le> 2 powi 0"
        by (intro power_int_increasing) simp_all
      then show False
        using q g(2) by simp
    qed
    have "(of_int (rnd (q * 2 powi s)) :: rat) \<le> 2 powi (k + s)"
      using rnd_mono_int(2) [of _ "2 ^ nat (k + s)"] q unfolding int [OF nn] of_int_le_iff by blast
    from up [OF this] show ?thesis
      by (simp only: shift g(1))
  qed
qed

lemma pow2_less_iff [simp]: "(2 :: rat) powi j < 2 powi k \<longleftrightarrow> j < k"
  by (metis linorder_not_le numeral_less_iff one_less_numeral_iff power_int_increasing power_int_strict_increasing
      semiring_norm(76) one_le_numeral)

lemma pow2_le_iff: "(2 :: rat) powi j \<le> 2 powi k \<longleftrightarrow> j \<le> k"
  using pow2_less_iff [of k j] by (simp only: linorder_not_less [symmetric])

lemma f64_magnitude_normal:
  assumes "0 < a" "0 < b" "(2 :: rat) powi - 1022 \<le> of_int a / of_int b" "of_int a / of_int b \<le> (2 :: rat) powi 1023"
  shows "f64_magnitude a b = Fin (f64_quot a b)"
proof -
  have "(of_int b :: rat) \<le> of_int (a * 2 ^ 1022)"
    using assms(1-3) by (simp add: power_int_minus field_simps)
  then have "\<not> a * 2 ^ 1022 < b"
    unfolding of_int_le_iff by simp
  moreover have "\<not> 2 ^ 1024 \<le> f64_quot a b"
  proof -
    have "f64_quot a b \<le> 2 powi 1023"
      by (rule f64_quot_pow2(2) [OF assms(1,2,4)])
    moreover have "(2 :: rat) powi 1023 < 2 powi 1024"
      unfolding pow2_less_iff by simp
    ultimately show ?thesis
      by (simp only: power_int_numeral not_le)
  qed
  ultimately show ?thesis
    unfolding f64_magnitude_def Let_def by (simp only: if_False)
qed

lemma f64_round_pos:
  assumes "(2 :: rat) powi - 1022 \<le> q" "q \<le> 2 powi 1023"
  obtains a b where "0 < a" "0 < b" "q = of_int a / of_int b" "f64_round q = Fin (f64_quot a b)"
proof -
  obtain a b where ab: "quotient_of q = (a, b)"
    by (cases "quotient_of q")
  have q: "0 < q"
    using assms(1) less_le_trans [OF zero_less_power_int] by (metis zero_less_numeral)
  have d: "q = of_int a / of_int b" "0 < b"
    using quotient_of_div [OF ab] quotient_of_denom_pos [OF ab] by auto
  then have "0 < a"
    using q by (simp add: zero_less_divide_iff)
  moreover have "f64_round q = Fin (f64_quot a b)"
  proof -
    have "f64_magnitude a b = Fin (f64_quot a b)"
      by (rule f64_magnitude_normal [OF \<open>0 < a\<close> d(2) assms [unfolded d(1)]])
    then show ?thesis
      unfolding f64_round_def abs_of_pos [OF q] ab using q by simp
  qed
  ultimately show thesis
    using that d by blast
qed

lemma f64_round_between:
  assumes "(2 :: rat) powi j \<le> q" "q \<le> 2 powi k" "- 1022 \<le> j" "k \<le> 1023"
  obtains r where "f64_round q = Fin r" "2 powi j \<le> r" "r \<le> 2 powi k"
proof -
  have "(2 :: rat) powi - 1022 \<le> 2 powi j" "(2 :: rat) powi k \<le> 2 powi 1023"
    unfolding pow2_le_iff using assms(3,4) by simp_all
  then obtain a b where ab: "0 < a" "0 < b" "q = of_int a / of_int b" "f64_round q = Fin (f64_quot a b)"
    using f64_round_pos [of q] assms(1,2) order_trans by blast
  then show thesis
    using that f64_quot_pow2 [OF ab(1,2)] assms(1,2) by blast
qed

lemma f64_round_neg: "0 < q \<Longrightarrow> f64_round (- q) = f64_neg (f64_round q)"
  by (simp add: f64_round_def Let_def)

text \<open>Within one binade rounding is on a fixed grid.\<close>

lemma f64_round_binade:
  assumes "(2 :: rat) powi k \<le> q" "q < 2 powi (k + 1)" "- 1022 \<le> k" "k < 1023"
  shows "f64_round q = Fin (of_int (rnd (q * 2 powi (52 - k))) * 2 powi (k - 52))"
proof -
  have "(2 :: rat) powi - 1022 \<le> 2 powi k" "(2 :: rat) powi (k + 1) \<le> 2 powi 1023"
    unfolding pow2_le_iff using assms(3,4) by simp_all
  then obtain a b where ab: "0 < a" "0 < b" "q = of_int a / of_int b" "f64_round q = Fin (f64_quot a b)"
    using f64_round_pos [of q] assms(1) order_trans less_imp_le [OF assms(2)] by blast
  obtain s where g: "f64_quot a b = of_int (rnd (q * 2 powi s)) * 2 powi (- s)"
    "2 ^ 52 \<le> q * 2 powi s" "q * 2 powi s < 2 ^ 53"
    using f64_quot_grid [OF ab(1-3)] .
  have pos: "(0 :: rat) < 2 powi s"
    by simp
  have "(2 :: rat) powi (k + s) \<le> q * 2 powi s" "q * 2 powi s < 2 powi (k + 1 + s)"
    using assms(1,2) pos by (simp_all add: power_int_add [of _ _ s] mult_right_mono less_imp_le)
  then have "(2 :: rat) powi (k + s) < 2 powi 53" "(2 :: rat) powi 52 < 2 powi (k + 1 + s)"
    using g(2,3) unfolding power_int_numeral by (meson le_less_trans)+
  then have "s = 52 - k"
    unfolding pow2_less_iff by linarith
  then show ?thesis
    using g(1) ab(4) by simp
qed

lemma rnd_ge_even:
  assumes "even N"
  shows "N \<le> rnd r \<longleftrightarrow> 2 * of_int N - 1 \<le> 2 * r"
proof
  assume "N \<le> rnd r"
  then have "\<not> rnd r \<le> N - 1"
    by simp
  then have "\<not> 2 * r < 2 * of_int (N - 1) + 1"
    using rnd_below [of r "N - 1"] by blast
  then show "2 * of_int N - 1 \<le> 2 * r"
    by simp
next
  assume r: "2 * of_int N - 1 \<le> 2 * r"
  have f: "of_int \<lfloor>r\<rfloor> \<le> r" "r < of_int \<lfloor>r\<rfloor> + 1"
    by linarith+
  then have "(of_int (2 * N - 1) :: rat) < of_int (2 * \<lfloor>r\<rfloor> + 2)"
    using r by simp
  then have "N \<le> \<lfloor>r\<rfloor> + 1"
    unfolding of_int_less_iff by linarith
  moreover have "rnd r = \<lfloor>r\<rfloor> + 1" if "N = \<lfloor>r\<rfloor> + 1"
    using r that assms by (auto simp: rnd_def Let_def)
  moreover have "\<lfloor>r\<rfloor> \<le> rnd r"
    by (auto simp: rnd_def Let_def)
  ultimately show "N \<le> rnd r"
    by (cases "N = \<lfloor>r\<rfloor> + 1") simp_all
qed

text \<open>Numbers of at most 53 bits are kept.\<close>

lemma f64_round_exact:
  assumes "0 < m" "m \<le> 2 ^ 53" "- 1022 \<le> t" "t \<le> 900"
  shows "f64_round (of_int m * 2 powi t) = Fin (of_int m * 2 powi t)"
proof (cases "m = 2 ^ 53")
  case True
  have e: "(of_int m :: rat) * 2 powi t = 2 powi (t + 53)"
    by (simp add: True power_int_add)
  have b: "- 1022 \<le> t + 53" "t + 53 \<le> 1023"
    using assms(3,4) by linarith+
  obtain r where "f64_round (2 powi (t + 53)) = Fin r" "2 powi (t + 53) \<le> r" "r \<le> 2 powi (t + 53)"
    using f64_round_between [OF order_refl order_refl b] .
  then show ?thesis
    unfolding e by (metis antisym)
next
  case False
  let ?j = "bit_length m - 1"
  note b = bit_length_bounds [OF assms(1)] bit_length_range [OF assms(1)]
  have "(2 :: int) ^ nat ?j < 2 ^ 53"
    using b(2) assms(2) False by linarith
  then have "nat ?j < 53"
    by (simp only: power_strict_increasing_iff [of "2 :: int"])
  then have j: "0 \<le> ?j" "?j \<le> 52"
    using b(1) by linarith+
  have lo: "(2 :: rat) powi (?j + t) \<le> of_int m * 2 powi t"
    using b(4) by (simp add: power_int_add [of _ ?j t] mult_right_mono)
  have hi: "of_int m * 2 powi t < (2 :: rat) powi (?j + t + 1)"
  proof -
    have "of_int m * 2 powi t < (2 :: rat) powi bit_length m * 2 powi t"
      using b(5) by simp
    then show ?thesis
      by (simp flip: power_int_add add: algebra_simps)
  qed
  have "of_int m * 2 powi t * 2 powi (52 - (?j + t)) = (of_int m * 2 powi (52 - ?j) :: rat)"
    by (simp flip: power_int_add add: mult.assoc)
  also have "\<dots> = of_int (m * 2 ^ nat (52 - ?j))"
    using j by (simp add: power_int_def)
  finally have g: "rnd (of_int m * 2 powi t * 2 powi (52 - (?j + t))) = m * 2 ^ nat (52 - ?j)"
    by (simp only: rnd_of_int)
  have "(of_int (m * 2 ^ nat (52 - ?j)) :: rat) * 2 powi (?j + t - 52) =
      of_int m * (2 powi (52 - ?j) * 2 powi (?j + t - 52))"
    unfolding power_int_nonneg_exp [of "52 - ?j", OF diff_ge_0_iff_ge [THEN iffD2, OF j(2)]]
    by (simp only: of_int_mult of_int_power of_int_numeral mult.assoc)
  also have "\<dots> = of_int m * 2 powi t"
    unfolding power_int_add [of "2 :: rat", OF disjI1, OF zero_neq_numeral [symmetric], symmetric] by simp
  finally have "(of_int (m * 2 ^ nat (52 - ?j)) :: rat) * 2 powi (?j + t - 52) = of_int m * 2 powi t" .
  then show ?thesis
    using f64_round_binade [OF lo hi] j assms(3,4) unfolding g by simp
qed

lemma f64_round_0 [simp]: "f64_round 0 = Fin 0"
  by (simp add: f64_round_def f64_magnitude_def round_even_def)

lemma round_even_scaled:
  assumes "0 \<le> a" "0 < b" "a \<le> b" "0 \<le> k"
  shows "0 \<le> round_even (a * k) b" "round_even (a * k) b \<le> k"
proof -
  have "of_int (a * k) / of_int b \<le> (of_int k :: rat)"
    using assms mult_right_mono [of "of_int a" "of_int b" "of_int k :: rat"]
    by (simp add: divide_le_eq mult.commute)
  then show "round_even (a * k) b \<le> k"
    unfolding round_even_rnd [OF assms(2)] by (rule rnd_mono_int(2))
  show "0 \<le> round_even (a * k) b"
    using assms by (simp add: round_even_nonneg)
qed

lemma f64_round_bounded:
  assumes "\<bar>q\<bar> \<le> 2 powi k" "0 \<le> k" "k \<le> 1023"
  shows "\<exists>r. f64_round q = Fin r \<and> \<bar>r\<bar> \<le> 2 powi k"
proof -
  have one: "(1 :: rat) \<le> 2 powi k"
    using assms(2) pow2_le_iff [of 0 k] by (simp only: power_int_0_right)
  have big: "(2 :: rat) powi k \<le> 2 powi 1023"
    unfolding pow2_le_iff by (rule assms(3))
  obtain a b where ab: "quotient_of \<bar>q\<bar> = (a, b)"
    by (cases "quotient_of \<bar>q\<bar>")
  have d: "\<bar>q\<bar> = of_int a / of_int b" "0 < b"
    using quotient_of_div [OF ab] quotient_of_denom_pos [OF ab] by auto
  then have a: "0 \<le> a"
    by (metis abs_ge_zero of_int_0_le_iff of_int_0_less_iff divide_eq_0_iff zero_le_divide_iff less_le_not_le)
  have "\<exists>r. f64_magnitude a b = Fin r \<and> 0 \<le> r \<and> r \<le> 2 powi k"
  proof (cases "a * 2 ^ 1022 < b")
    case True
    let ?m = "round_even (a * 2 ^ 1074) b"
    have "a \<le> b"
      using True a mult_left_mono [of 1 "2 ^ 1022" a] by simp
    then have "0 \<le> ?m \<and> ?m \<le> 2 ^ 1074"
      using round_even_scaled [of a b "2 ^ 1074"] a d(2) by simp
    then have "0 \<le> of_int ?m / (2 ^ 1074 :: rat) \<and> of_int ?m / (2 ^ 1074 :: rat) \<le> 1"
      by simp
    moreover have "f64_magnitude a b = Fin (of_int ?m / 2 ^ 1074)"
      using True unfolding f64_magnitude_def by (simp only: if_True)
    ultimately show ?thesis
      using one order_trans by blast
  next
    case False
    then have "0 < a"
      using a d(2) by (cases "a = 0") auto
    then have le: "f64_quot a b \<le> 2 powi k" "0 \<le> f64_quot a b"
      using d assms a by (auto intro!: f64_quot_pow2(2) f64_quot_nonneg)
    moreover have "(2 :: rat) powi 1023 < 2 powi 1024"
      unfolding pow2_less_iff by simp
    ultimately have "\<not> 2 ^ 1024 \<le> f64_quot a b"
      using big by (simp only: power_int_numeral not_le)
    then show ?thesis
      using False le unfolding f64_magnitude_def Let_def by (simp only: if_False) blast
  qed
  then obtain r where "f64_magnitude a b = Fin r" "0 \<le> r" "r \<le> 2 powi k"
    by blast
  then show ?thesis
    unfolding f64_round_def Let_def ab by (cases "q < 0") simp_all
qed

lemma f64_of_uint_form:
  assumes "2 ^ 53 \<le> n" "n < 2 ^ 64"
  obtains e where "1 \<le> e" "e \<le> 11" "2 ^ (52 + e) \<le> n" "n < 2 ^ (53 + e)"
    "f64_of_uint n = rnd (of_int n / 2 ^ e) * 2 ^ e" "2 ^ 52 \<le> rnd (of_int n / 2 ^ e)" "rnd (of_int n / 2 ^ e) \<le> 2 ^ 53"
proof -
  have pos: "0 < n"
    using assms(1) by (rule less_le_trans [rotated]) simp
  note b = bit_length_bounds [OF pos]
  have "(2 :: int) ^ nat (bit_length n - 1) < 2 ^ 64" "(2 :: int) ^ 53 < 2 ^ nat (bit_length n)"
    using b assms by linarith+
  then have k: "nat (bit_length n - 1) < 64" "53 < nat (bit_length n)"
    by (simp_all only: power_strict_increasing_iff [of "2 :: int"])
  define e where "e = nat (bit_length n - 53)"
  have e: "1 \<le> e" "e \<le> 11" "nat (bit_length n - 1) = 52 + e" "nat (bit_length n) = 53 + e"
    using k unfolding e_def by linarith+
  have f: "f64_of_uint n = rnd (of_int n / 2 ^ e) * 2 ^ e"
    using assms(1) round_even_rnd [of "2 ^ e" n] by (simp add: f64_of_uint_def e_def [symmetric] Let_def)
  have "(of_int (2 ^ (52 + e)) :: rat) \<le> of_int n" "(of_int n :: rat) \<le> of_int (2 ^ (53 + e))"
    unfolding of_int_le_iff using b(2,3) e(3,4) by auto
  then have "2 ^ 52 \<le> rnd (of_int n / 2 ^ e)" "rnd (of_int n / 2 ^ e) \<le> 2 ^ 53"
    by (intro rnd_mono_int; simp add: power_add field_simps)+
  then show thesis
    using that [of e] b(2,3) e f by simp
qed

end
