(* ===== verification/Laplace.thy ===== *)
theory Laplace
  imports F64_Arith
begin

text \<open>
  \<open>src/differential_privacy.rs\<close>: the Laplace sampler, in double arithmetic.  The natural logarithm of the
  platform, whose last digits Rust leaves unspecified, is the parameter \<open>libm_ln\<close>; the eight bytes drawn
  from the system's generator are the word \<open>x\<close>.  The lemmas follow one sample through its roundings:
  the noise is infinite for exactly the draws within 512 of the low end and 1024 of the high end.
\<close>

record laplace_noise =
  noise_epsilon :: f64

text \<open>\<open>LaplaceNoise::new\<close> asserts that epsilon is positive.\<close>

definition laplace_new :: "f64 \<Rightarrow> ('e, laplace_noise) outcome" where
  "laplace_new epsilon =
     (if f64_lt (Fin 0) epsilon then Ok \<lparr>noise_epsilon = epsilon\<rparr> else Panic ''Epsilon must be positive'')"

definition laplace_uniform :: "u64 \<Rightarrow> f64" where
  "laplace_uniform x =
     f64_sub (f64_divide (Fin (of_int (f64_of_uint (uint x)))) (Fin (of_int (f64_of_uint (2 ^ 64 - 1))))) (Fin (1 / 2))"

definition laplace_sample :: "(f64 \<Rightarrow> f64) \<Rightarrow> u64 \<Rightarrow> laplace_noise \<Rightarrow> f64 \<Rightarrow> f64" where
  "laplace_sample libm_ln x noise sensitivity =
     (let scale = f64_divide sensitivity (noise_epsilon noise);
          u = laplace_uniform x
      in f64_mul (f64_mul (f64_neg scale) (f64_signum u)) (libm_ln (f64_sub (Fin 1) (f64_mul (Fin 2) (f64_abs u)))))"

definition add_noise :: "(f64 \<Rightarrow> f64) \<Rightarrow> u64 \<Rightarrow> laplace_noise \<Rightarrow> f64 \<Rightarrow> f64 \<Rightarrow> f64" where
  "add_noise libm_ln x noise v sensitivity = f64_add v (laplace_sample libm_ln x noise sensitivity)"

section \<open>The uniform draw\<close>

lemma u64_max_f64: "f64_of_uint (2 ^ 64 - 1) = 2 ^ 64"
  by code_simp

lemma divide_by_max:
  assumes "0 \<le> n" "n < 2 ^ 64"
  shows "f64_divide (Fin (of_int (f64_of_uint n))) (Fin (of_int (f64_of_uint (2 ^ 64 - 1)))) =
    Fin (of_int (f64_of_uint n) / 2 ^ 64)"
proof -
  have inv: "(2 :: rat) powi (t - 64) = 2 powi t / 2 ^ 64" for t
    by (simp add: power_int_diff)
  have "f64_round (of_int (f64_of_uint n) / 2 ^ 64) = Fin (of_int (f64_of_uint n) / 2 ^ 64)"
  proof (cases "n < 2 ^ 53")
    case True
    then show ?thesis
      using f64_round_exact [of n "- 64"] assms(1) inv [of 0] by (cases "n = 0") simp_all
  next
    case False
    then obtain e where e: "1 \<le> e" "e \<le> 11" "f64_of_uint n = rnd (of_int n / 2 ^ e) * 2 ^ e"
      "2 ^ 52 \<le> rnd (of_int n / 2 ^ e)" "rnd (of_int n / 2 ^ e) \<le> 2 ^ 53"
      using f64_of_uint_form [of n] assms(2) by (metis linorder_not_le)
    have "0 < rnd (of_int n / 2 ^ e)"
      using e(4) by (rule less_le_trans [rotated]) simp
    then show ?thesis
      using f64_round_exact [of "rnd (of_int n / 2 ^ e)" "int e - 64"] e inv [of "int e"] by simp
  qed
  then show ?thesis
    unfolding u64_max_f64 by simp
qed

text \<open>The distance of the draw from the middle, before and after rounding.\<close>

lemma half_rounded:
  assumes "0 < w" "2 powi - 64 \<le> w" "w \<le> 1 / 2"
  obtains r where "f64_round w = Fin r" "2 powi - 64 \<le> r"
    "1 / 2 - w \<le> 1 / 2 ^ 55 \<Longrightarrow> r = 1 / 2" "\<not> 1 / 2 - w \<le> 1 / 2 ^ 55 \<Longrightarrow> r \<le> 1 / 2 - 1 / 2 ^ 54"
proof -
  have p: "(2 :: rat) powi - 1 = 1 / 2" "(2 :: rat) powi - 2 = 1 / 4"
    by (simp_all add: power_int_minus)
  obtain r where r: "f64_round w = Fin r" "2 powi - 64 \<le> r" "r \<le> 2 powi - 1"
    using f64_round_between [of "- 64" w "- 1"] assms(2,3) unfolding p by auto
  consider "w = 1 / 2" | "w < 1 / 4" | "1 / 4 \<le> w" "w < 1 / 2"
    using assms(3) by linarith
  then have "(1 / 2 - w \<le> 1 / 2 ^ 55 \<longrightarrow> r = 1 / 2) \<and> (\<not> 1 / 2 - w \<le> 1 / 2 ^ 55 \<longrightarrow> r \<le> 1 / 2 - 1 / 2 ^ 54)"
  proof cases
    case 1
    then show ?thesis
      using f64_round_between [of "- 1" w "- 1"] r(1) unfolding p by auto
  next
    case 2
    then have "r \<le> 1 / 4"
      using f64_round_between [of "- 64" w "- 2"] assms(2) r(1) unfolding p by auto
    then show ?thesis
      using 2 by auto
  next
    case 3
    have e: "- 2 + 1 = (- 1 :: int)" "52 - - 2 = (54 :: int)" "- 2 - 52 = (- 54 :: int)"
      by simp_all
    have "(2 :: rat) powi - 2 \<le> w" "w < 2 powi (- 2 + 1)"
      unfolding e p using 3 by simp_all
    from f64_round_binade [OF this] have "f64_round w = Fin (of_int (rnd (w * 2 powi 54)) * 2 powi - 54)"
      unfolding e by linarith
    then have "f64_round w = Fin (of_int (rnd (w * 2 ^ 54)) / 2 ^ 54)"
      unfolding power_int_minus power_int_numeral divide_inverse .
    then have m: "r = of_int (rnd (w * 2 ^ 54)) / 2 ^ 54"
      using r(1) by simp
    have le: "rnd (w * 2 ^ 54) \<le> 2 ^ 53"
      using 3(2) by (intro rnd_mono_int(2)) simp
    have ge: "2 ^ 53 \<le> rnd (w * 2 ^ 54) \<longleftrightarrow> 1 / 2 - w \<le> 1 / 2 ^ 55"
      by (subst rnd_ge_even) (auto simp: field_simps)
    show ?thesis
    proof (cases "1 / 2 - w \<le> 1 / 2 ^ 55")
      case True
      then have "rnd (w * 2 ^ 54) = 2 ^ 53"
        using ge le by linarith
      then show ?thesis
        using True m by simp
    next
      case False
      then have "rnd (w * 2 ^ 54) \<le> 2 ^ 53 - 1"
        using ge by linarith
      then have "(of_int (rnd (w * 2 ^ 54)) :: rat) \<le> of_int (2 ^ 53 - 1)"
        by (simp only: of_int_le_iff)
      then show ?thesis
        using False m by (simp add: field_simps)
    qed
  qed
  then show thesis
    using that r by blast
qed

text \<open>The argument of the logarithm: zero exactly at the ends of the range.\<close>

lemma log_argument_end: "f64_sub (Fin 1) (f64_mul (Fin 2) (Fin (1 / 2))) = Fin 0"
proof -
  have "f64_round (1 :: rat) = Fin 1"
    using f64_round_exact [of 1 0] by simp
  then show ?thesis
    by (simp add: f64_sub_def)
qed

lemma log_argument_inner:
  assumes "r = 0 \<or> 2 powi - 64 \<le> r \<and> r \<le> 1 / 2 - 1 / 2 ^ 54"
  obtains v where "f64_sub (Fin 1) (f64_mul (Fin 2) (Fin r)) = Fin v" "2 powi - 53 \<le> v" "v \<le> 1"
proof -
  have one: "(2 :: rat) powi 0 = 1" and p1: "(2 :: rat) powi - 1 = 1 / 2" and p2: "(2 :: rat) powi - 53 = 1 / 2 ^ 53"
    unfolding power_int_minus power_int_numeral divide_inverse by simp_all
  have p3: "(2 :: rat) powi - 63 = 2 * 2 powi - 64"
    using power_int_add_1' [of "2 :: rat" "- 64"] by simp
  note p = p1 p2 p3
  obtain t where t: "f64_mul (Fin 2) (Fin r) = Fin t" "0 \<le> t" "t \<le> 1 - 1 / 2 ^ 53"
  proof (cases "r = 0")
    case True
    then show thesis
      using that [of 0] by simp
  next
    case False
    then have r: "2 powi - 63 \<le> 2 * r" "2 * r \<le> 1 - 1 / 2 ^ 53"
      using assms unfolding p by auto
    obtain t where t: "f64_round (2 * r) = Fin t" "2 powi - 63 \<le> t"
      using f64_round_between [of "- 63" "2 * r" 0] r unfolding one by (auto intro: order_trans)
    have "t \<le> 1 - 1 / 2 ^ 53"
    proof (cases "2 * r < 1 / 2")
      case True
      then have "t \<le> 1 / 2"
        using f64_round_between [of "- 63" "2 * r" "- 1"] r(1) t(1) unfolding p(1) by auto
      then show ?thesis
        by (rule order_trans) simp
    next
      case False
      have e: "- 1 + 1 = (0 :: int)" "52 - - 1 = (53 :: int)" "- 1 - 52 = (- 53 :: int)"
        by simp_all
      have "(2 :: rat) powi - 1 \<le> 2 * r" "2 * r < 2 powi (- 1 + 1)"
        unfolding e p one using False r(2) by simp_all
      from f64_round_binade [OF this] have "f64_round (2 * r) = Fin (of_int (rnd (2 * r * 2 powi 53)) * 2 powi - 53)"
        unfolding e by linarith
      then have m: "t = of_int (rnd (2 * r * 2 ^ 53)) / 2 ^ 53"
        using t(1) unfolding p(2) power_int_numeral by simp
      have "rnd (2 * r * 2 ^ 53) \<le> 2 ^ 53 - 1"
        using r(2) by (intro rnd_mono_int(2)) (simp add: field_simps)
      then have "(of_int (rnd (2 * r * 2 ^ 53)) :: rat) \<le> of_int (2 ^ 53 - 1)"
        by (simp only: of_int_le_iff)
      then show ?thesis
        using m by (simp add: field_simps)
    qed
    moreover have "0 \<le> t"
      using t(2) zero_le_power_int [of "2 :: rat" "- 63"] by (rule order_trans [rotated]) simp
    ultimately show thesis
      using that [of t] t(1) by simp
  qed
  obtain v where "f64_round (1 - t) = Fin v" "2 powi - 53 \<le> v" "v \<le> 2 powi 0"
    using f64_round_between [of "- 53" "1 - t" 0] t(2,3) unfolding one p by auto
  then show thesis
    using that [of v] t(1) unfolding one by (simp add: f64_sub_def)
qed

text \<open>Which words are rounded to within 512 of an end of the range.\<close>

lemma draw_ends:
  fixes x :: u64
  defines "n \<equiv> f64_of_uint (uint x)"
  shows "0 \<le> n" "n \<le> 2 ^ 64" "n \<le> 512 \<longleftrightarrow> uint x \<le> 512" "2 ^ 64 - n \<le> 512 \<longleftrightarrow> 2 ^ 64 - 1024 \<le> uint x"
proof -
  have x: "0 \<le> uint x" "uint x < 2 ^ 64"
    using unsigned_less [of x, where ?'a = int] by simp_all
  have "0 \<le> n \<and> n \<le> 2 ^ 64 \<and> (n \<le> 512 \<longleftrightarrow> uint x \<le> 512) \<and> (2 ^ 64 - n \<le> 512 \<longleftrightarrow> 2 ^ 64 - 1024 \<le> uint x)"
  proof (cases "uint x < 2 ^ 53")
    case True
    then have "n = uint x"
      by (simp add: n_def)
    then show ?thesis
      using x True by simp
  next
    case False
    then obtain e where e: "1 \<le> e" "e \<le> 11" "2 ^ (52 + e) \<le> uint x" "uint x < 2 ^ (53 + e)"
      "n = rnd (of_int (uint x) / 2 ^ e) * 2 ^ e"
      "2 ^ 52 \<le> rnd (of_int (uint x) / 2 ^ e)" "rnd (of_int (uint x) / 2 ^ e) \<le> 2 ^ 53"
      using f64_of_uint_form [of "uint x"] x(2) unfolding n_def by (metis linorder_not_le)
    let ?m = "rnd (of_int (uint x) / 2 ^ e)"
    have "(2 :: int) ^ 1 \<le> 2 ^ e"
      using e(1) by (intro power_increasing) simp_all
    then have lo: "2 ^ 53 \<le> n"
      unfolding e(5) using e(6) mult_mono [of "2 ^ 52" ?m 2 "2 ^ e"] by simp
    have hi: "n \<le> 2 ^ (53 + e)"
      unfolding e(5) power_add using e(7) by (intro mult_right_mono) simp_all
    show ?thesis
    proof (cases "e = 11")
      case True
      have "2 ^ 64 - n \<le> 512 \<longleftrightarrow> 2 ^ 53 \<le> ?m"
        using e(7) unfolding e(5) True by simp linarith
      also have "\<dots> \<longleftrightarrow> 2 * of_int (2 ^ 53) - 1 \<le> 2 * (of_int (uint x) / 2 ^ e :: rat)"
        by (rule rnd_ge_even) simp
      also have "\<dots> \<longleftrightarrow> (of_int (2 ^ 64 - 1024) :: rat) \<le> of_int (uint x)"
        unfolding True by simp
      finally have "2 ^ 64 - n \<le> 512 \<longleftrightarrow> 2 ^ 64 - 1024 \<le> uint x"
        unfolding of_int_le_iff .
      then show ?thesis
        using lo hi False e(3) unfolding True by simp
    next
      case False
      then have "(2 :: int) ^ (53 + e) \<le> 2 ^ 63"
        using e(2) by (intro power_increasing) simp_all
      then show ?thesis
        using lo hi \<open>\<not> uint x < 2 ^ 53\<close> e(4) by (intro conjI iffI; simp; linarith?)
    qed
  qed
  then show "0 \<le> n" "n \<le> 2 ^ 64" "n \<le> 512 \<longleftrightarrow> uint x \<le> 512" "2 ^ 64 - n \<le> 512 \<longleftrightarrow> 2 ^ 64 - 1024 \<le> uint x"
    by blast+
qed

lemma uniform_cases:
  fixes x :: u64
  shows "uint x \<le> 512 \<and> laplace_uniform x = Fin (- (1 / 2)) \<or>
    2 ^ 64 - 1024 \<le> uint x \<and> laplace_uniform x = Fin (1 / 2) \<or>
    512 < uint x \<and> uint x < 2 ^ 64 - 1024 \<and>
      (\<exists>r. laplace_uniform x = Fin r \<and> (\<bar>r\<bar> = 0 \<or> 2 powi - 64 \<le> \<bar>r\<bar> \<and> \<bar>r\<bar> \<le> 1 / 2 - 1 / 2 ^ 54))"
proof -
  define n where "n = f64_of_uint (uint x)"
  note n = draw_ends [of x, folded n_def]
  define w :: rat where "w = \<bar>of_int n / 2 ^ 64 - 1 / 2\<bar>"
  have x: "0 \<le> uint x" "uint x < 2 ^ 64"
    using unsigned_less [of x, where ?'a = int] by simp_all
  have u: "laplace_uniform x = f64_round (of_int n / 2 ^ 64 - 1 / 2)"
    using divide_by_max [OF x] by (simp add: laplace_uniform_def f64_sub_def n_def)
  show ?thesis
  proof (cases "n = 2 ^ 63")
    case True
    then have "\<not> uint x \<le> 512" "\<not> 2 ^ 64 - 1024 \<le> uint x"
      using n(3,4) by auto
    then show ?thesis
      using u True by simp
  next
    case False
    have sign: "of_int n / 2 ^ 64 - 1 / 2 = (if n < 2 ^ 63 then - w else w)"
    proof -
      have "(of_int n :: rat) < of_int (2 ^ 63) \<longleftrightarrow> n < 2 ^ 63"
        by (simp only: of_int_less_iff)
      then show ?thesis
        by (auto simp: w_def field_simps)
    qed
    have "1 \<le> \<bar>n - 2 ^ 63\<bar>"
      using False by linarith
    then have far: "(of_int 1 :: rat) \<le> of_int \<bar>n - 2 ^ 63\<bar>"
      by (simp only: of_int_le_iff)
    have "of_int n / 2 ^ 64 - 1 / 2 = (of_int (n - 2 ^ 63) :: rat) / 2 ^ 64"
      by (simp add: field_simps)
    then have wq: "w = of_int \<bar>n - 2 ^ 63\<bar> / 2 ^ 64"
      unfolding w_def by (simp only: abs_divide of_int_abs) simp
    have low: "0 < w" "2 powi - 64 \<le> w"
      unfolding wq power_int_minus power_int_numeral inverse_eq_divide
      using far by (auto intro!: divide_pos_pos divide_right_mono)
    have "\<bar>n - 2 ^ 63\<bar> \<le> 2 ^ 63"
      using n(1,2) by (simp add: abs_le_iff)
    then have "(of_int \<bar>n - 2 ^ 63\<bar> :: rat) \<le> of_int (2 ^ 63)"
      by (simp only: of_int_le_iff)
    then have high: "w \<le> 1 / 2"
      unfolding wq by (simp add: field_simps)
    have ends: "1 / 2 - w \<le> 1 / 2 ^ 55 \<longleftrightarrow> n \<le> 512 \<or> 2 ^ 64 - n \<le> 512"
    proof -
      have "1 / 2 - w \<le> 1 / 2 ^ 55 \<longleftrightarrow> of_int (2 ^ 63 - 512) \<le> (of_int \<bar>n - 2 ^ 63\<bar> :: rat)"
        unfolding wq by (simp add: field_simps)
      also have "\<dots> \<longleftrightarrow> n \<le> 512 \<or> 2 ^ 64 - n \<le> 512"
        unfolding of_int_le_iff by (simp add: abs_if)
      finally show ?thesis .
    qed
    obtain r where r: "f64_round w = Fin r" "2 powi - 64 \<le> r"
      "1 / 2 - w \<le> 1 / 2 ^ 55 \<Longrightarrow> r = 1 / 2" "\<not> 1 / 2 - w \<le> 1 / 2 ^ 55 \<Longrightarrow> r \<le> 1 / 2 - 1 / 2 ^ 54"
      using half_rounded low high by blast
    have u': "laplace_uniform x = Fin (if n < 2 ^ 63 then - r else r)"
      using f64_round_neg [OF low(1)] r(1) unfolding u sign by simp
    have pos: "0 < r"
      using r(2) zero_less_power_int [of "2 :: rat" "- 64"] by linarith
    consider "n \<le> 512" | "2 ^ 64 - n \<le> 512" | "\<not> n \<le> 512" "\<not> 2 ^ 64 - n \<le> 512"
      by blast
    then show ?thesis
    proof cases
      case 1
      then show ?thesis
        using n(3) u' r(3) ends by simp
    next
      case 2
      then show ?thesis
        using n(4) u' r(3) ends by simp
    next
      case 3
      then show ?thesis
        using n(3,4) u' r(2,4) ends pos by (simp add: abs_if)
    qed
  qed
qed

section \<open>The sample\<close>

text \<open>What the sampler relies on of the platform's logarithm: minus infinity at zero, and on the doubles
  above zero and up to one a value between \<open>- 1000\<close> and zero (the least is about \<open>- 745\<close>).\<close>

definition lawful_ln :: "(f64 \<Rightarrow> f64) \<Rightarrow> bool" where
  "lawful_ln libm_ln \<longleftrightarrow> libm_ln (Fin 0) = NegInf \<and>
     (\<forall>v. 2 powi - 1074 \<le> v \<longrightarrow> v \<le> 1 \<longrightarrow> (\<exists>y. libm_ln (Fin v) = Fin y \<and> - 1000 \<le> y \<and> y \<le> 0))"

lemma f64_mul_sign:
  assumes "2 powi - 400 \<le> c" "c \<le> 2 powi 400"
  obtains d where "f64_mul (Fin (- c)) (Fin 1) = Fin (- d)" "f64_mul (Fin (- c)) (Fin (- 1)) = Fin d"
    "0 < d" "d \<le> 2 powi 400"
proof -
  have c: "0 < c"
    using assms(1) zero_less_power_int [of "2 :: rat" "- 400"] by linarith
  obtain d where d: "f64_round c = Fin d" "2 powi - 400 \<le> d" "d \<le> 2 powi 400"
    using f64_round_between [OF assms] by auto
  have "0 < d"
    using d(2) zero_less_power_int [of "2 :: rat" "- 400"] by linarith
  then show thesis
    using that [of d] d f64_round_neg [OF c] by simp
qed

lemma sample_cases:
  assumes "lawful_ln libm_ln"
    and s: "2 powi - 200 \<le> s" "s \<le> 2 powi 200" and e: "2 powi - 200 \<le> e" "e \<le> 2 powi 200"
  shows "uint x \<le> 512 \<and> laplace_sample libm_ln x \<lparr>noise_epsilon = Fin e\<rparr> (Fin s) = NegInf \<or>
    2 ^ 64 - 1024 \<le> uint x \<and> laplace_sample libm_ln x \<lparr>noise_epsilon = Fin e\<rparr> (Fin s) = PosInf \<or>
    512 < uint x \<and> uint x < 2 ^ 64 - 1024 \<and>
      (\<exists>r. laplace_sample libm_ln x \<lparr>noise_epsilon = Fin e\<rparr> (Fin s) = Fin r \<and> \<bar>r\<bar> \<le> 2 powi 410)"
proof -
  have p: "(0 :: rat) < 2 powi - 200"
    by simp
  then have pos: "0 < s" "0 < e"
    using s(1) e(1) by linarith+
  have a: "2 powi - 400 \<le> s / e"
  proof -
    have "(2 :: rat) powi - 400 * e \<le> 2 powi - 400 * 2 powi 200"
      using e(2) by (intro mult_left_mono) simp_all
    also have "\<dots> = 2 powi - 200"
      unfolding power_int_add [of "2 :: rat" "- 400" 200, symmetric, simplified] by simp
    finally show ?thesis
      using s(1) pos(2) by (simp only: pos_le_divide_eq)
  qed
  have b: "s / e \<le> 2 powi 400"
  proof -
    have "(2 :: rat) powi 200 = 2 powi 400 * 2 powi - 200"
      unfolding power_int_add [of "2 :: rat" 400 "- 200", symmetric, simplified] by simp
    also have "\<dots> \<le> 2 powi 400 * e"
      using e(1) by (intro mult_left_mono) simp_all
    finally show ?thesis
      using s(2) pos(2) by (simp only: pos_divide_le_eq)
  qed
  obtain c where c: "f64_divide (Fin s) (Fin e) = Fin c" "2 powi - 400 \<le> c" "c \<le> 2 powi 400"
    using f64_round_between [OF a b] pos by auto
  obtain d where d: "f64_mul (Fin (- c)) (Fin 1) = Fin (- d)" "f64_mul (Fin (- c)) (Fin (- 1)) = Fin d"
    "0 < d" "d \<le> 2 powi 400"
    using f64_mul_sign [OF c(2,3)] .
  have zero: "libm_ln (Fin 0) = NegInf"
    using assms(1) by (simp add: lawful_ln_def)
  consider "uint x \<le> 512" "laplace_uniform x = Fin (- (1 / 2))"
    | "2 ^ 64 - 1024 \<le> uint x" "laplace_uniform x = Fin (1 / 2)"
    | r where "512 < uint x" "uint x < 2 ^ 64 - 1024" "laplace_uniform x = Fin r"
        "\<bar>r\<bar> = 0 \<or> 2 powi - 64 \<le> \<bar>r\<bar> \<and> \<bar>r\<bar> \<le> 1 / 2 - 1 / 2 ^ 54"
    using uniform_cases [of x] by blast
  then show ?thesis
  proof cases
    case 1
    then show ?thesis
      using c(1) d log_argument_end zero
      by (simp add: laplace_sample_def Let_def f64_inf_def del: f64_mul.simps(1) f64_divide.simps(1))
  next
    case 2
    then show ?thesis
      using c(1) d log_argument_end zero
      by (simp add: laplace_sample_def Let_def f64_inf_def del: f64_mul.simps(1) f64_divide.simps(1))
  next
    case 3
    obtain v where v: "f64_sub (Fin 1) (f64_mul (Fin 2) (Fin \<bar>r\<bar>)) = Fin v" "2 powi - 53 \<le> v" "v \<le> 1"
      using log_argument_inner 3(4) by blast
    have "(2 :: rat) powi - 1074 \<le> 2 powi - 53"
      unfolding pow2_le_iff by simp
    then have "2 powi - 1074 \<le> v"
      using v(2) by (rule order_trans)
    then obtain y where y: "libm_ln (Fin v) = Fin y" "- 1000 \<le> y" "y \<le> 0"
      using assms(1) v(3) unfolding lawful_ln_def by blast
    then have y': "\<bar>y\<bar> \<le> 2 powi 10"
      by (simp add: abs_le_iff)
    have "d * \<bar>y\<bar> \<le> 2 powi 400 * 2 powi 10"
      using d(3,4) y' by (intro mult_mono) auto
    then have prod: "\<bar>d * y\<bar> \<le> 2 powi 410" "\<bar>- d * y\<bar> \<le> 2 powi 410"
      unfolding power_int_add [of "2 :: rat" 400 10, symmetric, simplified] using d(3) by (simp_all add: abs_mult)
    obtain g where g: "f64_mul (Fin (- c)) (f64_signum (Fin r)) = Fin g" "g = d \<or> g = - d"
      using d(1,2) by (cases "r < 0") (auto simp del: f64_mul.simps(1))
    have "\<exists>q. f64_round (g * y) = Fin q \<and> \<bar>q\<bar> \<le> 2 powi 410"
    proof (rule f64_round_bounded)
      show "\<bar>g * y\<bar> \<le> 2 powi 410"
        using g(2) prod by (elim disjE; simp only:)
    qed simp_all
    then show ?thesis
      using 3 c(1) g(1) v(1) y(1) unfolding laplace_sample_def Let_def
      by (simp del: f64_signum.simps f64_divide.simps(1))
  qed
qed

end
