(* ===== verification/Diff_Privacy.thy ===== *)
theory Diff_Privacy
  imports Laplace
begin

unbundle bit_operations_syntax

text \<open>
  \<open>src/differential_privacy.rs\<close>: the collector and its budget, the constant-time comparison and the random
  delay.  The timings of the loop in nanoseconds, the draws and the bytes of the system's generator are
  arguments; SHA-256 and the logarithm are parameters.
\<close>

record dp_collector =
  dp_noise :: laplace_noise
  dp_sample_count :: u64
  dp_total_samples :: u64

definition dp_new :: "f64 \<Rightarrow> u64 \<Rightarrow> ('e, dp_collector) outcome" where
  "dp_new epsilon sample_count =
     bind_outcome (laplace_new epsilon) (\<lambda>n. Ok \<lparr>dp_noise = n, dp_sample_count = sample_count, dp_total_samples = 0\<rparr>)"

text \<open>One noisy timing: nanoseconds as a double, noise of sensitivity 1000.\<close>

definition noisy_timing :: "(f64 \<Rightarrow> f64) \<Rightarrow> laplace_noise \<Rightarrow> u64 \<Rightarrow> nat \<Rightarrow> f64" where
  "noisy_timing libm_ln noise x nanos =
     (let true_timing = Fin (of_int (f64_of_uint (int nanos))) in add_noise libm_ln x noise true_timing (Fin 1000))"

definition dp_collect ::
    "(f64 \<Rightarrow> f64) \<Rightarrow> (bytes \<Rightarrow> bytes) \<Rightarrow> (nat \<Rightarrow> nat) \<Rightarrow> (nat \<Rightarrow> u64) \<Rightarrow> bytes \<Rightarrow> dp_collector \<Rightarrow> bytes \<times> dp_collector" where
  "dp_collect libm_ln sha nanos draw os_entropy c =
     (let entropy_input =
            concat (map (\<lambda>i. to_le_bytes (f64_to_i64 (noisy_timing libm_ln (dp_noise c) (draw i) (nanos i))))
              [0..<unat (dp_sample_count c)]) @ os_entropy
      in (sha entropy_input, c\<lparr>dp_total_samples := dp_total_samples c + dp_sample_count c\<rparr>))"

definition privacy_budget :: "dp_collector \<Rightarrow> f64 \<times> u64" where
  "privacy_budget c = (noise_epsilon (dp_noise c), dp_total_samples c)"

text \<open>The loop of the comparison, over the zipped bytes.\<close>

fun compare_loop :: "(u8 \<times> u8) list \<Rightarrow> u8 \<Rightarrow> u8" where
  "compare_loop [] r = r"
| "compare_loop ((x, y) # rest) r = compare_loop rest (r OR (x XOR y))"

definition constant_time_compare :: "bytes \<Rightarrow> bytes \<Rightarrow> bool" where
  "constant_time_compare a b = (if length a \<noteq> length b then False else compare_loop (zip a b) 0 = 0)"

text \<open>The delay in microseconds drawn from eight random bytes: \<open>%\<close> panics on zero, which the wrapping
  \<open>max_us - min_us + 1\<close> is for the full range and for a range of length minus one.\<close>

definition random_delay :: "u64 \<Rightarrow> u64 \<Rightarrow> u64 \<Rightarrow> (string, u64) outcome" where
  "random_delay draw min_us max_us =
     (if max_us - min_us + 1 = 0 then Panic ''attempt to calculate the remainder with a divisor of zero''
      else Ok (draw mod (max_us - min_us + 1) + min_us))"

definition secure_compare_and_delay :: "u64 \<Rightarrow> bytes \<Rightarrow> bytes \<Rightarrow> (string, bool \<times> u64) outcome" where
  "secure_compare_and_delay draw a b =
     (let r = constant_time_compare a b in bind_outcome (random_delay draw 10 100) (\<lambda>d. Ok (r, d)))"

section \<open>The comparison decides equality\<close>

lemma or_eq_0: "(a :: u8) OR b = 0 \<longleftrightarrow> a = 0 \<and> b = 0"
  by (auto simp: bit_eq_iff bit_simps)

lemma xor_eq_0: "(a :: u8) XOR b = 0 \<longleftrightarrow> a = b"
  by (auto simp: bit_eq_iff bit_simps)

lemma compare_loop_0: "compare_loop ps r = 0 \<longleftrightarrow> r = 0 \<and> list_all (\<lambda>(x, y). x = y) ps"
  by (induction ps r rule: compare_loop.induct) (auto simp: or_eq_0 xor_eq_0)

lemma constant_time_compare_eq: "constant_time_compare a b = (a = b)"
proof -
  have "list_all (\<lambda>(x, y). x = y) (zip a b) \<longleftrightarrow> a = b" if "length a = length b"
    using that by (induction a b rule: list_induct2) auto
  then show ?thesis
    by (auto simp: constant_time_compare_def compare_loop_0)
qed

lemma random_delay_bounds:
  assumes "min_us \<le> max_us" "max_us - min_us + 1 \<noteq> 0"
  shows "\<exists>d. random_delay draw min_us max_us = Ok d \<and> min_us \<le> d \<and> d \<le> max_us"
proof -
  let ?m = "draw mod (max_us - min_us + 1)"
  have s: "unat (max_us - min_us) = unat max_us - unat min_us"
    using assms(1) by (rule unat_sub)
  have "unat (max_us - min_us + 1) = unat (max_us - min_us) + 1"
    using assms(2) unatSuc [of "max_us - min_us"] by (simp add: add.commute)
  then have "unat ?m \<le> unat max_us - unat min_us"
    using s mod_less_divisor [of "unat (max_us - min_us + 1)" "unat draw"] by (simp add: unat_mod)
  moreover have "unat max_us < 2 ^ 64" "unat min_us \<le> unat max_us"
    using unsigned_less [of max_us, where ?'a = nat] assms(1) by (simp_all add: word_le_nat_alt)
  ultimately have "unat (?m + min_us) = unat ?m + unat min_us"
    by (simp add: unat_word_ariths)
  then show ?thesis
    using assms(2) \<open>unat ?m \<le> unat max_us - unat min_us\<close> \<open>unat min_us \<le> unat max_us\<close>
    by (simp add: random_delay_def word_le_nat_alt)
qed

text \<open>
  The constant-time comparison decides equality of the two byte strings, whatever the draw, and
  the injected delay never panics and lies between 10 and 100 microseconds.
\<close>

theorem secure_compare_decides_equality:
  "\<exists>d. secure_compare_and_delay draw a b = Ok (a = b, d) \<and> 10 \<le> d \<and> d \<le> 100"
proof -
  obtain d where "random_delay draw 10 100 = Ok d" "10 \<le> d" "d \<le> 100"
    using random_delay_bounds [of 10 100 draw] by auto
  then show ?thesis
    by (simp add: secure_compare_and_delay_def constant_time_compare_eq)
qed

section \<open>The noise\<close>

lemma f64_of_uint_le: "0 \<le> n \<Longrightarrow> 0 \<le> f64_of_uint n \<and> f64_of_uint n \<le> 3 * n"
proof (cases "n < 2 ^ 53")
  case False
  assume n: "0 \<le> n"
  define e where "e = nat (bit_length n - 53)"
  have "0 < n"
    using False by simp
  have "(2 :: int) ^ e \<le> 2 ^ nat (bit_length n - 1)"
    by (intro power_increasing) (simp_all add: e_def)
  then have "(2 :: int) ^ e \<le> n"
    using bit_length_bounds(2) [OF \<open>0 < n\<close>] by (rule order_trans)
  moreover have "n div 2 ^ e * 2 ^ e \<le> n"
    by (metis div_mult_mod_eq le_add_same_cancel1 pos_mod_sign zero_less_numeral zero_less_power)
  moreover have "round_even n (2 ^ e) * 2 ^ e \<le> (n div 2 ^ e + 1) * 2 ^ e"
    using round_even_bounds(2) [of "2 ^ e" n] by (intro mult_right_mono) simp_all
  ultimately have "round_even n (2 ^ e) * 2 ^ e \<le> 3 * n"
    using n by (simp add: distrib_right)
  then show ?thesis
    using False n round_even_nonneg [of n "2 ^ e"] by (simp add: f64_of_uint_def e_def Let_def)
qed simp

text \<open>
  C13. In the collector, with an epsilon between two to the minus 200 and two to the 200 and any timing a
  duration can have, the noise is minus infinity for exactly the 513 smallest draws, plus infinity for
  exactly the 1024 largest, and finite for every other.
\<close>

theorem laplace_noise_infinite_iff:
  assumes "lawful_ln libm_ln" "2 powi - 200 \<le> e" "e \<le> 2 powi 200" "nanos < 2 ^ 128"
  shows "(noisy_timing libm_ln \<lparr>noise_epsilon = Fin e\<rparr> x nanos = NegInf \<longleftrightarrow> uint x \<le> 512) \<and>
    (noisy_timing libm_ln \<lparr>noise_epsilon = Fin e\<rparr> x nanos = PosInf \<longleftrightarrow> 2 ^ 64 - 1024 \<le> uint x) \<and>
    noisy_timing libm_ln \<lparr>noise_epsilon = Fin e\<rparr> x nanos \<noteq> NaN"
proof -
  let ?t = "of_int (f64_of_uint (int nanos)) :: rat"
  have s: "2 powi - 200 \<le> (1000 :: rat)" "(1000 :: rat) \<le> 2 powi 200"
    by simp_all
  have "f64_of_uint (int nanos) \<le> 2 ^ 130" "0 \<le> f64_of_uint (int nanos)"
    using f64_of_uint_le [of "int nanos"] assms(4) by simp_all
  then have t: "\<bar>?t\<bar> \<le> 2 powi 410"
    by simp
  consider "uint x \<le> 512" "laplace_sample libm_ln x \<lparr>noise_epsilon = Fin e\<rparr> (Fin 1000) = NegInf"
    | "2 ^ 64 - 1024 \<le> uint x" "laplace_sample libm_ln x \<lparr>noise_epsilon = Fin e\<rparr> (Fin 1000) = PosInf"
    | r where "512 < uint x" "uint x < 2 ^ 64 - 1024"
        "laplace_sample libm_ln x \<lparr>noise_epsilon = Fin e\<rparr> (Fin 1000) = Fin r" "\<bar>r\<bar> \<le> 2 powi 410"
    using sample_cases [OF assms(1) s assms(2,3), of x] by blast
  then show ?thesis
  proof cases
    case 3
    have "\<bar>?t + r\<bar> \<le> 2 powi 411"
      using t 3(4) by (simp add: abs_le_iff)
    then obtain q where "f64_round (?t + r) = Fin q"
      using f64_round_bounded [of "?t + r" 411] by auto
    then show ?thesis
      using 3 by (simp add: noisy_timing_def add_noise_def)
  qed (simp_all add: noisy_timing_def add_noise_def)
qed

definition demo_ln :: "f64 \<Rightarrow> f64" where
  "demo_ln x = (case x of Fin r \<Rightarrow> if r \<le> 0 then NegInf else if r \<le> 1 / 2 then Fin (- 1) else Fin 0 | _ \<Rightarrow> x)"

lemma lawful_demo_ln: "lawful_ln demo_ln"
proof -
  have "\<not> v \<le> (0 :: rat)" if "2 powi - 1074 \<le> v" for v
    using that zero_less_power_int [of "2 :: rat" "- 1074"] by linarith
  then show ?thesis
    by (auto simp: lawful_ln_def demo_ln_def)
qed

theorem laplace_noise_infinite_iff_witness:
  "noisy_timing demo_ln \<lparr>noise_epsilon = Fin 1\<rparr> 512 850 = NegInf \<and>
   noisy_timing demo_ln \<lparr>noise_epsilon = Fin 1\<rparr> 513 850 \<noteq> NegInf"
  using laplace_noise_infinite_iff [OF lawful_demo_ln, of 1 850 512]
    laplace_noise_infinite_iff [OF lawful_demo_ln, of 1 850 513] by simp

text \<open>An infinite noise is cast to the least or greatest \<open>i64\<close>, whatever the timing was.\<close>

lemma infinite_noise_cast:
  "f64_to_i64 NegInf = 0x8000000000000000" "f64_to_i64 PosInf = 0x7FFFFFFFFFFFFFFF"
  by simp_all

end
