(* ===== verification/Mcp_Book.thy ===== *)
theory Mcp_Book
  imports Mcp_Gateway
begin

text \<open>
  An abstract machine for the gateway of \<open>src/mcp_gateway.rs\<close>: a book of key names with a step relation on
  requests and replies, in which keys, nonces and ciphertexts do not occur.  The gateway refines it: every
  session that does not panic is a run of the machine.
\<close>

section \<open>The abstract machine\<close>

datatype book_reply =
  Created string | Sealed | Opened | Names "string list" | Removed string | Cleared | About | Failed int

fun needed :: "string \<Rightarrow> string list" where
  "needed m =
     (if m \<in> {''generate_key'', ''delete_key''} then [''key_id'']
      else if m = ''encrypt'' then [''key_id'', ''data'']
      else if m = ''decrypt'' then [''key_id'', ''ciphertext''] else [])"

definition known_methods :: "string set" where
  "known_methods = {''generate_key'', ''encrypt'', ''decrypt'', ''list_keys'', ''delete_key'', ''clear_cache'', ''info''}"

inductive book_step ::
    "('j \<Rightarrow> string \<Rightarrow> string option) \<Rightarrow> 'j mcp_request \<Rightarrow> string list \<Rightarrow> book_reply \<Rightarrow> string list \<Rightarrow> bool"
  for get_str :: "'j \<Rightarrow> string \<Rightarrow> string option" and req :: "'j mcp_request" where
  bk_unknown: "rq_method req \<notin> known_methods \<Longrightarrow> book_step get_str req b (Failed (- 32601)) b"
| bk_missing: "f \<in> set (needed (rq_method req)) \<Longrightarrow> get_str (rq_params req) f = None \<Longrightarrow>
    book_step get_str req b (Failed (- 32602)) b"
| bk_create: "rq_method req = ''generate_key'' \<Longrightarrow> get_str (rq_params req) ''key_id'' = Some k \<Longrightarrow>
    book_step get_str req b (Created k) (b @ [k])"
| bk_seal: "rq_method req = ''encrypt'' \<Longrightarrow> get_str (rq_params req) ''key_id'' = Some k \<Longrightarrow>
    book_step get_str req b Sealed (if k \<in> set b then b else b @ [k])"
| bk_not_utf8: "rq_method req = ''encrypt'' \<Longrightarrow> get_str (rq_params req) ''key_id'' = Some k \<Longrightarrow>
    from_utf8 (as_bytes k) = None \<Longrightarrow> book_step get_str req b (Failed (- 32603)) b"
| bk_open: "rq_method req = ''decrypt'' \<Longrightarrow> get_str (rq_params req) ''key_id'' = Some k \<Longrightarrow> k \<in> set b \<Longrightarrow>
    book_step get_str req b Opened b"
| bk_refuse: "rq_method req = ''decrypt'' \<Longrightarrow> get_str (rq_params req) ''key_id'' = Some k \<Longrightarrow>
    book_step get_str req b (Failed (- 32603)) b"
| bk_names: "rq_method req = ''list_keys'' \<Longrightarrow> book_step get_str req b (Names b) b"
| bk_remove: "rq_method req = ''delete_key'' \<Longrightarrow> get_str (rq_params req) ''key_id'' = Some k \<Longrightarrow>
    book_step get_str req b (Removed k) (filter (\<lambda>i. i \<noteq> k) b)"
| bk_clear: "rq_method req = ''clear_cache'' \<Longrightarrow> book_step get_str req b Cleared b"
| bk_about: "rq_method req = ''info'' \<Longrightarrow> book_step get_str req b About b"

inductive_cases book_stepE: "book_step get_str req b r b'"

inductive book_run ::
    "('j \<Rightarrow> string \<Rightarrow> string option) \<Rightarrow> 'j mcp_request list \<Rightarrow> string list \<Rightarrow> book_reply list \<Rightarrow> string list \<Rightarrow> bool"
  for get_str :: "'j \<Rightarrow> string \<Rightarrow> string option" where
  run_nil: "book_run get_str [] b [] b"
| run_cons: "book_step get_str req b r b1 \<Longrightarrow> book_run get_str reqs b1 rs b2 \<Longrightarrow>
    book_run get_str (req # reqs) b (r # rs) b2"

inductive_cases book_run_NilE: "book_run get_str [] b rs b'"
inductive_cases book_run_ConsE: "book_run get_str (req # reqs) b rs b'"

section \<open>A session of the gateway\<close>

text \<open>The requests in order, each with what the crates supply to it, up to the first that panics.\<close>

fun mcp_session ::
  "primitives \<Rightarrow> ('j \<Rightarrow> string \<Rightarrow> string option) \<Rightarrow> (call_env \<times> 'j mcp_request) list \<Rightarrow> mcp_server
     \<Rightarrow> (unit, 'j mcp_response list \<times> mcp_server) outcome" where
  "mcp_session P get_str [] s = Ok ([], s)"
| "mcp_session P get_str ((C, req) # rest) s =
     (case mcp_handle P C get_str req s of
        (Ok resp, s1) \<Rightarrow> map_ok (\<lambda>(resps, s2). (resp # resps, s2)) (mcp_session P get_str rest s1)
      | (Err e, s1) \<Rightarrow> Err e
      | (Panic m, s1) \<Rightarrow> Panic m)"

definition names :: "mcp_server \<Rightarrow> string list" where
  "names s = map fst (va_keys (sv_vault s))"

fun value_reply :: "mcp_value \<Rightarrow> book_reply" where
  "value_reply (GeneratedKey k _) = Created k"
| "value_reply (EncryptedData _ _ _) = Sealed"
| "value_reply (DecryptedText _) = Opened"
| "value_reply (KeyList ks) = Names ks"
| "value_reply (DeletedKey k) = Removed k"
| "value_reply CacheCleared = Cleared"
| "value_reply (ServerInfo _ _ _) = About"

definition reply_of :: "'j mcp_response \<Rightarrow> book_reply option" where
  "reply_of resp =
     (case rp_error resp of Some e \<Rightarrow> Some (Failed (er_code e)) | None \<Rightarrow> map_option value_reply (rp_result resp))"

section \<open>Simulation\<close>

definition outcome_reply :: "('j mcp_error, mcp_value) outcome \<Rightarrow> book_reply option" where
  "outcome_reply r = (case r of Ok val \<Rightarrow> Some (value_reply val) | Err e \<Rightarrow> Some (Failed (er_code e)) | Panic m \<Rightarrow> None)"

lemma outcome_reply_Panic [simp]: "outcome_reply (Panic m) = None"
  by (simp add: outcome_reply_def)

text \<open>What a handler's answer does to the names, one lemma per handler.\<close>

definition simulates :: "('j \<Rightarrow> string \<Rightarrow> string option) \<Rightarrow> 'j mcp_request \<Rightarrow> vault
     \<Rightarrow> ('j mcp_error, mcp_value) outcome \<times> vault \<Rightarrow> bool" where
  "simulates get_str req v res \<longleftrightarrow>
     (\<forall>r. outcome_reply (fst res) = Some r \<longrightarrow> book_step get_str req (map fst (va_keys v)) r (map fst (va_keys (snd res))))"

lemmas gateway_errors = method_not_found_def invalid_params_def internal_error_def

lemma simulates_required:
  assumes "f \<in> set (needed (rq_method req))"
    and "\<And>x. get_str (rq_params req) f = Some x \<Longrightarrow> simulates get_str req v (body x)"
  shows "simulates get_str req v (required get_str req f body v)"
  using assms(2) bk_missing [where get_str = get_str, OF assms(1)]
  by (cases "get_str (rq_params req) f") (simp_all add: required_def simulates_def outcome_reply_def gateway_errors)

lemma key_known: "key_row_of keys k = None \<longleftrightarrow> k \<notin> set (map fst keys)"
  by (simp add: key_row_of_def map_of_eq_None_iff)

lemma simulates_generate:
  assumes "rq_method req = ''generate_key''"
  shows "simulates get_str req v (handle_generate_key P C get_str req v)"
  unfolding handle_generate_key_def
proof (rule simulates_required)
  fix k
  assume k: "get_str (rq_params req) ''key_id'' = Some k"
  show "simulates get_str req v
    (case vault_generate_keypair P (ca_seed C) k v of (r, v1) \<Rightarrow> (map_ok (GeneratedKey k) (map_err internal_error r), v1))"
    using bk_create [where get_str = get_str, OF assms k] 
    by (simp add: simulates_def outcome_reply_def vault_generate_keypair_def keygen_def vault_lock_def)
qed (simp add: assms)

lemma encryption_reply:
  "outcome_reply (map_ok (\<lambda>ct. EncryptedData (f ct) (g ct) (h ct)) (map_err e (hybrid_encrypt P n t x sk))) = Some r
    \<Longrightarrow> r = Sealed"
  by (auto simp: hybrid_encrypt_def outcome_reply_def split: option.splits if_splits)

lemma simulates_encrypt:
  assumes "rq_method req = ''encrypt''"
  shows "simulates get_str req v (handle_encrypt P C get_str req v)"
  unfolding handle_encrypt_def
proof (intro simulates_required)
  fix k x
  assume k: "get_str (rq_params req) ''key_id'' = Some k"
  let ?s = "vault_store P (ca_seed C) (ca_nonce C) (ca_elapsed C) (as_bytes k) (as_bytes x) v"
  have utf8: "k' = k" if "from_utf8 (as_bytes k) = Some k'" for k'
    using that by (simp add: from_utf8_def split: if_splits)
  show "simulates get_str req v
    (case ?s of (r, v1) \<Rightarrow>
       (map_ok (\<lambda>ct. EncryptedData (ct_nonce ct) (ct_ciphertext ct) (ct_key_id ct))
          (map_err (\<lambda>e. internal_error (vault_error_text e)) r), v1))"
  proof (cases "from_utf8 (as_bytes k)")
    case None
    then show ?thesis
      using bk_not_utf8 [where get_str = get_str, OF assms k None]
      by (simp add: vault_store_def simulates_def outcome_reply_def gateway_errors)
  next
    case (Some k')
    then have k': "from_utf8 (as_bytes k) = Some k"
      using utf8 by simp
    show ?thesis
      using bk_seal [where get_str = get_str, OF assms k, of "map fst (va_keys v)"] k' key_known [of "va_keys v" k]
      by (cases "va_poisoned v"; cases "key_row_of (va_keys v) k")
        (auto simp: vault_store_def simulates_def vault_lock_def keygen_def dest!: encryption_reply)
  qed
qed (simp_all add: assms)

lemma simulates_decrypt:
  assumes "rq_method req = ''decrypt''"
  shows "simulates get_str req v (handle_decrypt P C get_str req v)"
  unfolding handle_decrypt_def Let_def
proof (intro simulates_required)
  fix k c
  assume k: "get_str (rq_params req) ''key_id'' = Some k"
  define ct where "ct = \<lparr>ct_nonce = (case get_str (rq_params req) ''nonce'' of Some n \<Rightarrow> n | None \<Rightarrow> []),
    ct_ciphertext = c, ct_key_id = k\<rparr>"
  obtain r v1 where r: "vault_retrieve P (ca_elapsed C) (as_bytes k) ct v = (r, v1)"
    by (cases "vault_retrieve P (ca_elapsed C) (as_bytes k) ct v")
  have known: "k \<in> fst ` set keys" if "find (\<lambda>(i, _, _). i = k) keys = Some row" for keys :: "key_row list" and row
    using that by (induction keys) (auto split: if_splits)
  have "va_keys v1 = va_keys v" "\<And>x. r = Ok x \<Longrightarrow> k \<in> set (map fst (va_keys v))"
    using r by (auto simp: vault_retrieve_def vault_lock_def dest: known
        split: if_splits option.splits outcome.splits prod.splits)
  then have "simulates get_str req v
      (map_ok (\<lambda>plain. DecryptedText (from_utf8_lossy plain)) (map_err internal_error r), v1)"
    using bk_open [where get_str = get_str, OF assms k] bk_refuse [where get_str = get_str, OF assms k]
    by (cases r) (simp_all add: simulates_def outcome_reply_def gateway_errors)
  then show "simulates get_str req v
      (case vault_retrieve P (ca_elapsed C) (as_bytes k)
         \<lparr>ct_nonce = (case get_str (rq_params req) ''nonce'' of Some n \<Rightarrow> n | None \<Rightarrow> []), ct_ciphertext = c, ct_key_id = k\<rparr> v of
       (r, v1) \<Rightarrow> (map_ok (\<lambda>plain. DecryptedText (from_utf8_lossy plain)) (map_err internal_error r), v1))"
    by (simp add: r flip: ct_def)
qed (simp_all add: assms)

lemma simulates_list: "rq_method req = ''list_keys'' \<Longrightarrow> simulates get_str req v (handle_list_keys v)"
  by (simp add: handle_list_keys_def vault_list_keypairs_def vault_lock_def simulates_def outcome_reply_def bk_names)

lemma simulates_delete:
  assumes "rq_method req = ''delete_key''"
  shows "simulates get_str req v (handle_delete_key get_str req v)"
  unfolding handle_delete_key_def
proof (rule simulates_required)
  fix k
  assume k: "get_str (rq_params req) ''key_id'' = Some k"
  have "map fst (filter (\<lambda>(i, _, _). i \<noteq> k) keys) = filter (\<lambda>i. i \<noteq> k) (map fst keys)" for keys :: "key_row list"
    by (induction keys) auto
  then show "simulates get_str req v
      (case vault_remove_keypair k v of (r, v1) \<Rightarrow> (map_ok (\<lambda>_. DeletedKey k) (map_err internal_error r), v1))"
    using bk_remove [where get_str = get_str, OF assms k]
    by (simp add: simulates_def outcome_reply_def vault_remove_keypair_def vault_lock_def)
qed (simp add: assms)

lemma simulates_rest:
  "rq_method req = ''clear_cache'' \<Longrightarrow> simulates get_str req v (handle_clear_cache v)"
  "rq_method req = ''info'' \<Longrightarrow> simulates get_str req v (handle_info C v)"
  "rq_method req \<notin> known_methods \<Longrightarrow> simulates get_str req v (Err (method_not_found (rq_method req)), v)"
  by (simp_all add: handle_clear_cache_def handle_info_def simulates_def outcome_reply_def bk_clear bk_about bk_unknown
      method_not_found_def)

lemma dispatch_simulates: "simulates get_str req v (mcp_dispatch P C get_str req v)"
  by (simp add: mcp_dispatch_def Let_def known_methods_def simulates_generate simulates_encrypt simulates_decrypt
      simulates_list simulates_delete simulates_rest)

lemma handle_step:
  assumes "mcp_handle P C get_str req s = (Ok resp, s')"
  obtains r where "reply_of resp = Some r" "book_step get_str req (names s) r (names s')"
proof -
  let ?d = "mcp_dispatch P C get_str req (sv_vault s)"
  have "reply_of resp = outcome_reply (fst ?d) \<and> sv_vault s' = snd ?d \<and> fst ?d \<noteq> Panic m" for m
    using assms by (auto simp: mcp_handle_def Let_def reply_of_def outcome_reply_def split: prod.splits outcome.splits)
  moreover from this obtain r where "outcome_reply (fst ?d) = Some r"
    by (cases "fst ?d") (auto simp: outcome_reply_def)
  ultimately show thesis
    using that dispatch_simulates [of get_str req "sv_vault s" P C] by (simp add: simulates_def names_def)
qed

lemma session_run:
  "mcp_session P get_str reqs s = Ok (resps, s') \<Longrightarrow>
    \<exists>rs. map reply_of resps = map Some rs \<and> book_run get_str (map snd reqs) (names s) rs (names s')"
proof (induction reqs arbitrary: s resps)
  case Nil
  then show ?case
    by (auto intro: run_nil)
next
  case (Cons q reqs)
  obtain C req resp s1 resps1 where q: "q = (C, req)" "mcp_handle P C get_str req s = (Ok resp, s1)"
    "mcp_session P get_str reqs s1 = Ok (resps1, s')" "resps = resp # resps1"
    using Cons.prems by (cases q) (auto simp: map_outcome_cases split: prod.splits outcome.splits)
  obtain r where "reply_of resp = Some r" "book_step get_str req (names s) r (names s1)"
    using handle_step [OF q(2)] .
  moreover obtain rs where "map reply_of resps1 = map Some rs" "book_run get_str (map snd reqs) (names s1) rs (names s')"
    using Cons.IH [OF q(3)] by blast
  ultimately show ?case
    using q by (intro exI [of _ "r # rs"]) (simp add: run_cons)
qed

text \<open>
  C8. The gateway refines the book: in every session that does not panic the replies, and the names of the
  keys in the vault at its end, are those of a run of the abstract machine from the empty book, whatever
  the crates supply.
\<close>

theorem mcp_refines_book:
  assumes "mcp_session P get_str reqs mcp_new = Ok (resps, s)"
  shows "\<exists>rs. map reply_of resps = map Some rs \<and> book_run get_str (map snd reqs) [] rs (names s)"
  using session_run [OF assms] by (simp add: names_def mcp_new_def vault_new_def)

section \<open>What the abstract machine promises\<close>

lemma book_run_append:
  "book_run get_str (xs @ ys) b rs b' \<Longrightarrow>
    \<exists>r1 r2 b1. rs = r1 @ r2 \<and> length r1 = length xs \<and> book_run get_str xs b r1 b1 \<and> book_run get_str ys b1 r2 b'"
proof (induction xs arbitrary: b rs)
  case Nil
  then show ?case
    by (auto intro: run_nil)
next
  case (Cons x xs)
  obtain r b1 rs1 where r: "rs = r # rs1" "book_step get_str x b r b1" "book_run get_str (xs @ ys) b1 rs1 b'"
    using Cons.prems by (auto elim: book_run_ConsE)
  obtain r1 r2 b2 where "rs1 = r1 @ r2" "length r1 = length xs" "book_run get_str xs b1 r1 b2" "book_run get_str ys b2 r2 b'"
    using Cons.IH [OF r(3)] by blast
  then show ?case
    using r(1,2) by (intro exI [of _ "r # r1"] exI [of _ r2] exI [of _ b2]) (simp add: run_cons)
qed

text \<open>Whether a request can bring a name into the book.\<close>

definition mentions :: "('j \<Rightarrow> string \<Rightarrow> string option) \<Rightarrow> string \<Rightarrow> 'j mcp_request \<Rightarrow> bool" where
  "mentions get_str k req \<longleftrightarrow>
     rq_method req \<in> {''generate_key'', ''encrypt''} \<and> get_str (rq_params req) ''key_id'' = Some k"

lemma absent_step:
  "book_step get_str req b r b' \<Longrightarrow> k \<notin> set b \<Longrightarrow> \<not> mentions get_str k req \<Longrightarrow> k \<notin> set b'"
  by (elim book_stepE) (auto simp: mentions_def split: if_splits)

lemma absent_run:
  "book_run get_str reqs b rs b' \<Longrightarrow> k \<notin> set b \<Longrightarrow> \<forall>req\<in>set reqs. \<not> mentions get_str k req \<Longrightarrow> k \<notin> set b'"
  by (induction rule: book_run.induct) (auto dest: absent_step)

lemma removed_absent:
  "book_step get_str req b r b' \<Longrightarrow> rq_method req = ''delete_key'' \<Longrightarrow> get_str (rq_params req) ''key_id'' = Some k \<Longrightarrow>
    k \<notin> set b'"
  by (elim book_stepE) (auto simp: known_methods_def)

lemma replies_absent:
  assumes "book_step get_str req b r b'" "k \<notin> set b"
  shows "rq_method req = ''list_keys'' \<Longrightarrow> r = Names b"
    and "rq_method req = ''decrypt'' \<Longrightarrow> get_str (rq_params req) ''key_id'' = Some k \<Longrightarrow> \<exists>c. r = Failed c"
  using assms by (auto simp: known_methods_def elim!: book_stepE)

text \<open>
  C20. A deleted key is gone.  In a session that does not panic, after a \<open>delete_key\<close> request for a name that
  no later request generates or encrypts under, a \<open>list_keys\<close> request does not show the name and a
  \<open>decrypt\<close> request for it is answered with an error.
\<close>

theorem mcp_deleted_key_gone:
  assumes "mcp_session P get_str (before @ (C, del) # between @ [(C', q)]) mcp_new = Ok (resps, s)"
    and "rq_method del = ''delete_key''" "get_str (rq_params del) ''key_id'' = Some k"
    and "\<forall>(_, req)\<in>set between. \<not> mentions get_str k req"
  shows "(rq_method q = ''list_keys'' \<longrightarrow> (\<exists>ks. reply_of (last resps) = Some (Names ks) \<and> k \<notin> set ks)) \<and>
    (rq_method q = ''decrypt'' \<and> get_str (rq_params q) ''key_id'' = Some k \<longrightarrow>
       (\<exists>c. reply_of (last resps) = Some (Failed c)))"
proof -
  obtain rs where rs: "map reply_of resps = map Some rs"
    "book_run get_str (map snd before @ [del] @ map snd between @ [q]) [] rs (names s)"
    using session_run [OF assms(1)] by (auto simp: names_def mcp_new_def vault_new_def)
  obtain r1 r2 b1 where 1: "rs = r1 @ r2" "book_run get_str ([del] @ map snd between @ [q]) b1 r2 (names s)"
    using book_run_append [OF rs(2)] by blast
  obtain r3 r4 b2 where 2: "r2 = r3 # r4" "book_step get_str del b1 r3 b2"
    "book_run get_str (map snd between @ [q]) b2 r4 (names s)"
    using 1(2) by (auto elim: book_run_ConsE)
  obtain r5 r6 b3 where 3: "r4 = r5 @ r6" "book_run get_str (map snd between) b2 r5 b3" "book_run get_str [q] b3 r6 (names s)"
    using book_run_append [OF 2(3)] by blast
  obtain r7 where 4: "r6 = [r7]" "book_step get_str q b3 r7 (names s)"
    using 3(3) by (auto elim!: book_run_ConsE book_run_NilE)
  have "\<forall>req\<in>set (map snd between). \<not> mentions get_str k req"
    using assms(4) by auto
  then have "k \<notin> set b3"
    using absent_run [OF 3(2) removed_absent [OF 2(2) assms(2,3)]] by blast
  moreover have "last (map reply_of resps) = Some r7"
    unfolding rs(1) by (simp add: 1 2 3 4)
  then have "reply_of (last resps) = Some r7"
    using rs(1) by (cases resps rule: rev_cases) (auto simp: 1 2 3 4)
  ultimately show ?thesis
    using replies_absent [OF 4(2)] by auto
qed

definition demo_request :: "string \<Rightarrow> (string \<times> string) list \<Rightarrow> (string \<times> string) list mcp_request" where
  "demo_request m ps = \<lparr>rq_jsonrpc = ''2.0'', rq_id = None, rq_method = m, rq_params = ps\<rparr>"

definition demo_session :: "(call_env \<times> (string \<times> string) list mcp_request) list" where
  "demo_session =
     [(demo_call, demo_request ''generate_key'' [(''key_id'', ''a'')]), (demo_call, demo_request ''generate_key'' [(''key_id'', ''k'')]),
      (demo_call, demo_request ''delete_key'' [(''key_id'', ''k'')]), (demo_call, demo_request ''list_keys'' [])]"

lemma demo_session_ok:
  obtains resps s where "mcp_session plain_primitives map_of demo_session mcp_new = Ok (resps, s)"
    "names s = [''a'']"
  by (simp add: demo_session_def demo_request_def mcp_handle_def mcp_dispatch_def handle_generate_key_def handle_delete_key_def
      handle_list_keys_def required_def vault_generate_keypair_def vault_remove_keypair_def vault_list_keypairs_def
      vault_lock_def keygen_def mcp_new_def vault_new_def names_def)

theorem mcp_refines_book_witness:
  "\<exists>rs. book_run map_of (map snd demo_session) [] rs [''a'']"
  using demo_session_ok mcp_refines_book by metis

theorem mcp_deleted_key_gone_witness:
  "\<exists>resps s ks. mcp_session plain_primitives map_of demo_session mcp_new = Ok (resps, s) \<and>
     reply_of (last resps) = Some (Names ks) \<and> ''k'' \<notin> set ks"
proof -
  obtain resps s where r: "mcp_session plain_primitives map_of demo_session mcp_new = Ok (resps, s)"
    using demo_session_ok .
  have "demo_session = take 2 demo_session @ (demo_call, demo_request ''delete_key'' [(''key_id'', ''k'')]) # [] @
      [(demo_call, demo_request ''list_keys'' [])]"
    by (simp add: demo_session_def)
  then have "mcp_session plain_primitives map_of (take 2 demo_session @
      (demo_call, demo_request ''delete_key'' [(''key_id'', ''k'')]) # [] @ [(demo_call, demo_request ''list_keys'' [])]) mcp_new = Ok (resps, s)"
    using r by simp
  from mcp_deleted_key_gone [OF this, of "''k''"] show ?thesis
    using r by (simp add: demo_request_def)
qed

section \<open>What a session keeps\<close>

definition deletes :: "('j \<Rightarrow> string \<Rightarrow> string option) \<Rightarrow> string \<Rightarrow> 'j mcp_request \<Rightarrow> bool" where
  "deletes get_str k req \<longleftrightarrow> rq_method req = ''delete_key'' \<and> get_str (rq_params req) ''key_id'' = Some k"

lemmas handler_defs = mcp_dispatch_def handle_generate_key_def handle_encrypt_def handle_decrypt_def handle_list_keys_def
  handle_delete_key_def handle_clear_cache_def handle_info_def required_def Let_def

text \<open>A request is at most one call of the vault, and only a deletion replaces a key.\<close>

lemma dispatch_exec:
  "snd (mcp_dispatch P C get_str req v) = v \<or>
    (\<exists>op. snd (mcp_dispatch P C get_str req v) = vault_exec P v op \<and> (\<forall>k. replaces_key k op \<longrightarrow> deletes get_str k req))"
  by (auto simp: handler_defs split_beta deletes_def
      intro: exI [of _ "VGenerate (ca_seed C) k" for k] exI [of _ "VStore (ca_seed C) (ca_nonce C) (ca_elapsed C) k x" for k x]
        exI [of _ "VRetrieve (ca_elapsed C) k c" for k c] exI [of _ VList] exI [of _ "VRemove k" for k]
      split: option.splits)

lemma dispatch_lock:
  assumes "mcp_dispatch P C get_str req v = (r, v')" "\<not> (\<exists>m. r = Panic m)" "\<not> va_poisoned v"
  shows "\<not> va_poisoned v'"
  using assms
  by (auto simp: handler_defs vault_generate_keypair_def vault_store_def vault_retrieve_def vault_list_keypairs_def
      vault_remove_keypair_def vault_lock_def keygen_def split: if_splits option.splits prod.splits outcome.splits)

lemma session_keeps:
  assumes "mcp_session P get_str reqs s = Ok (resps, s')" "vault_get (sv_vault s) k = Some row" "\<not> va_poisoned (sv_vault s)"
    and "list_all (\<lambda>(_, req). \<not> deletes get_str k req) reqs"
  shows "vault_get (sv_vault s') k = Some row \<and> \<not> va_poisoned (sv_vault s')"
  using assms
proof (induction reqs arbitrary: s resps)
  case (Cons q reqs)
  obtain C req where q: "q = (C, req)"
    by (cases q)
  obtain resp s1 resps1 where s1: "mcp_handle P C get_str req s = (Ok resp, s1)" "mcp_session P get_str reqs s1 = Ok (resps1, s')"
    using Cons.prems(1) q by (auto simp: map_outcome_cases split: prod.splits outcome.splits)
  obtain r where r: "mcp_dispatch P C get_str req (sv_vault s) = (r, sv_vault s1)" "\<not> (\<exists>m. r = Panic m)"
    using s1(1) by (auto simp: mcp_handle_def Let_def split: prod.splits outcome.splits)
  have "vault_get (sv_vault s1) k = Some row"
    using dispatch_exec [of P C get_str req "sv_vault s"]
  proof
    assume "\<exists>op. snd (mcp_dispatch P C get_str req (sv_vault s)) = vault_exec P (sv_vault s) op \<and>
        (\<forall>k. replaces_key k op \<longrightarrow> deletes get_str k req)"
    then obtain op where "sv_vault s1 = vault_exec P (sv_vault s) op" "\<not> replaces_key k op"
      using r(1) Cons.prems(4) q by auto
    then show ?thesis
      using vault_get_exec [OF Cons.prems(2)] by simp
  qed (use r(1) Cons.prems(2) in simp)
  then show ?case
    using Cons.IH [OF s1(2)] dispatch_lock [OF r Cons.prems(3)] Cons.prems(4) q by simp
qed auto

text \<open>
  C27. What the gateway encrypts it decrypts, at any later time.  If an \<open>encrypt\<close> request is answered with
  a result, then after any session of further requests that does not delete the key (and in which no request
  panics), a \<open>decrypt\<close> request that takes no more than 200 ms, with the nonce and ciphertext of that answer is answered with the same text, for text that
  is well-formed UTF-8; generating the key again or encrypting more under it changes nothing.
\<close>

theorem mcp_decrypts_later:
  assumes "lawful_base64 P" "lawful_aes P" "length (ca_nonce C) = 12" "ca_elapsed C' \<le> 200"
    and "utf8_valid (as_bytes txt)"
    and "rq_method req = ''encrypt''" "get_str (rq_params req) ''key_id'' = Some k"
    and "get_str (rq_params req) ''data'' = Some txt"
    and "mcp_handle P C get_str req s = (Ok resp, s1)" "rp_result resp = Some (EncryptedData nonce ct kid)"
    and "mcp_session P get_str between s1 = Ok (resps, s2)" "list_all (\<lambda>(_, req). \<not> deletes get_str k req) between"
    and "rq_method req' = ''decrypt''" "get_str (rq_params req') ''key_id'' = Some k"
    and "get_str (rq_params req') ''ciphertext'' = Some ct" "get_str (rq_params req') ''nonce'' = Some nonce"
  shows "mcp_handle P C' get_str req' s2 =
    (Ok \<lparr>rp_jsonrpc = ''2.0'', rp_id = rq_id req', rp_result = Some (DecryptedText txt), rp_error = None\<rparr>,
     s2\<lparr>sv_request_count := sv_request_count s2 + 1\<rparr>)"
proof -
  have d: "mcp_dispatch P C get_str req (sv_vault s) = (Ok (EncryptedData nonce ct kid), sv_vault s1)"
    by (rule handle_vault [OF assms(9,10)])
  obtain c where st: "vault_store P (ca_seed C) (ca_nonce C) (ca_elapsed C) (as_bytes k) (as_bytes txt) (sv_vault s)
      = (Ok c, sv_vault s1)" and c: "ct_nonce c = nonce" "ct_ciphertext c = ct"
    using d assms(6-8) by (auto simp: mcp_dispatch_def handle_encrypt_def required_def map_outcome_cases
        split: prod.splits)
  have np: "\<not> va_poisoned (sv_vault s1)"
    using st by (auto simp: vault_store_def split: option.splits prod.splits outcome.splits dest!: vault_lock_Ok)
  obtain kp sk where row: "vault_get (sv_vault s1) k = Some (kp, sk)"
    and h: "hybrid_encrypt P (ca_nonce C) (ca_elapsed C) (as_bytes txt) sk = (Ok c :: (vault_error, ciphertext) outcome)"
    using vault_store_key [OF st] by auto
  have s2: "vault_get (sv_vault s2) k = Some (kp, sk)" "\<not> va_poisoned (sv_vault s2)"
    using session_keeps [OF assms(11) row np assms(12)] by simp_all
  have "hybrid_decrypt P (ca_elapsed C') \<lparr>ct_nonce = nonce, ct_ciphertext = ct, ct_key_id = k\<rparr> sk = Ok (as_bytes txt)"
    using hybrid_decrypt_encrypt [OF assms(1-4) h] by (subst hybrid_decrypt_cong [where b = c]) (simp_all add: c)
  moreover have "find (\<lambda>(i, _, _). i = k) (va_keys (sv_vault s2)) = Some (k, kp, sk)"
    using find_key_row [of k "va_keys (sv_vault s2)"] s2(1) by (simp add: vault_get_def)
  ultimately have "vault_retrieve P (ca_elapsed C') (as_bytes k) \<lparr>ct_nonce = nonce, ct_ciphertext = ct, ct_key_id = k\<rparr> (sv_vault s2)
      = (Ok (as_bytes txt), sv_vault s2)"
    using s2(2) by (simp add: vault_retrieve_def vault_lock_def)
  then show ?thesis
    using assms(13-16) from_utf8_lossy_valid [OF assms(5)]
    by (simp add: mcp_handle_def mcp_dispatch_def handle_decrypt_def required_def Let_def)
qed

theorem mcp_decrypts_later_witness:
  "\<exists>s2. fst (mcp_handle plain_primitives demo_call map_of
      (decrypt_call [(''ciphertext'', bytes_to_string ([5, 6] @ as_bytes ''hi'')),
         (''nonce'', bytes_to_string (replicate 12 0))]) s2) =
    Ok \<lparr>rp_jsonrpc = ''2.0'', rp_id = None, rp_result = Some (DecryptedText ''hi''), rp_error = None\<rparr>"
proof -
  obtain resp s1 where h: "mcp_handle plain_primitives demo_call map_of encrypt_call mcp_new = (Ok resp, s1)"
    "rp_result resp = Some (EncryptedData (bytes_to_string (replicate 12 0))
       (bytes_to_string ([5, 6] @ as_bytes ''hi'')) [])"
    using encrypt_call_result by blast
  let ?between = "[(demo_call, demo_request ''info'' []), (demo_call, demo_request ''delete_key'' [])]"
  obtain resps s2 where b: "mcp_session plain_primitives map_of ?between s1 = Ok (resps, s2)"
    by (simp add: demo_request_def mcp_handle_def mcp_dispatch_def handle_info_def handle_delete_key_def required_def)
  have u: "utf8_valid (as_bytes ''hi'')"
    by (rule utf8_valid_ascii) (simp add: of_char_def)
  have "mcp_handle plain_primitives demo_call map_of
      (decrypt_call [(''ciphertext'', bytes_to_string ([5, 6] @ as_bytes ''hi'')),
         (''nonce'', bytes_to_string (replicate 12 0))]) s2 =
    (Ok \<lparr>rp_jsonrpc = ''2.0'', rp_id = rq_id (decrypt_call [(''ciphertext'', bytes_to_string ([5, 6] @ as_bytes ''hi'')),
         (''nonce'', bytes_to_string (replicate 12 0))]), rp_result = Some (DecryptedText ''hi''), rp_error = None\<rparr>,
     s2\<lparr>sv_request_count := sv_request_count s2 + 1\<rparr>)"
    by (rule mcp_decrypts_later [OF plain_lawful _ _ u _ _ _ h b])
      (simp_all add: encrypt_call_def decrypt_call_def demo_call_def demo_request_def deletes_def)
  then show ?thesis
    by (intro exI [of _ s2]) (simp add: decrypt_call_def)
qed

end
