(* ===== verification/Cli_Store.thy ===== *)
theory Cli_Store
  imports Cli
begin

text \<open>
  What the command line promises about the stored keys, without the disk: a step relation on the
  map from identifiers to key pairs, in which a command prints what the map says and changes the
  map at its own key only, or is refused or panics, for stated reasons, and changes nothing.  The commands of
  \<open>src/main.rs\<close>, with their files, blobs, key derivation and base64, refine it, one by one and in
  sessions of any length; properties of sessions are then proved on the map alone.
\<close>

section \<open>The specification\<close>

type_synonym key_map = "string \<Rightarrow> (key_pair \<times> bytes) option"

abbreviation ci_prims :: "cli_env \<Rightarrow> primitives" where
  "ci_prims C \<equiv> pe_prims (ci_pv C)"

text \<open>The key a command of the vault names, and the commands that open the vault.\<close>

fun key_arg :: "command \<Rightarrow> string option" where
  "key_arg (Init k) = Some k"
| "key_arg (Encrypt k x) = Some k"
| "key_arg (Decrypt k ct n) = Some k"
| "key_arg (DeleteKey k) = Some k"
| "key_arg _ = None"

definition vault_command :: "command \<Rightarrow> bool" where
  "vault_command cmd = (key_arg cmd \<noteq> None \<or> cmd = ListKeys)"

definition valid_key :: "cli_env \<Rightarrow> string \<Rightarrow> bool" where
  "valid_key C k = (validate_key_id (ci_uni_alnum C) k = Inr ())"

definition pair_for :: "cli_env \<Rightarrow> key_map \<Rightarrow> string \<Rightarrow> key_pair \<times> bytes" where
  "pair_for C m k = (case m k of Some row \<Rightarrow> row | None \<Rightarrow> keygen (ci_prims C) (ci_seed C))"

definition decrypt_end :: "cli_env \<Rightarrow> key_map \<Rightarrow> string \<Rightarrow> ciphertext \<Rightarrow> cli_end" where
  "decrypt_end C m k ct =
     (case m k of
        None \<Rightarrow> Exit1 [] [''Decryption failed: '' @ ''Key not found'']
      | Some row \<Rightarrow>
          (case hybrid_decrypt (ci_prims C) (ci_elapsed C) ct (snd row) of
             Ok plain \<Rightarrow> Printed [from_utf8_lossy plain]
           | Err e \<Rightarrow> Exit1 [] [''Decryption failed: '' @ e]
           | Panic p \<Rightarrow> Panicked p))"

definition listing :: "string list \<Rightarrow> string list" where
  "listing ks = (if ks = [] then [''No keys stored''] else ''Stored keys:'' # map (\<lambda>k. ''  - '' @ k) ks)"

text \<open>The reasons for a panic.  Argon2id can refuse the passphrase with the salt of the key file; the cipher
  can refuse the file a command writes, serialised from the map it leaves behind, under the key
  derived for the invocation's salt; an encryption can be refused under the key of its map entry, or trip the
  watchdog.  (An identifier is always well-formed UTF-8 in the program; the model's strings need not be.)\<close>

definition argon2_key :: "cli_env \<Rightarrow> string \<Rightarrow> bytes \<Rightarrow> bytes option" where
  "argon2_key C pw salt = pe_argon2 (ci_pv C) ARGON2_MEMORY_KIB ARGON2_TIME_COST ARGON2_PARALLELISM
     ARGON2_KEY_LENGTH (as_bytes pw) salt"

definition derivation_fails :: "cli_env \<Rightarrow> string \<Rightarrow> bool" where
  "derivation_fails C pw = (\<exists>salt. length salt = 16 \<and> argon2_key C pw salt = None)"

fun written :: "cli_env \<Rightarrow> key_map \<Rightarrow> command \<Rightarrow> key_map option" where
  "written C m (Init k) = Some (m(k \<mapsto> keygen (ci_prims C) (ci_seed C)))"
| "written C m (Encrypt k x) = Some (m(k \<mapsto> pair_for C m k))"
| "written C m (DeleteKey k) = Some (m(k := None))"
| "written C m _ = None"

definition file_refused :: "cli_env \<Rightarrow> string \<Rightarrow> key_map \<Rightarrow> bool" where
  "file_refused C pw m = (\<exists>rows payload file_key.
     map_of (rev rows) = m \<and> pe_keys_to_json (ci_pv C) (map stored_of rows) = Inr payload \<and>
     argon2_key C pw (ci_salt C) = Some file_key \<and>
     pr_aes_encrypt (ci_prims C) file_key (ci_file_nonce C) payload = None)"

inductive key_panic :: "cli_env \<Rightarrow> string \<Rightarrow> key_map \<Rightarrow> command \<Rightarrow> string \<Rightarrow> bool"
  for C :: cli_env and pw :: string and m :: key_map where
  panic_derivation: "derivation_fails C pw \<Longrightarrow> key_panic C pw m cmd ''Argon2id derivation failed''"
| panic_file: "written C m cmd = Some m' \<Longrightarrow> file_refused C pw m' \<Longrightarrow> key_panic C pw m cmd ''Encryption failed''"
| panic_cipher: "pr_aes_encrypt (ci_prims C) (aes_key (ci_prims C) (snd (pair_for C m k))) (ci_nonce C) (as_bytes x) = None \<Longrightarrow>
    key_panic C pw m (Encrypt k x) ''Encrypt''"
| panic_watchdog: "200 < ci_elapsed C \<Longrightarrow> key_panic C pw m (Encrypt k x)
    (watchdog_text ''encryption'' (ci_elapsed C) @ ''. Potential side-channel attack.'')"
| panic_identifier: "\<not> utf8_valid (as_bytes k) \<Longrightarrow>
    key_panic C pw m (Encrypt k x) (encryption_failed (InvalidUtf8 (as_bytes k)))"

text \<open>The reasons for a panic of the commands that have nothing to do with the stored keys: a secret or
  a number of shares outside GF(251), shares that cannot be interpolated, a signature that is not
  base64, a standard input that cannot be read, a signing key that cannot be generated or written, and
  a panic of the server itself.\<close>

fun other_panic :: "cli_env \<Rightarrow> (unit \<Rightarrow> (string list, string list) outcome) \<Rightarrow> string \<Rightarrow> command \<Rightarrow> bool" where
  "other_panic C serve pw (McpServer mode) = (mode = ''stdio'' \<and> (\<exists>p. serve () = Panic p))"
| "other_panic C serve pw (ShamirSplit s t n) = (250 < n \<or> (\<exists>b \<in> set (as_bytes s). 251 \<le> unat b))"
| "other_panic C serve pw (ShamirJoin texts) =
     (\<exists>ss. decode_shares (pr_b64_decode (ci_prims C)) texts = Inr ss \<and> ill_formed ss)"
| "other_panic C serve pw (MldsaInit k) =
     (isl (mldsa_generate_keypair (pe_dsa (ci_pv C)) (ci_dsa_seed C)) \<or>
      k \<noteq> None \<and> (argon2_key C pw (ci_salt C) = None \<or>
        (\<exists>file_key payload. argon2_key C pw (ci_salt C) = Some file_key \<and>
           pr_aes_encrypt (ci_prims C) file_key (ci_file_nonce C) payload = None)))"
| "other_panic C serve pw (MldsaSign k x) = (x = None \<and> ci_stdin C = None \<or> derivation_fails C pw)"
| "other_panic C serve pw (MldsaVerify k x sig) = (isl (pr_b64_decode (ci_prims C) sig) \<or> derivation_fails C pw)"
| "other_panic C serve pw MldsaList = derivation_fails C pw"
| "other_panic C serve pw _ = False"

text \<open>One invocation of the program: its surroundings, the stdio server it may run, its command.\<close>

type_synonym invocation = "cli_env \<times> (unit \<Rightarrow> (string list, string list) outcome) \<times> command option"

inductive store_step :: "string \<Rightarrow> invocation \<Rightarrow> key_map \<Rightarrow> cli_end \<Rightarrow> key_map \<Rightarrow> bool" for pw :: string where
  step_init: "valid_key C k \<Longrightarrow> keygen (ci_prims C) (ci_seed C) = (kp, sk) \<Longrightarrow>
    store_step pw (C, serve, Some (Init k)) m
      (Printed [''Generated keypair: '' @ k, ''Public key: '' @ kp_public_key kp]) (m(k \<mapsto> (kp, sk)))"
| step_encrypt: "valid_key C k \<Longrightarrow> length x \<le> 1024 * 1024 \<Longrightarrow>
    hybrid_encrypt (ci_prims C) (ci_nonce C) (ci_elapsed C) (as_bytes x) (snd (pair_for C m k))
      = (Ok c :: (string, ciphertext) outcome) \<Longrightarrow>
    store_step pw (C, serve, Some (Encrypt k x)) m
      (Printed [''Ciphertext: '' @ ct_ciphertext c, ''Nonce: '' @ ct_nonce c]) (m(k \<mapsto> pair_for C m k))"
| step_decrypt: "valid_key C k \<Longrightarrow>
    store_step pw (C, serve, Some (Decrypt k ct n)) m
      (decrypt_end C m k \<lparr>ct_nonce = n, ct_ciphertext = ct, ct_key_id = k\<rparr>) m"
| step_list: "distinct ks \<Longrightarrow> set ks = {k \<in> dom m. take 2 k \<noteq> ''__''} \<Longrightarrow>
    store_step pw (C, serve, Some ListKeys) m (Printed (listing ks)) m"
| step_delete: "valid_key C k \<Longrightarrow>
    store_step pw (C, serve, Some (DeleteKey k)) m (Printed [''Deleted key: '' @ k]) (m(k := None))"
| step_clear: "store_step pw (C, serve, Some ClearCache) m (Printed [''Vault cleared (all keys removed)''])
    (if ci_has_home C \<and> ci_remove_ok C then Map.empty else m)"
| step_invalid: "key_arg cmd = Some k \<Longrightarrow> validate_key_id (ci_uni_alnum C) k = Inl e \<Longrightarrow>
    store_step pw (C, serve, Some cmd) m (Exit1 [] [''Invalid key_id: '' @ e]) m"
| step_too_large: "valid_key C k \<Longrightarrow> 1024 * 1024 < length x \<Longrightarrow>
    store_step pw (C, serve, Some (Encrypt k x)) m (Exit1 [] [''Data too large (max 1MB)'']) m"
| step_panic: "vault_command cmd \<Longrightarrow> key_panic C pw m cmd p \<Longrightarrow> store_step pw (C, serve, Some cmd) m (Panicked p) m"
| step_other: "\<not> vault_command cmd \<Longrightarrow> cmd \<noteq> ClearCache \<Longrightarrow>
    (\<And>p. e = Panicked p \<Longrightarrow> other_panic C serve pw cmd) \<Longrightarrow> store_step pw (C, serve, Some cmd) m e m"
| step_usage: "store_step pw (C, serve, None) m (Printed (usage_lines (ci_version C))) m"

inductive_cases store_step_encryptE: "store_step pw (C, serve, Some (Encrypt k x)) m (Printed out) m'"
inductive_cases store_step_deleteE: "store_step pw (C, serve, Some (DeleteKey k)) m (Printed out) m'"

text \<open>A session is a sequence of invocations with one passphrase.\<close>

inductive store_run :: "string \<Rightarrow> invocation list \<Rightarrow> key_map \<Rightarrow> cli_end list \<Rightarrow> key_map \<Rightarrow> bool" for pw :: string where
  run_nil: "store_run pw [] m [] m"
| run_cons: "store_step pw i m e m1 \<Longrightarrow> store_run pw rest m1 es m2 \<Longrightarrow>
    store_run pw (i # rest) m (e # es) m2"

inductive_cases store_run_consE: "store_run pw (i # rest) m es m'"

fun cli_session :: "string option \<Rightarrow> invocation list \<Rightarrow> disk \<Rightarrow> cli_end list \<times> disk" where
  "cli_session key [] d = ([], d)"
| "cli_session key ((C, serve, cmd) # rest) d =
     (case cli_main C serve key cmd d of
        (e, d1) \<Rightarrow> (case cli_session key rest d1 of (es, d2) \<Rightarrow> (e # es, d2)))"

section \<open>The stored keys\<close>

text \<open>The abstraction: the keys a passphrase opens.\<close>

definition stored :: "pv_env \<Rightarrow> string \<Rightarrow> disk \<Rightarrow> key_map" where
  "stored E passphrase d = (case get_vault E passphrase d of Ok v \<Rightarrow> vault_get v | _ \<Rightarrow> Map.empty)"

definition readable :: "pv_env \<Rightarrow> string \<Rightarrow> disk \<Rightarrow> bool" where
  "readable E passphrase d = (\<exists>v. get_vault E passphrase d = Ok v)"

definition disk_works :: "disk \<Rightarrow> bool" where
  "disk_works d = (dk_read_error d = None \<and> dk_write_error d = None)"

definition lawful_env :: "pv_env \<Rightarrow> bool" where
  "lawful_env E = (lawful_base64 (pe_prims E) \<and> lawful_seal (pe_prims E) \<and> lawful_keys_json E)"

definition invocation_ok :: "pv_env \<Rightarrow> cli_env \<Rightarrow> bool" where
  "invocation_ok E C = (ci_pv C = E \<and> length (ci_salt C) = 16 \<and> length (ci_file_nonce C) = 12)"

lemma stored_Ok: "get_vault E pw d = Ok v \<Longrightarrow> stored E pw d = vault_get v"
  by (simp add: stored_def)

text \<open>The vault is read from the key file and nothing else of the disk.\<close>

lemma get_vault_cong:
  "dk_keys d' = dk_keys d \<Longrightarrow> dk_read_error d' = dk_read_error d \<Longrightarrow> get_vault E pw d' = get_vault E pw d"
  by (cases "dk_keys d") (simp_all add: get_vault_def read_keys_def)

lemma stored_cong:
  "dk_keys d' = dk_keys d \<Longrightarrow> dk_read_error d' = dk_read_error d \<Longrightarrow> stored E pw d' = stored E pw d"
  using get_vault_cong [of d' d E pw] by (simp add: stored_def)

text \<open>Where the files' readers and writers panic, and with what message.\<close>

lemma derive_key_panics:
  "derive_key (pe_argon2 (ci_pv C)) rng pw salt =
    (let s = (case salt of Some s \<Rightarrow> s | None \<Rightarrow> rng SALT_LENGTH)
     in case argon2_key C pw s of Some key \<Rightarrow> Ok (key, s) | None \<Rightarrow> Panic ''Argon2id derivation failed'')"
  by (simp add: derive_key_def argon2_key_def Let_def)

lemma decrypt_file_panics:
  assumes "decrypt_file (ci_pv C) pw blob = Panic p"
  shows "derivation_fails C pw \<and> p = ''Argon2id derivation failed''"
proof -
  have l: "\<not> length blob < SALT_LENGTH + 12 + 16"
    and d: "argon2_key C pw (take SALT_LENGTH blob) = None \<and> p = ''Argon2id derivation failed''"
    using assms by (auto simp: decrypt_file_def derive_key_with_salt_def derive_key_panics Let_def
        split: option.splits sum.splits if_splits)
  then have "length (take SALT_LENGTH blob) = 16"
    by (simp add: SALT_LENGTH_def)
  with d show ?thesis
    unfolding derivation_fails_def by blast
qed

lemma encrypt_file_panics:
  assumes "encrypt_file (ci_pv C) (ci_salt C) (ci_file_nonce C) pw payload = Panic p"
  shows "argon2_key C pw (ci_salt C) = None \<and> p = ''Argon2id derivation failed'' \<or>
    (\<exists>file_key. argon2_key C pw (ci_salt C) = Some file_key \<and>
       pr_aes_encrypt (ci_prims C) file_key (ci_file_nonce C) payload = None) \<and> p = ''Encryption failed''"
  using assms by (auto simp: encrypt_file_def derive_key_panics encrypt_data_def Let_def split: option.splits)

lemma persist_panics:
  assumes "persist (ci_pv C) (ci_salt C) (ci_file_nonce C) pw v d = (Panic p, d')" "\<not> va_poisoned v"
    and "length (ci_salt C) = 16" "written C m cmd = Some (map_of (rev (va_keys v)))"
  shows "d' = d \<and> key_panic C pw m cmd p"
proof -
  have rows: "map (\<lambda>(i, pk, sk). \<lparr>st_key_id = i, st_public_key = pk, st_secret_key = sk\<rparr>)
      (map (\<lambda>(i, kp, _). (i, kp_public_key kp, kp_secret_key kp)) (va_keys v)) = map stored_of (va_keys v)"
    by (simp add: stored_of_def comp_def case_prod_beta)
  obtain payload where j: "pe_keys_to_json (ci_pv C) (map stored_of (va_keys v)) = Inr payload"
    and e: "encrypt_file (ci_pv C) (ci_salt C) (ci_file_nonce C) pw payload = Panic p" and d: "d' = d"
    using assms(1) unfolding persist_def export_rows [OF assms(2)] outcome.case Let_def rows
    by (auto split: sum.splits outcome.splits)
  have "derivation_fails C pw" if "argon2_key C pw (ci_salt C) = None"
    using that assms(3) by (auto simp: derivation_fails_def)
  then show ?thesis
    using encrypt_file_panics [OF e] j d panic_file [OF assms(4)]
    by (auto simp: file_refused_def intro: panic_derivation)
qed

lemma get_vault_panics:
  "get_vault (ci_pv C) pw d = Panic p \<Longrightarrow> derivation_fails C pw \<and> p = ''Argon2id derivation failed''"
  "get_vault (ci_pv C) pw d \<noteq> Err x"
  by (auto simp: get_vault_def read_keys_def split: option.splits outcome.splits sum.splits if_splits
      dest: decrypt_file_panics)

lemma bind_Panic: "bind_outcome r f = Panic p \<longleftrightarrow> r = Panic p \<or> (\<exists>x. r = Ok x \<and> f x = Panic p)"
  by (cases r) auto

lemma load_mldsa_panics: "load_mldsa_keys (ci_pv C) pw d = Panic p \<Longrightarrow> derivation_fails C pw"
proof -
  have "(case pe_mldsa_from_json (ci_pv C) x of
           Inl e \<Rightarrow> Err (''Failed to deserialize: '' @ e)
         | Inr rows \<Rightarrow> (case try_map (decode_stored_mldsa (ci_pv C)) rows of Inl e \<Rightarrow> Err e | Inr kps \<Rightarrow> Ok kps)) \<noteq> Panic p" for x
    by (simp split: sum.split)
  then show "load_mldsa_keys (ci_pv C) pw d = Panic p \<Longrightarrow> derivation_fails C pw"
    by (auto simp: load_mldsa_keys_def bind_Panic split: option.split_asm dest: decrypt_file_panics)
qed

lemma import_stored_ids:
  assumes "\<not> va_poisoned v"
  shows "fst ` set (va_keys (import_stored E v s)) =
    fst ` set (va_keys v) \<union> (case pr_b64_decode (pe_prims E) (st_secret_key s) of Inl _ \<Rightarrow> {} | Inr _ \<Rightarrow> {st_key_id s})"
  using assms by (force simp: import_stored_def vault_import_key_def vault_lock_def split: sum.splits)

lemma import_stored_lock: "\<not> va_poisoned v \<Longrightarrow> \<not> va_poisoned (import_stored E v s)"
  by (auto simp: import_stored_def vault_import_key_def vault_lock_def split: sum.splits)

lemma import_stored_all:
  "\<not> va_poisoned v \<Longrightarrow>
    fst ` set (va_keys v) \<subseteq> fst ` set (va_keys (foldl (import_stored E) v ss)) \<and>
    (\<forall>s \<in> set ss. \<forall>sk. pr_b64_decode (pe_prims E) (st_secret_key s) = Inr sk \<longrightarrow>
       st_key_id s \<in> fst ` set (va_keys (foldl (import_stored E) v ss)))"
proof (induction ss arbitrary: v)
  case (Cons s ss)
  show ?case
    using Cons.IH [OF import_stored_lock [OF Cons.prems], of E s] import_stored_ids [OF Cons.prems, of E s]
    by (auto split: sum.splits)
qed simp

text \<open>Loading the missing keys of the file into the vault just read from it adds nothing: a stored key the
  vault lacks is one whose secret does not decode, which the second attempt skips as the first did.\<close>

lemma load_additional_same:
  assumes "get_vault E pw d = Ok v"
  shows "load_additional_keys E pw d v = Ok v"
proof (cases "read_keys E pw d")
  case (Ok r)
  have np: "\<not> va_poisoned v"
    using loaded_ok_get_vault [OF assms] by (simp add: loaded_ok_def)
  show ?thesis
  proof (cases r)
    case (Some ss)
    then have v: "v = foldl (import_stored E) vault_new ss"
      using assms Ok by (simp add: get_vault_def)
    let ?missing = "filter (\<lambda>s. st_key_id s \<notin> set (map fst (va_keys v))) ss"
    have "\<exists>e. pr_b64_decode (pe_prims E) (st_secret_key s) = Inl e" if "s \<in> set ?missing" for s
      using that import_stored_all [of vault_new E ss]
      by (cases "pr_b64_decode (pe_prims E) (st_secret_key s)") (auto simp: v vault_new_def)
    then have "foldl (import_stored E) v ms = v" if "set ms \<subseteq> set ?missing" for ms
      using that by (induction ms) (force simp: import_stored_def vault_import_key_def)+
    then have "foldl (import_stored E) v ?missing = v"
      by blast
    then show ?thesis
      using Ok Some np by (simp add: load_additional_keys_def vault_list_keypairs_def vault_lock_def)
  qed (use Ok in \<open>simp add: load_additional_keys_def\<close>)
qed (use assms in \<open>simp_all add: get_vault_def\<close>)

section \<open>Every command refines a step\<close>

definition refines :: "string \<Rightarrow> invocation \<Rightarrow> disk \<Rightarrow> cli_end \<Rightarrow> disk \<Rightarrow> bool" where
  "refines pw i d e d' =
     (store_step pw i (stored (ci_pv (fst i)) pw d) e (stored (ci_pv (fst i)) pw d') \<and> disk_works d' \<and>
      (readable (ci_pv (fst i)) pw d \<longrightarrow> readable (ci_pv (fst i)) pw d'))"

lemma refines_same:
  "disk_works d \<Longrightarrow> store_step pw (C, serve, cmd) (stored (ci_pv C) pw d) e (stored (ci_pv C) pw d) \<Longrightarrow> refines pw (C, serve, cmd) d e d"
  by (simp add: refines_def)

lemma refines_panic:
  "disk_works d \<Longrightarrow> vault_command cmd \<Longrightarrow> key_panic C pw (stored (ci_pv C) pw d) cmd p \<Longrightarrow>
    refines pw (C, serve, Some cmd) d (Panicked p) d"
  by (rule refines_same) (simp_all add: step_panic)

lemma map_of_rev_distinct: "distinct (map fst kvs) \<Longrightarrow> map_of (rev kvs) = map_of kvs"
  by (subst map_of_inject_set) (simp_all add: rev_map [symmetric])

lemma vault_get_map_of: "vault_get v = map_of (va_keys v)"
  by (simp add: vault_get_def key_row_of_def fun_eq_iff)

lemma refines_reload:
  assumes "lawful_env (ci_pv C)" "invocation_ok (ci_pv C) C" "disk_works d"
    and "\<not> va_poisoned v" "list_all (row_consistent (ci_prims C)) (va_keys v)"
    and "persist (ci_pv C) (ci_salt C) (ci_file_nonce C) pw v d = (r, d')" "\<not> (\<exists>p. r = Panic p)"
    and "store_step pw (C, serve, cmd) (stored (ci_pv C) pw d) e (map_of (rev (va_keys v)))"
  shows "refines pw (C, serve, cmd) d e d'"
proof -
  have p: "persist (ci_pv C) (ci_salt C) (ci_file_nonce C) pw v d = (Ok (), d')"
    using persist_disk [OF assms(6)] assms(6,7) by auto
  let ?v = "foldl (\<lambda>s (k, r). vault_put k r s) vault_new (va_keys v)"
  have "get_vault (ci_pv C) pw d' = Ok ?v"
    using persist_reload_rows [OF _ _ _ _ assms(4,5) p] assms(1-3)
    by (simp add: lawful_env_def invocation_ok_def disk_works_def)
  moreover have "vault_get ?v = map_of (rev (va_keys v))"
    using vault.get_puts [where s = vault_new and kvs = "va_keys v"]
    by (simp add: vault_get_map_of vault_new_def)
  ultimately show ?thesis
    using assms(3,8) persist_disk [OF p] by (simp add: refines_def stored_Ok readable_def disk_works_def)
qed

text \<open>The two wrappers: an invalid identifier and a vault that cannot be opened change nothing.\<close>

lemma refines_with_key_id:
  assumes "disk_works d" "key_arg cmd = Some k" "with_key_id C k body d = (e, d')"
    and "valid_key C k \<Longrightarrow> body d = (e, d') \<Longrightarrow> refines pw (C, serve, Some cmd) d e d'"
  shows "refines pw (C, serve, Some cmd) d e d'"
proof (cases "validate_key_id (ci_uni_alnum C) k")
  case (Inl x)
  then have "e = Exit1 [] [''Invalid key_id: '' @ x] \<and> d' = d"
    using assms(3) by (simp add: with_key_id_def)
  then show ?thesis
    using refines_same [OF assms(1) step_invalid [OF assms(2) Inl]] by simp
next
  case (Inr u)
  then show ?thesis
    using assms(3,4) by (simp add: with_key_id_def valid_key_def)
qed

lemma refines_with_vault:
  assumes "disk_works d" "vault_command cmd" "with_vault C pw body d = (e, d')"
    and "\<And>v. get_vault (ci_pv C) pw d = Ok v \<Longrightarrow> loaded_ok (ci_prims C) v \<Longrightarrow> stored (ci_pv C) pw d = vault_get v \<Longrightarrow>
      body v d = (e, d') \<Longrightarrow> refines pw (C, serve, Some cmd) d e d'"
  shows "refines pw (C, serve, Some cmd) d e d'"
proof (cases "get_vault (ci_pv C) pw d")
  case (Ok v)
  then show ?thesis
    using assms(3,4) loaded_ok_get_vault [OF Ok] stored_Ok [OF Ok] by (simp add: with_vault_def)
next
  case (Err x)
  then show ?thesis
    using get_vault_panics(2) by blast
next
  case (Panic x)
  then have "e = Panicked x" "d' = d"
    using assms(3) by (simp_all add: with_vault_def)
  moreover have "key_panic C pw (stored (ci_pv C) pw d) cmd x"
    using get_vault_panics(1) [OF Panic] by (auto intro: panic_derivation)
  ultimately show ?thesis
    using refines_panic [OF assms(1,2)] by simp
qed

lemma refines_key_vault:
  assumes "disk_works d" "key_arg cmd = Some k" "with_key_id C k (with_vault C pw body) d = (e, d')"
    and "\<And>v. valid_key C k \<Longrightarrow> get_vault (ci_pv C) pw d = Ok v \<Longrightarrow> loaded_ok (ci_prims C) v \<Longrightarrow>
      stored (ci_pv C) pw d = vault_get v \<Longrightarrow> body v d = (e, d') \<Longrightarrow> refines pw (C, serve, Some cmd) d e d'"
  shows "refines pw (C, serve, Some cmd) d e d'"
proof (rule refines_with_key_id [OF assms(1-3)])
  assume val: "valid_key C k" and w: "with_vault C pw body d = (e, d')"
  have "vault_command cmd"
    using assms(2) by (simp add: vault_command_def)
  then show ?thesis
    using assms(4) [OF val] by (rule refines_with_vault [OF assms(1) _ w])
qed

lemma refines_init:
  assumes "lawful_env (ci_pv C)" "invocation_ok (ci_pv C) C" "disk_works d" "cli_init C pw k d = (e, d')"
  shows "refines pw (C, serve, Some (Init k)) d e d'"
proof (rule refines_key_vault [OF assms(3) _ assms(4) [unfolded cli_init_def]], goal_cases)
  case (2 v)
  obtain kp sk where kg: "keygen (ci_prims C) (ci_seed C) = (kp, sk)"
    by (cases "keygen (ci_prims C) (ci_seed C)")
  let ?v1 = "v\<lparr>va_keys := va_keys v @ [(k, kp, sk)]\<rparr>"
  have gen: "vault_generate_keypair (ci_prims C) (ci_seed C) k v = (Ok (kp_public_key kp, kp_secret_key kp), ?v1)"
    using 2(3) kg by (simp add: vault_generate_keypair_def vault_lock_def loaded_ok_def)
  obtain r d1 where r: "persist (ci_pv C) (ci_salt C) (ci_file_nonce C) pw ?v1 d = (r, d1)"
    by (cases "persist (ci_pv C) (ci_salt C) (ci_file_nonce C) pw ?v1 d")
  have c: "\<not> va_poisoned ?v1" "list_all (row_consistent (ci_prims C)) (va_keys ?v1)"
    using 2(3) kg assms(1) by (auto simp: loaded_ok_def row_consistent_def keygen_def lawful_env_def lawful_base64_def)
  have m: "map_of (rev (va_keys ?v1)) = (vault_get v)(k \<mapsto> (kp, sk))"
    using 2(3) by (simp add: loaded_ok_def map_of_rev_distinct vault_get_map_of)
  show ?case
  proof (cases r)
    case (Panic p)
    have "written C (stored (ci_pv C) pw d) (Init k) = Some (map_of (rev (va_keys ?v1)))"
      using m kg 2(4) by simp
    from persist_panics [OF r [unfolded Panic] c(1) _ this] show ?thesis
      using 2(5) gen r Panic assms(2) refines_panic [OF assms(3), of "Init k" C pw p]
      by (simp add: vault_command_def invocation_ok_def)
  next
    case (Ok u)
    then have e: "e = Printed [''Generated keypair: '' @ k, ''Public key: '' @ kp_public_key kp]" "d' = d1"
      using 2(5) gen r by simp_all
    show ?thesis
      unfolding e using refines_reload [OF assms(1-3) c r] step_init [OF 2(1) kg] Ok 2(4) m by simp
  next
    case (Err x)
    then show ?thesis
      using persist_disk [OF r] by simp
  qed
qed simp

lemma vault_store_row:
  assumes "loaded_ok P v" "vault_store P seed nonce t (as_bytes k) x v = (Ok ct, v1)"
    and "row = (case vault_get v k of Some r \<Rightarrow> r | None \<Rightarrow> keygen P seed)"
  shows "vault_get v1 = (vault_get v)(k \<mapsto> row) \<and>
    hybrid_encrypt P nonce t x (snd row) = (Ok ct :: (vault_error, ciphertext) outcome)"
proof -
  have k: "from_utf8 (as_bytes k) = Some k"
    using assms(2) by (auto simp: vault_store_def from_utf8_def bytes_to_string_as_bytes split: option.splits if_splits)
  show ?thesis
  proof (cases "vault_get v k")
    case None
    then have "v1 = v\<lparr>va_keys := va_keys v @ [(k, keygen P seed)]\<rparr>"
      "hybrid_encrypt P nonce t x (snd (keygen P seed)) = (Ok ct :: (vault_error, ciphertext) outcome)"
      using assms(1,2) k by (auto simp: vault_store_def vault_get_def vault_lock_def loaded_ok_def keygen_def
          split: outcome.splits)
    then show ?thesis
      using None assms(3) by (auto simp: vault_get_map_of map_add_def fun_eq_iff split: option.splits)
  next
    case (Some r)
    then have "v1 = v" "hybrid_encrypt P nonce t x (snd r) = (Ok ct :: (vault_error, ciphertext) outcome)"
      using assms(1,2) k by (cases r, auto simp: vault_store_def vault_get_def vault_lock_def loaded_ok_def
          split: outcome.splits)+
    then show ?thesis
      using Some assms(3) by auto
  qed
qed

lemma vault_store_fails:
  assumes "loaded_ok (ci_prims C) v" "\<not> (\<exists>ct. r = Ok ct)"
    and "vault_store (ci_prims C) (ci_seed C) (ci_nonce C) (ci_elapsed C) (as_bytes k) (as_bytes x) v = (r, v1)"
  shows "\<exists>p. key_panic C pw (vault_get v) (Encrypt k x) p \<and> (r = Panic p \<or> (\<exists>err. r = Err err \<and> p = encryption_failed err))"
proof (cases "utf8_valid (as_bytes k)")
  case False
  then show ?thesis
    using assms(3) panic_identifier [OF False, of C pw "vault_get v" x] by (auto simp: vault_store_def from_utf8_def)
next
  case True
  then have k: "from_utf8 (as_bytes k) = Some k"
    by (simp add: from_utf8_def bytes_to_string_as_bytes)
  have r: "r = hybrid_encrypt (ci_prims C) (ci_nonce C) (ci_elapsed C) (as_bytes x) (snd (pair_for C (vault_get v) k))"
    using assms(1,3) k
    by (cases "vault_get v k") (auto simp: vault_store_def vault_get_def vault_lock_def loaded_ok_def keygen_def pair_for_def)
  then show ?thesis
    using assms(2) panic_cipher [of C "vault_get v" k x pw] panic_watchdog [of C pw "vault_get v" k x]
    by (auto simp: hybrid_encrypt_def HANDSHAKE_TIMEOUT_MS_def split: option.splits if_splits)
qed

text \<open>The body of \<open>encrypt\<close>, once the vault is open.\<close>

lemma refines_stored_encrypted:
  assumes "lawful_env (ci_pv C)" "invocation_ok (ci_pv C) C" "disk_works d" "valid_key C k" "length x \<le> 1024 * 1024"
    and "loaded_ok (ci_prims C) v" "stored (ci_pv C) pw d = vault_get v"
    and "(case store_encrypted (ci_pv C) (ci_seed C) (ci_nonce C) (ci_elapsed C) (ci_salt C) (ci_file_nonce C)
                k (as_bytes x) pw v d of
           (Ok ct, v1, d1) \<Rightarrow> (Printed [''Ciphertext: '' @ ct_ciphertext ct, ''Nonce: '' @ ct_nonce ct], d1)
         | (Err e, v1, d1) \<Rightarrow> (Panicked (encryption_failed e), d1)
         | (Panic m, v1, d1) \<Rightarrow> (Panicked m, d1)) = (e, d')"
  shows "refines pw (C, serve, Some (Encrypt k x)) d e d'"
proof -
  obtain r v1 where st: "vault_store (ci_prims C) (ci_seed C) (ci_nonce C) (ci_elapsed C) (as_bytes k) (as_bytes x) v = (r, v1)"
    by fastforce
  have panic: "refines pw (C, serve, Some (Encrypt k x)) d (Panicked p) d" if "key_panic C pw (vault_get v) (Encrypt k x) p" for p
    using that assms(7) by (intro refines_panic [OF assms(3)]) (simp_all add: vault_command_def)
  show ?thesis
  proof (cases "\<exists>ct. r = Ok ct")
    case True
    then obtain ct where Ok: "r = Ok ct" ..
    obtain q d1 where q: "persist (ci_pv C) (ci_salt C) (ci_file_nonce C) pw v1 d = (q, d1)"
      by fastforce
    have l: "loaded_ok (ci_prims C) v1"
      using loaded_ok_store [OF _ assms(6) st [unfolded Ok]] assms(1) by (simp add: lawful_env_def)
    then have np: "\<not> va_poisoned v1"
      by (simp add: loaded_ok_def)
    note row = vault_store_row [OF assms(6) st [unfolded Ok] refl]
    have m: "map_of (rev (va_keys v1)) = vault_get v1"
      using l by (simp add: loaded_ok_def map_of_rev_distinct vault_get_map_of)
    show ?thesis
    proof (cases "\<exists>p. q = Panic p")
      case True
      then obtain p where p: "q = Panic p" ..
      have "written C (vault_get v) (Encrypt k x) = Some (map_of (rev (va_keys v1)))"
        using row m by (simp add: pair_for_def)
      from persist_panics [OF q [unfolded p] np _ this]
      have "e = Panicked p" "d' = d" "key_panic C pw (vault_get v) (Encrypt k x) p"
        using assms(2,8) st Ok q p by (simp_all add: store_encrypted_def invocation_ok_def)
      then show ?thesis
        using panic by simp
    next
      case False
      then have e: "e = Printed [''Ciphertext: '' @ ct_ciphertext ct, ''Nonce: '' @ ct_nonce ct]" "d' = d1"
        using assms(8) st Ok q by (auto simp: store_encrypted_def split: outcome.splits)
      have "hybrid_encrypt (ci_prims C) (ci_nonce C) (ci_elapsed C) (as_bytes x) (snd (pair_for C (vault_get v) k))
          = (Ok ct :: (string, ciphertext) outcome)"
        unfolding pair_for_def by (rule hybrid_encrypt_any [OF row [THEN conjunct2]])
      then have "store_step pw (C, serve, Some (Encrypt k x)) (stored (ci_pv C) pw d) e (map_of (rev (va_keys v1)))"
        using step_encrypt [OF assms(4,5)] row m assms(7) e(1) by (simp add: pair_for_def)
      then show ?thesis
        using refines_reload [OF assms(1-3) np _ q False] l e(2) by (simp add: loaded_ok_def)
    qed
  next
    case False
    then show ?thesis
      using vault_store_fails [OF assms(6) False st, of pw] assms(8) st panic
      by (auto simp: store_encrypted_def)
  qed
qed

lemma refines_encrypt:
  assumes "lawful_env (ci_pv C)" "invocation_ok (ci_pv C) C" "disk_works d" "cli_encrypt C pw k x d = (e, d')"
  shows "refines pw (C, serve, Some (Encrypt k x)) d e d'"
proof (rule refines_with_key_id [OF assms(3) _ assms(4) [unfolded cli_encrypt_def]], goal_cases)
  case 2
  have vc: "vault_command (Encrypt k x)"
    by (simp add: vault_command_def)
  show ?case
  proof (cases "1024 * 1024 < length x")
    case True
    then have "e = Exit1 [] [''Data too large (max 1MB)'']" "d' = d"
      using 2(2) by simp_all
    then show ?thesis
      using refines_same [OF assms(3)] step_too_large [OF 2(1) True] by simp
  next
    case False
    let ?st = "\<lambda>v. store_encrypted (ci_pv C) (ci_seed C) (ci_nonce C) (ci_elapsed C) (ci_salt C) (ci_file_nonce C)
                k (as_bytes x) pw v d"
    note w = 2(2) [unfolded if_not_P [OF False]]
    show ?thesis
    proof (rule refines_with_vault [OF assms(3) vc w], goal_cases)
      case (1 v)
      show ?case
        using refines_stored_encrypted [OF assms(1-3) 2(1) _ 1(2,3)] 1(4) False by simp
    qed
  qed
qed simp

lemma cli_decrypt_stored:
  assumes "valid_key C k" "get_vault (ci_pv C) pw d = Ok v"
  shows "cli_decrypt C pw k ct n d =
    (decrypt_end C (vault_get v) k \<lparr>ct_nonce = n, ct_ciphertext = ct, ct_key_id = k\<rparr>, d)"
proof -
  let ?c = "\<lparr>ct_nonce = n, ct_ciphertext = ct, ct_key_id = k\<rparr>"
  have "\<not> va_poisoned v"
    using loaded_ok_get_vault [OF assms(2)] by (simp add: loaded_ok_def)
  moreover have "find (\<lambda>(i, _, _). i = k) (va_keys v) = map_option (\<lambda>(kp, sk). (k, kp, sk)) (vault_get v k)"
    using find_key_row [of k "va_keys v"] by (simp add: vault_get_def)
  ultimately have "fst (retrieve_decrypted (ci_pv C) (ci_elapsed C) k ?c pw v d) =
      (case vault_get v k of None \<Rightarrow> Err ''Key not found''
       | Some row \<Rightarrow> hybrid_decrypt (ci_prims C) (ci_elapsed C) ?c (snd row))"
    using load_additional_same [OF assms(2)]
    by (auto simp: retrieve_decrypted_def vault_retrieve_def vault_lock_def split: option.splits outcome.splits)
  then show ?thesis
    using assms by (auto simp: cli_decrypt_def with_key_id_def with_vault_def valid_key_def decrypt_end_def
        split: option.splits outcome.splits prod.splits)
qed

lemma refines_decrypt:
  assumes "disk_works d" "cli_decrypt C pw k ct n d = (e, d')"
  shows "refines pw (C, serve, Some (Decrypt k ct n)) d e d'"
proof (rule refines_key_vault [OF assms(1) _ assms(2) [unfolded cli_decrypt_def]], goal_cases)
  case (2 v)
  show ?case
    using refines_same [OF assms(1)] step_decrypt [OF 2(1)] 2(4) cli_decrypt_stored [OF 2(1,2), of ct n] assms(2)
    by auto
qed simp

lemma refines_list_keys:
  assumes "disk_works d" "cli_list_keys C pw d = (e, d')"
  shows "refines pw (C, serve, Some ListKeys) d e d'"
proof (rule refines_with_vault [OF assms(1) _ assms(2) [unfolded cli_list_keys_def]], goal_cases)
  case (2 v)
  let ?ks = "filter (\<lambda>k. take 2 k \<noteq> ''__'') (map fst (va_keys v))"
  have "distinct ?ks" "set ?ks = {k \<in> dom (vault_get v). take 2 k \<noteq> ''__''}"
    using 2(2) by (auto simp: loaded_ok_def distinct_map_filter vault_get_map_of dom_map_of_conv_image_fst)
  then have "store_step pw (C, serve, Some ListKeys) (vault_get v) (Printed (listing ?ks)) (vault_get v)"
    by (rule step_list)
  moreover have "e = Printed (listing ?ks)" "d' = d"
    using 2(2,4) by (simp_all add: vault_list_keypairs_def vault_lock_def loaded_ok_def listing_def Let_def)
  ultimately show ?case
    using refines_same [OF assms(1)] 2(3) by simp
qed (simp add: vault_command_def)

lemma refines_delete_key:
  assumes "lawful_env (ci_pv C)" "invocation_ok (ci_pv C) C" "disk_works d" "cli_delete_key C pw k d = (e, d')"
  shows "refines pw (C, serve, Some (DeleteKey k)) d e d'"
proof (rule refines_key_vault [OF assms(3) _ assms(4) [unfolded cli_delete_key_def]], goal_cases)
  case (2 v)
  have rm: "vault_remove_keypair k v = (Ok (), vault_del k v)"
    using 2(3) by (simp add: vault_remove_del loaded_ok_def)
  obtain q d1 where q: "persist (ci_pv C) (ci_salt C) (ci_file_nonce C) pw (vault_del k v) d = (q, d1)"
    by fastforce
  have l: "\<not> va_poisoned (vault_del k v)" "distinct (map fst (va_keys (vault_del k v)))"
    "list_all (row_consistent (ci_prims C)) (va_keys (vault_del k v))"
    using 2(3) by (auto simp: loaded_ok_def vault_del_def distinct_map_filter list_all_iff)
  have m: "map_of (rev (va_keys (vault_del k v))) = (vault_get v)(k := None)"
    using l(2) vault.get_del [where s = v and k = k] by (simp add: map_of_rev_distinct vault_get_map_of)
  show ?case
  proof (cases "\<exists>p. q = Panic p")
    case True
    then obtain p where p: "q = Panic p" ..
    have "written C (stored (ci_pv C) pw d) (DeleteKey k) = Some (map_of (rev (va_keys (vault_del k v))))"
      using m 2(4) by simp
    from persist_panics [OF q [unfolded p] l(1) _ this] have "e = Panicked p" "d' = d"
        "key_panic C pw (stored (ci_pv C) pw d) (DeleteKey k) p"
      using 2(5) rm q p assms(2) by (simp_all add: invocation_ok_def)
    then show ?thesis
      using refines_panic [OF assms(3), of "DeleteKey k" C pw p] by (simp add: vault_command_def)
  next
    case False
    then have e: "e = Printed [''Deleted key: '' @ k]" "d' = d1"
      using 2(5) rm q by (auto split: outcome.splits)
    show ?thesis
      unfolding e using m refines_reload [OF assms(1-3) l(1,3) q False] step_delete [OF 2(1)] 2(4) by simp
  qed
qed simp

lemma refines_clear_cache:
  assumes "disk_works d" "cli_clear_cache C d = (e, d')"
  shows "refines pw (C, serve, Some ClearCache) d e d'"
proof -
  have "stored (ci_pv C) pw d' = (if ci_has_home C \<and> ci_remove_ok C then Map.empty else stored (ci_pv C) pw d)"
    "readable (ci_pv C) pw d \<longrightarrow> readable (ci_pv C) pw d'" "disk_works d'"
    "e = Printed [''Vault cleared (all keys removed)'']"
    using assms by (auto simp: cli_clear_cache_def stored_def readable_def disk_works_def get_vault_def read_keys_def
        vault_get_map_of vault_new_def)
  then show ?thesis
    using step_clear [of pw C serve "stored (ci_pv C) pw d"] by (simp add: refines_def)
qed

text \<open>The remaining commands leave the key file alone.\<close>

lemma cli_main_other:
  assumes "\<not> vault_command cmd" "cmd \<noteq> ClearCache" "cli_main C serve key (Some cmd) d = (e, d')"
  shows "dk_keys d' = dk_keys d \<and> dk_read_error d' = dk_read_error d \<and> dk_write_error d' = dk_write_error d"
proof -
  have "dk_keys d1 = dk_keys d \<and> dk_read_error d1 = dk_read_error d \<and> dk_write_error d1 = dk_write_error d"
    if "persist_mldsa_keys E salt nonce kps pw d = (r, d1)" for E salt nonce kps pw r d1
    using that by (auto simp: persist_mldsa_keys_def Let_def split: option.splits sum.splits outcome.splits)
  note p = this
  show ?thesis
  proof (cases cmd)
    case (MldsaInit k)
    then show ?thesis
      using assms(3) by (auto simp: cli_main_def Let_def cli_mldsa_init_def
          split: sum.splits option.splits prod.splits outcome.splits dest: p)
  qed (use assms in \<open>auto simp: cli_main_def vault_command_def cli_shamir_split_def cli_shamir_join_def cli_info_def
        cli_mldsa_sign_def cli_mldsa_verify_def cli_mldsa_list_def with_key_id_def Let_def
        split: sum.splits option.splits outcome.splits if_splits\<close>)
qed

lemma split_panics:
  "split secret t n rand = Panic p \<Longrightarrow> 2 \<le> t \<Longrightarrow> t \<le> n \<Longrightarrow> 250 < n \<or> (\<exists>b \<in> set secret. 251 \<le> unat b)"
  by (auto simp: split_def list_all_iff word_less_nat_alt PRIME_def not_less split: if_splits)

lemma not_Err_split: "split secret t n rand \<noteq> Err e"
  by (simp add: split_def)

lemma find_mldsa_not_Panic: "find_mldsa_key k kps \<noteq> Panic p"
  by (simp add: find_mldsa_key_def split: option.split prod.split)

lemma signing_panics:
  "sign_with_vault (ci_pv C) rnd k x pw d = Panic p \<Longrightarrow> derivation_fails C pw"
  "verify_with_vault (ci_pv C) k x sig pw d = Panic p \<Longrightarrow> derivation_fails C pw"
proof -
  have "\<exists>e. mldsa_sign D rnd x k = Inl e" if "\<forall>y. mldsa_sign D rnd x k \<noteq> Inr y" for D k
    using that by (cases "mldsa_sign D rnd x k") auto
  then show "sign_with_vault (ci_pv C) rnd k x pw d = Panic p \<Longrightarrow> derivation_fails C pw"
    by (force simp: sign_with_vault_def bind_Panic find_mldsa_not_Panic dest: load_mldsa_panics split: sum.splits)
  have "\<exists>e. mldsa_verify D x sig k = Inl e" if "\<forall>y. mldsa_verify D x sig k \<noteq> Inr y" for D k
    using that by (cases "mldsa_verify D x sig k") auto
  then show "verify_with_vault (ci_pv C) k x sig pw d = Panic p \<Longrightarrow> derivation_fails C pw"
    by (force simp: verify_with_vault_def bind_Panic find_mldsa_not_Panic dest: load_mldsa_panics split: sum.splits)
qed

lemma persist_mldsa_panics:
  assumes "persist_mldsa_keys (ci_pv C) (ci_salt C) (ci_file_nonce C) kps pw d = (Panic p, d')"
  shows "argon2_key C pw (ci_salt C) = None \<or> (\<exists>file_key payload. argon2_key C pw (ci_salt C) = Some file_key \<and>
    pr_aes_encrypt (ci_prims C) file_key (ci_file_nonce C) payload = None)"
  using assms by (auto simp: persist_mldsa_keys_def Let_def split: option.splits sum.splits outcome.splits
      dest!: encrypt_file_panics)

lemma cli_main_other_panics:
  assumes "\<not> vault_command cmd" "cmd \<noteq> ClearCache" "cli_main C serve key (Some cmd) d = (Panicked p, d')"
  shows "other_panic C serve (get_passphrase key) cmd"
proof (cases cmd)
  case (ShamirJoin texts)
  then show ?thesis
    using assms(3) reconstruct_panics_ill_formed
    by (force simp: cli_main_def cli_shamir_join_def Let_def split: if_splits sum.splits outcome.splits)
next
  case (ShamirSplit s t n)
  then show ?thesis
    using assms(3) split_panics [of "as_bytes s" t n "ci_rand C" p] not_Err_split
    by (auto simp: cli_main_def cli_shamir_split_def Let_def split: if_splits outcome.splits)
next
  case (MldsaInit k)
  then show ?thesis
    using assms(3) by (auto simp: cli_main_def cli_mldsa_init_def Let_def
        split: sum.splits option.splits prod.splits outcome.splits dest!: persist_mldsa_panics)
next
  case (MldsaSign k x)
  then show ?thesis
    using assms(3) by (auto simp: cli_main_def cli_mldsa_sign_def with_key_id_def Let_def
        split: sum.splits option.splits outcome.splits dest: signing_panics(1))
next
  case (MldsaVerify k x sig)
  then show ?thesis
    using assms(3) by (auto simp: cli_main_def cli_mldsa_verify_def with_key_id_def
        split: sum.splits option.splits outcome.splits if_splits dest: signing_panics(2))
next
  case MldsaList
  then show ?thesis
    using assms(3) by (auto simp: cli_main_def cli_mldsa_list_def list_mldsa_keys_def bind_Panic
        split: outcome.splits dest: load_mldsa_panics)
next
  case (McpServer mode)
  then show ?thesis
    using assms(3) by (auto simp: cli_main_def Let_def split: if_splits outcome.splits)
qed (use assms in \<open>simp_all add: vault_command_def cli_main_def cli_info_def\<close>)

lemma refines_main:
  assumes "lawful_env (ci_pv C)" "invocation_ok (ci_pv C) C" "disk_works d" "cli_main C serve key cmd d = (e, d')"
  shows "refines (get_passphrase key) (C, serve, cmd) d e d'"
proof (cases cmd)
  case None
  then show ?thesis
    using assms(3,4) by (auto simp: cli_main_def Let_def intro!: refines_same step_usage)
next
  case (Some c)
  show ?thesis
  proof (cases "\<not> vault_command c \<and> c \<noteq> ClearCache")
    case True
    then have k: "dk_keys d' = dk_keys d" "dk_read_error d' = dk_read_error d" "dk_write_error d' = dk_write_error d"
      using cli_main_other [of c C serve key d e d'] assms(4) Some by simp_all
    then show ?thesis
      using assms(3,4) True Some stored_cong [OF k(1,2)] get_vault_cong [OF k(1,2)]
        cli_main_other_panics [of c C serve key d _ d']
      by (auto simp: refines_def readable_def disk_works_def intro!: step_other)
  next
    case False
    then show ?thesis
      using refines_init [OF assms(1-3)] refines_encrypt [OF assms(1-3)] refines_decrypt [OF assms(3)]
        refines_list_keys [OF assms(3)] refines_delete_key [OF assms(1-3)] refines_clear_cache [OF assms(3)]
        assms(4) Some
      by (cases c) (simp_all add: cli_main_def vault_command_def)
  qed
qed

section \<open>Sessions\<close>

lemma refines_session:
  assumes "lawful_env E" "disk_works d" "list_all (\<lambda>(C, _, _). invocation_ok E C) invs"
    and "cli_session key invs d = (es, d')"
  shows "store_run (get_passphrase key) invs (stored E (get_passphrase key) d) es (stored E (get_passphrase key) d') \<and> disk_works d' \<and>
    (readable E (get_passphrase key) d \<longrightarrow> readable E (get_passphrase key) d')"
  using assms(2-)
proof (induction invs arbitrary: d es)
  case (Cons i rest)
  obtain C serve cmd where i: "i = (C, serve, cmd)"
    by (cases i)
  obtain e d1 where m: "cli_main C serve key cmd d = (e, d1)"
    by fastforce
  obtain es1 where es: "cli_session key rest d1 = (es1, d')" "es = e # es1"
    using Cons.prems(3) i m by (auto split: prod.splits)
  have C: "ci_pv C = E" "invocation_ok E C" "list_all (\<lambda>(C, _, _). invocation_ok E C) rest"
    using Cons.prems(2) i by (auto simp: invocation_ok_def)
  have "refines (get_passphrase key) (C, serve, cmd) d e d1"
    by (rule refines_main [OF _ _ Cons.prems(1) m]) (use assms(1) C in simp_all)
  then show ?case
    using Cons.IH [OF _ C(3) es(1)] C(1) i es(2) by (auto simp: refines_def intro: run_cons)
qed (simp add: run_nil)

text \<open>What every step keeps, every run keeps.\<close>

lemma store_run_invariant:
  assumes "store_run pw invs m es m'"
    and "\<And>C serve cmd m e m'. store_step pw (C, serve, cmd) m e m' \<Longrightarrow> I m \<Longrightarrow> P cmd \<Longrightarrow> I m'"
  shows "I m \<Longrightarrow> list_all (\<lambda>(_, _, cmd). P cmd) invs \<Longrightarrow> I m'"
  using assms(1) by induction (auto dest: assms(2) split: prod.split_asm)

fun removes_key :: "string \<Rightarrow> command option \<Rightarrow> bool" where
  "removes_key k (Some (Init i)) = (i = k)"
| "removes_key k (Some (DeleteKey i)) = (i = k)"
| "removes_key k (Some ClearCache) = True"
| "removes_key k _ = False"

fun makes_key :: "string \<Rightarrow> command option \<Rightarrow> bool" where
  "makes_key k (Some (Init i)) = (i = k)"
| "makes_key k (Some (Encrypt i x)) = (i = k)"
| "makes_key k _ = False"

lemma store_step_keeps:
  "store_step pw (C, serve, cmd) m e m' \<Longrightarrow> m k = Some row \<Longrightarrow> \<not> removes_key k cmd \<Longrightarrow> m' k = Some row"
  by (elim store_step.cases) (auto simp: pair_for_def)

lemma store_step_absent:
  "store_step pw (C, serve, cmd) m e m' \<Longrightarrow> m k = None \<Longrightarrow> \<not> makes_key k cmd \<Longrightarrow> m' k = None"
  by (elim store_step.cases) auto

lemma store_run_keeps:
  assumes "store_run pw invs m es m'" "m k = Some row" "list_all (\<lambda>(_, _, cmd). \<not> removes_key k cmd) invs"
  shows "m' k = Some row"
  by (rule store_run_invariant [where I = "\<lambda>m. m k = Some row" and P = "\<lambda>cmd. \<not> removes_key k cmd", OF assms(1) _ assms(2,3)])
    (rule store_step_keeps)

lemma store_run_absent:
  assumes "store_run pw invs m es m'" "m k = None" "list_all (\<lambda>(_, _, cmd). \<not> makes_key k cmd) invs"
  shows "m' k = None"
  by (rule store_run_invariant [where I = "\<lambda>m. m k = None" and P = "\<lambda>cmd. \<not> makes_key k cmd", OF assms(1) _ assms(2,3)])
    (rule store_step_absent)

text \<open>
  C3. The command line refines a store of keys.  On a disk that works, every session of commands with one
  passphrase ends as the specification allows.  Each command on the keys (\<open>init\<close>, \<open>encrypt\<close>,
  \<open>decrypt\<close>, \<open>list-keys\<close>, \<open>delete-key\<close>, \<open>clear-cache\<close>) prints what the map of stored keys says and changes the
  map at its own key only (\<open>init\<close> and \<open>encrypt\<close> set it, \<open>delete-key\<close> unsets it, \<open>clear-cache\<close> empties the
  map when the files can be removed), or is refused, or panics and changes nothing.  Such a panic has
  the message and one of the reasons of \<open>key_panic\<close>: Argon2id refuses this passphrase with a salt of 16
  bytes, the cipher refuses the file this command writes or the data it encrypts, the encryption takes
  more than 200 ms; or it is that of a \<open>decrypt\<close> whose nonce does not have 12 bytes.  The other commands
  never change the map and panic only for the reason \<open>other_panic\<close> gives for each; what
  they print is not part of this specification.
\<close>

theorem cli_refines_store:
  assumes "lawful_env E" "disk_works d" "list_all (\<lambda>(C, _, _). invocation_ok E C) invs"
    and "cli_session key invs d = (es, d')"
  shows "store_run (get_passphrase key) invs (stored E (get_passphrase key) d) es (stored E (get_passphrase key) d')"
  using refines_session [OF assms] by blast

lemma demo_lawful_env: "lawful_env demo_env" "invocation_ok demo_env demo_cli" "disk_works empty_disk"
  using demo_lawful by (simp_all add: lawful_env_def invocation_ok_def demo_cli_def disk_works_def empty_disk_def)

theorem cli_refines_store_witness:
  "\<exists>es d'. cli_session (Some ''pw'') [(demo_cli, \<lambda>_. Ok [], Some (Init ''k'')), (demo_cli, \<lambda>_. Ok [], Some ListKeys)]
       empty_disk = (es, d') \<and>
     store_run ''pw'' [(demo_cli, \<lambda>_. Ok [], Some (Init ''k'')), (demo_cli, \<lambda>_. Ok [], Some ListKeys)]
       (stored demo_env ''pw'' empty_disk) es (stored demo_env ''pw'' d')"
proof -
  let ?invs = "[(demo_cli, \<lambda>_. Ok [], Some (Init ''k'')), (demo_cli, \<lambda>_. Ok [], Some ListKeys)]"
  obtain es d' where s: "cli_session (Some ''pw'') ?invs empty_disk = (es, d')"
    by (cases "cli_session (Some ''pw'') ?invs empty_disk")
  then show ?thesis
    using cli_refines_store [OF demo_lawful_env(1,3) _ s] demo_lawful_env(2) by (auto simp: get_passphrase_def)
qed

text \<open>
  C2. What \<open>encrypt\<close> prints, \<open>decrypt\<close> reads, at any later time.  On a working disk and with one
  passphrase, the printed ciphertext and nonce decrypt to the data again, in a run of \<open>decrypt\<close> that
  does not trip the watchdog, after any session of further
  commands, of any length and with any results, that does not delete the key, generate it anew or
  clear the vault; in particular encrypting more data under the same identifier, or making and deleting
  other keys, never makes earlier output unreadable.
\<close>

theorem cli_decrypts_later:
  assumes "lawful_env (ci_pv C)" "invocation_ok (ci_pv C) C" "length (ci_nonce C) = 12" "disk_works d"
    and "cli_encrypt C (get_passphrase key) k x d = (Printed [''Ciphertext: '' @ ct, ''Nonce: '' @ n], d1)"
    and "list_all (\<lambda>(C', _, _). invocation_ok (ci_pv C) C') invs" "list_all (\<lambda>(_, _, cmd). \<not> removes_key k cmd) invs"
    and "cli_session key invs d1 = (es, d2)"
    and "utf8_valid (as_bytes x)" "ci_pv C' = ci_pv C" "ci_uni_alnum C' = ci_uni_alnum C" "ci_elapsed C' \<le> 200"
  shows "cli_decrypt C' (get_passphrase key) k ct n d2 = (Printed [x], d2)"
proof -
  let ?E = "ci_pv C" and ?pw = "get_passphrase key"
  have r: "refines ?pw (C, serve, Some (Encrypt k x)) d (Printed [''Ciphertext: '' @ ct, ''Nonce: '' @ n]) d1"
    by (rule refines_encrypt [OF assms(1,2,4,5)])
  have "readable ?E ?pw d"
    using assms(5) by (auto simp: cli_encrypt_def with_key_id_def with_vault_def readable_def
        split: sum.splits if_splits outcome.splits)
  then have "readable ?E ?pw d1" "disk_works d1"
    using r by (simp_all add: refines_def)
  then have run: "store_run ?pw invs (stored ?E ?pw d1) es (stored ?E ?pw d2)" and "readable ?E ?pw d2"
    using refines_session [OF assms(1) _ assms(6,8)] by blast+
  then obtain v where v: "get_vault ?E ?pw d2 = Ok v"
    by (auto simp: readable_def)
  let ?row = "pair_for C (stored ?E ?pw d) k"
  have "store_step ?pw (C, serve, Some (Encrypt k x)) (stored ?E ?pw d) (Printed [''Ciphertext: '' @ ct, ''Nonce: '' @ n]) (stored ?E ?pw d1)"
    using r by (simp add: refines_def)
  then obtain c where val: "valid_key C k" and c: "ct_ciphertext c = ct" "ct_nonce c = n"
    and h: "hybrid_encrypt (ci_prims C) (ci_nonce C) (ci_elapsed C) (as_bytes x) (snd ?row) = (Ok c :: (string, ciphertext) outcome)"
    and row: "stored ?E ?pw d1 k = Some ?row"
    by (rule store_step_encryptE) (auto simp: vault_command_def)
  have "stored ?E ?pw d2 k = Some ?row"
    by (rule store_run_keeps [OF run row assms(7)])
  then have "vault_get v k = Some ?row"
    using stored_Ok [OF v] by simp
  moreover have "lawful_base64 (ci_prims C)" "lawful_aes (ci_prims C)"
    using assms(1) lawful_seal_aes by (simp_all add: lawful_env_def)
  then have "hybrid_decrypt (ci_prims C) (ci_elapsed C') \<lparr>ct_nonce = n, ct_ciphertext = ct, ct_key_id = k\<rparr> (snd ?row) = Ok (as_bytes x)"
    using hybrid_decrypt_encrypt [OF _ _ assms(3,12) h]
    by (subst hybrid_decrypt_cong [where b = c]) (simp_all add: c)
  ultimately show ?thesis
    using cli_decrypt_stored [of C' k ?pw d2 v ct n] v val assms(10,11) from_utf8_lossy_valid [OF assms(9)]
    by (simp add: valid_key_def decrypt_end_def)
qed

theorem cli_decrypts_later_witness:
  "\<exists>ct n d. cli_decrypt demo_cli ''pw'' ''k'' ct n d = (Printed [''hi''], d)"
proof -
  obtain ct n d1 where e: "cli_encrypt demo_cli ''pw'' ''k'' ''hi'' empty_disk =
      (Printed [''Ciphertext: '' @ ct, ''Nonce: '' @ n], d1)"
    using demo_encrypt by blast
  let ?invs = "[(demo_cli, \<lambda>_. Ok [], Some (Encrypt ''k'' ''ho'')), (demo_cli, \<lambda>_. Ok [], Some (DeleteKey ''j''))]"
  obtain es d2 where s: "cli_session (Some ''pw'') ?invs d1 = (es, d2)"
    by (cases "cli_session (Some ''pw'') ?invs d1")
  have u: "utf8_valid (as_bytes ''hi'')"
    by (rule utf8_valid_ascii) (simp add: of_char_def)
  have c: "ci_pv demo_cli = demo_env" "length (ci_nonce demo_cli) = 12" "ci_elapsed demo_cli \<le> 200"
    by (simp_all add: demo_cli_def)
  have pw: "get_passphrase (Some ''pw'') = ''pw''"
    by (simp add: get_passphrase_def)
  have "cli_decrypt demo_cli (get_passphrase (Some ''pw'')) ''k'' ct n d2 = (Printed [''hi''], d2)"
    by (rule cli_decrypts_later [OF _ _ c(2) demo_lawful_env(3) _ _ _ s u refl refl c(3)])
      (use demo_lawful_env c e pw in simp_all)
  then show ?thesis
    unfolding pw by blast
qed

text \<open>
  Deleted keys are gone.  After \<open>delete-key\<close> reports the deletion, and in any session of further
  commands with the passphrase that neither generates the key nor encrypts under it again, every
  \<open>decrypt\<close> with it is refused with the same message, whatever ciphertext is given, and
  no listing shows the key.
\<close>

theorem cli_deleted_key_gone:
  assumes "lawful_env (ci_pv C)" "invocation_ok (ci_pv C) C" "disk_works d"
    and "cli_delete_key C (get_passphrase key) k d = (Printed out, d1)"
    and "list_all (\<lambda>(C', _, _). invocation_ok (ci_pv C) C') invs" "list_all (\<lambda>(_, _, cmd). \<not> makes_key k cmd) invs"
    and "cli_session key invs d1 = (es, d2)"
    and "ci_pv C' = ci_pv C" "ci_uni_alnum C' = ci_uni_alnum C"
  shows "cli_decrypt C' (get_passphrase key) k ct n d2 = (Exit1 [] [''Decryption failed: '' @ ''Key not found''], d2) \<and>
    (\<exists>ks. k \<notin> set ks \<and> cli_list_keys C' (get_passphrase key) d2 = (Printed (listing ks), d2))"
proof -
  let ?E = "ci_pv C" and ?pw = "get_passphrase key"
  have r: "refines ?pw (C, serve, Some (DeleteKey k)) d (Printed out) d1"
    by (rule refines_delete_key [OF assms(1-4)])
  have "readable ?E ?pw d"
    using assms(4) by (auto simp: cli_delete_key_def with_key_id_def with_vault_def readable_def
        split: sum.splits outcome.splits)
  then have "readable ?E ?pw d1" "disk_works d1"
    using r by (simp_all add: refines_def)
  then have run: "store_run ?pw invs (stored ?E ?pw d1) es (stored ?E ?pw d2)" and "readable ?E ?pw d2" "disk_works d2"
    using refines_session [OF assms(1) _ assms(5,7)] by blast+
  then obtain v where v: "get_vault ?E ?pw d2 = Ok v"
    by (auto simp: readable_def)
  have "store_step ?pw (C, serve, Some (DeleteKey k)) (stored ?E ?pw d) (Printed out) (stored ?E ?pw d1)"
    using r by (simp add: refines_def)
  then have val: "valid_key C k" and none: "stored ?E ?pw d1 k = None"
    by (auto simp: vault_command_def elim!: store_step_deleteE)
  have none2: "stored ?E ?pw d2 k = None"
    by (rule store_run_absent [OF run none assms(6)])
  then have gone: "vault_get v k = None"
    using stored_Ok [OF v] by simp
  have "cli_list_keys C' ?pw d2 = (Printed (listing (filter (\<lambda>k. take 2 k \<noteq> ''__'') (map fst (va_keys v)))), d2)"
    using v assms(8) loaded_ok_get_vault [OF v]
    by (simp add: cli_list_keys_def with_vault_def vault_list_keypairs_def vault_lock_def loaded_ok_def listing_def Let_def)
  moreover have "k \<notin> set (map fst (va_keys v))"
    using gone by (simp add: vault_get_def key_not_in)
  ultimately show ?thesis
    using cli_decrypt_stored [of C' k ?pw d2 v ct n] v val gone assms(8,9)
    by (auto simp: valid_key_def decrypt_end_def intro!: exI)
qed

theorem cli_deleted_key_gone_witness:
  "\<exists>d ct n. cli_decrypt demo_cli ''pw'' ''k'' ct n d = (Exit1 [] [''Decryption failed: '' @ ''Key not found''], d)"
proof -
  obtain d1 where p: "persist demo_env (replicate 16 0) (replicate 12 1) ''pw'' (vault_del ''k'' vault_new) empty_disk = (Ok (), d1)"
    using demo_persist [of "vault_del ''k'' vault_new" "replicate 16 0" "replicate 12 1" "''pw''"]
    by (auto simp: vault_del_def vault_new_def)
  have pw: "get_passphrase (Some ''pw'') = ''pw''"
    by (simp add: get_passphrase_def)
  have "cli_delete_key demo_cli ''pw'' ''k'' empty_disk = (Printed [''Deleted key: '' @ ''k''], d1)"
    using p by (simp add: cli_delete_key_def with_key_id_def with_vault_def validate_k get_vault_def read_keys_def
        vault_remove_del vault_new_def demo_cli_def empty_disk_def)
  then have d: "cli_delete_key demo_cli (get_passphrase (Some ''pw'')) ''k'' empty_disk = (Printed [''Deleted key: '' @ ''k''], d1)"
    unfolding pw .
  let ?invs = "[(demo_cli, \<lambda>_. Ok [], Some ListKeys)] :: invocation list"
  obtain es d2 where s: "cli_session (Some ''pw'') ?invs d1 = (es, d2)"
    by (cases "cli_session (Some ''pw'') ?invs d1")
  have c: "ci_pv demo_cli = demo_env"
    by (simp add: demo_cli_def)
  have "cli_decrypt demo_cli (get_passphrase (Some ''pw'')) ''k'' [] [] d2 =
      (Exit1 [] [''Decryption failed: '' @ ''Key not found''], d2)"
    by (rule cli_deleted_key_gone [OF _ _ demo_lawful_env(3) d _ _ s refl refl, THEN conjunct1])
      (use demo_lawful_env c in simp_all)
  then show ?thesis
    unfolding pw by blast
qed

end
