(* ===== verification/Cli_Signing.thy ===== *)
theory Cli_Signing
  imports Cli_Store
begin

text \<open>
  The signing commands of \<open>src/main.rs\<close> across runs of the program: a key made by \<open>mldsa-init\<close> signs and
  verifies later, with anything in between that does not write the file of signing keys.
\<close>

section \<open>Who writes the signing keys\<close>

fun writes_signing :: "command option \<Rightarrow> bool" where
  "writes_signing (Some (MldsaInit k)) = (k \<noteq> None)"
| "writes_signing (Some ClearCache) = True"
| "writes_signing _ = False"

lemma persist_signing:
  "persist E salt nonce pw v d = (r, d') \<Longrightarrow> dk_mldsa d' = dk_mldsa d \<and> dk_read_error d' = dk_read_error d"
  by (auto simp: persist_def Let_def split: outcome.splits sum.splits if_splits)

lemma main_keeps_signing:
  assumes "cli_main C serve key cmd d = (e, d')" "\<not> writes_signing cmd"
  shows "dk_mldsa d' = dk_mldsa d \<and> dk_read_error d' = dk_read_error d"
proof (cases cmd)
  case None
  then show ?thesis
    using assms(1) by (auto simp: cli_main_def Let_def)
next
  case (Some c)
  show ?thesis
  proof (cases c)
    case (Init k)
    then show ?thesis
      using assms(1) Some by (auto simp: cli_main_def cli_init_def with_key_id_def with_vault_def Let_def
          split: sum.splits prod.splits outcome.splits dest: persist_signing)
  next
    case (Encrypt k x)
    then show ?thesis
      using assms(1) Some by (auto simp: cli_main_def cli_encrypt_def with_key_id_def with_vault_def store_encrypted_def Let_def
          split: sum.splits prod.splits outcome.splits if_splits dest: persist_signing)
  next
    case (DeleteKey k)
    then show ?thesis
      using assms(1) Some by (auto simp: cli_main_def cli_delete_key_def with_key_id_def with_vault_def Let_def
          split: sum.splits prod.splits outcome.splits dest: persist_signing)
  next
    case (Decrypt k ct n)
    then show ?thesis
      using assms(1) Some by (auto simp: cli_main_def cli_decrypt_def with_key_id_def with_vault_def Let_def
          split: sum.splits prod.splits outcome.splits)
  next
    case (MldsaInit k)
    then show ?thesis
      using assms Some by (auto simp: cli_main_def cli_mldsa_init_def Let_def split: sum.splits)
  qed (use assms Some in \<open>auto simp: cli_main_def cli_list_keys_def cli_shamir_split_def cli_shamir_join_def
        cli_info_def cli_mldsa_sign_def cli_mldsa_verify_def cli_mldsa_list_def with_key_id_def with_vault_def Let_def
        split: sum.splits option.splits outcome.splits if_splits\<close>)
qed

lemma session_keeps_signing:
  "cli_session key invs d = (es, d') \<Longrightarrow> list_all (\<lambda>(_, _, cmd). \<not> writes_signing cmd) invs \<Longrightarrow>
    dk_mldsa d' = dk_mldsa d \<and> dk_read_error d' = dk_read_error d"
proof (induction invs arbitrary: d es)
  case (Cons i rest)
  then show ?case
    by (cases i) (auto split: prod.splits dest!: main_keeps_signing)
qed simp

lemma load_mldsa_cong:
  assumes "dk_mldsa d' = dk_mldsa d" "dk_read_error d' = dk_read_error d"
  shows "load_mldsa_keys E pw d' = load_mldsa_keys E pw d"
  unfolding load_mldsa_keys_def assms by (rule refl)

section \<open>Signing in a later run\<close>

text \<open>
  C31. Keys made by \<open>mldsa-init\<close> sign and verify later.  When \<open>mldsa-init\<close> with an identifier reports that it
  stored the pair, then after any session of further commands, under any passphrase, that neither stores
  another pair nor clears the vault, \<open>mldsa-sign\<close> with the passphrase and the identifier prints a
  signature, \<open>mldsa-verify\<close> in yet another run finds the printed text valid, and \<open>mldsa-list\<close> shows
  exactly this key: a pair stored before is no longer there, and signing with any other identifier is
  refused.
\<close>

theorem cli_signs_later:
  assumes "lawful_base64 (ci_prims C)" "lawful_seal (ci_prims C)" "lawful_mldsa_json (ci_pv C)" "lawful_dsa (pe_dsa (ci_pv C))"
    and "length (ci_salt C) = 16" "length (ci_file_nonce C) = 12" "dk_read_error d = None"
    and "cli_mldsa_init C pw (Some k) d = (Printed out, d1)"
    and "cli_session key invs d1 = (es, d2)" "list_all (\<lambda>(_, _, cmd). \<not> writes_signing cmd) invs"
    and "ci_pv C1 = ci_pv C" "ci_uni_alnum C1 = ci_uni_alnum C" "ci_pv C2 = ci_pv C" "ci_uni_alnum C2 = ci_uni_alnum C"
  shows "\<exists>sig. cli_mldsa_sign C1 pw k (Some x) d2 =
       (Printed [''Data Hash (SHA3-512): '' @ pr_b64_encode (ci_prims C) (hash_data (pe_dsa (ci_pv C)) (as_bytes x)),
          ''Signature: '' @ sig], d2) \<and>
     cli_mldsa_verify C2 pw k x sig d2 = (Printed [''Signature VALID''], d2) \<and>
     cli_mldsa_list C2 pw d2 = (Printed [''Stored ML-DSA keys:'', ''  - '' @ k], d2) \<and>
     (other = k \<or> (\<exists>errs. cli_mldsa_sign C1 pw other (Some x) d2 = (Exit1 [] errs, d2)))"
proof -
  let ?E = "ci_pv C" and ?D = "pe_dsa (ci_pv C)"
  obtain kp where kp: "mldsa_generate_keypair ?D (ci_dsa_seed C) = Inr kp" and val: "validate_key_id (ci_uni_alnum C) k = Inr ()"
    and p: "persist_mldsa_keys ?E (ci_salt C) (ci_file_nonce C) [(k, kp)] pw d = (Ok (), d1)"
    using assms(8) by (auto simp: cli_mldsa_init_def Let_def split: sum.splits prod.splits outcome.splits)
  note l1 = load_persist_mldsa [OF assms(1-3,5-7) p]
  have l: "load_mldsa_keys ?E pw d2 = Ok [(k, kp)]"
    using session_keeps_signing [OF assms(9,10)] load_mldsa_cong [of d2 d1 ?E pw] l1(1) by simp
  obtain sig where s: "mldsa_sign ?D (ci_sign_rnd C1) (as_bytes x) (mk_signing_key kp) = Inr sig"
    "mldsa_verify ?D (as_bytes x) sig (mk_verifying_key kp) = Inr True"
    using mldsa_verify_sign [OF assms(4) kp] by blast
  have "sign_with_vault ?E (ci_sign_rnd C1) k (as_bytes x) pw d2 = Ok sig"
    "verify_with_vault ?E k (as_bytes x) sig pw d2 = Ok True"
    using l s by (simp_all add: sign_with_vault_def verify_with_vault_def find_mldsa_key_def)
  moreover have "\<exists>errs. cli_mldsa_sign C1 pw other (Some x) d2 = (Exit1 [] errs, d2)" if "other \<noteq> k"
  proof -
    have "\<exists>e. sign_with_vault ?E (ci_sign_rnd C1) other (as_bytes x) pw d2 = Err e"
      using l that by (simp add: sign_with_vault_def find_mldsa_key_def)
    then show ?thesis
      using assms(11) by (auto simp: cli_mldsa_sign_def with_key_id_def Let_def split: sum.splits)
  qed
  ultimately show ?thesis
    using assms(11-14) val l
    by (intro exI [of _ "pr_b64_encode (ci_prims C) sig"])
      (auto simp: cli_mldsa_sign_def cli_mldsa_verify_def cli_mldsa_list_def list_mldsa_keys_def with_key_id_def Let_def
        lawful_base64D [OF assms(1)])
qed

theorem cli_signs_later_witness:
  "\<exists>d sig. cli_mldsa_verify demo_cli ''pw'' ''k'' ''hi'' sig d = (Printed [''Signature VALID''], d)"
proof -
  obtain d1 where "persist_mldsa_keys demo_env (replicate 16 0) (replicate 12 1) [(''k'', demo_pair)] ''pw'' empty_disk = (Ok (), d1)"
    by (simp add: persist_mldsa_keys_def demo_env_def encrypt_file_def derive_key_def encrypt_data_def demo_prims_def
        empty_disk_def Let_def)
  then have "\<exists>out. cli_mldsa_init demo_cli ''pw'' (Some ''k'') empty_disk = (Printed out, d1)"
    using demo_pair_generated by (simp add: cli_mldsa_init_def demo_cli_def validate_k Let_def)
  then obtain out where i: "cli_mldsa_init demo_cli ''pw'' (Some ''k'') empty_disk = (Printed out, d1)" ..
  let ?invs = "[(demo_cli, \<lambda>_. Ok [], Some (Init ''j'')), (demo_cli, \<lambda>_. Ok [], Some ListKeys)]"
  obtain es d2 where s: "cli_session None ?invs d1 = (es, d2)"
    by (cases "cli_session None ?invs d1")
  have l: "lawful_base64 (ci_prims demo_cli)" "lawful_seal (ci_prims demo_cli)" "lawful_mldsa_json (ci_pv demo_cli)"
    "lawful_dsa (pe_dsa (ci_pv demo_cli))"
    using demo_lawful by (simp_all add: demo_cli_def)
  have "\<exists>sig. cli_mldsa_verify demo_cli ''pw'' ''k'' ''hi'' sig d2 = (Printed [''Signature VALID''], d2)"
    using cli_signs_later [OF l _ _ _ i s _ refl refl refl refl, of "''hi''"]
    by (force simp: demo_cli_def empty_disk_def)
  then show ?thesis
    by blast
qed

end
