(* ===== verification/Sgx_Interface.thy ===== *)
theory Sgx_Interface
  imports Prelude
begin

text \<open>
  \<open>src/confidential_computing/sgx/enclave_interface.rs\<close>: the stand-ins for the SDK's functions, over a memory
  of bytes.  A pointer is the address it holds; a function takes the memory and returns it with its status,
  so that what it writes through its output pointers (nothing) is part of the model.
\<close>

type_synonym memory = "u64 \<Rightarrow> u8"
type_synonym pointer = u64

definition QUOTE_TYPE_ECDSA :: u32 where "QUOTE_TYPE_ECDSA = 3"

definition ENCLAVE_SIZE :: u64 where "ENCLAVE_SIZE = 0x100000"

datatype sgx_status =
  SGX_SUCCESS
| SGX_ERROR_INVALID_PARAMETER
| SGX_ERROR_OUT_OF_MEMORY
| SGX_ERROR_ENCLAVE_LOST
| SGX_ERROR_INVALID_STATE

text \<open>The discriminants of the \<open>repr(u32)\<close> enumeration.\<close>

fun sgx_status_code :: "sgx_status \<Rightarrow> u32" where
  "sgx_status_code SGX_SUCCESS = 0x0"
| "sgx_status_code SGX_ERROR_INVALID_PARAMETER = 0x2"
| "sgx_status_code SGX_ERROR_OUT_OF_MEMORY = 0x4"
| "sgx_status_code SGX_ERROR_ENCLAVE_LOST = 0x5"
| "sgx_status_code SGX_ERROR_INVALID_STATE = 0xc"

record sgx_report =
  sr_report_body :: bytes
  sr_key_id :: bytes

record sgx_target_info =
  ti_mr_enclave :: bytes
  ti_ext_prod_id :: bytes
  ti_attributes :: u64
  ti_config_svn :: u16
  ti_reserved :: bytes

record sgx_report_data =
  rd_d :: bytes

text \<open>The fixed lengths of the arrays in the three structures.\<close>

definition sgx_report_ok :: "sgx_report \<Rightarrow> bool" where
  "sgx_report_ok r \<longleftrightarrow> length (sr_report_body r) = 384 \<and> length (sr_key_id r) = 32"

definition sgx_target_info_ok :: "sgx_target_info \<Rightarrow> bool" where
  "sgx_target_info_ok t \<longleftrightarrow> length (ti_mr_enclave t) = 32 \<and> length (ti_ext_prod_id t) = 16 \<and> length (ti_reserved t) = 86"

definition sgx_report_data_ok :: "sgx_report_data \<Rightarrow> bool" where
  "sgx_report_data_ok d \<longleftrightarrow> length (rd_d d) = 64"

section \<open>The functions\<close>

definition sgx_create_enclave :: "pointer \<Rightarrow> u32 \<Rightarrow> pointer \<Rightarrow> pointer \<Rightarrow> pointer \<Rightarrow> memory \<Rightarrow> sgx_status \<times> memory" where
  "sgx_create_enclave enclave_file debug launch_token launch_token_updated enclave_id m = (SGX_SUCCESS, m)"

definition sgx_destroy_enclave :: "u64 \<Rightarrow> memory \<Rightarrow> sgx_status \<times> memory" where
  "sgx_destroy_enclave enclave_id m = (SGX_SUCCESS, m)"

definition sgx_ecall :: "u64 \<Rightarrow> u32 \<Rightarrow> pointer \<Rightarrow> pointer \<Rightarrow> memory \<Rightarrow> sgx_status \<times> memory" where
  "sgx_ecall enclave_id function_id ocall_table ms m = (SGX_SUCCESS, m)"

definition sgx_get_quote ::
    "pointer \<Rightarrow> pointer \<Rightarrow> u32 \<Rightarrow> pointer \<Rightarrow> pointer \<Rightarrow> pointer \<Rightarrow> pointer \<Rightarrow> memory \<Rightarrow> sgx_status \<times> memory" where
  "sgx_get_quote target_info report quote_type spid quote_nonce quote_size quote m = (SGX_SUCCESS, m)"

definition sgx_seal_data :: "pointer \<Rightarrow> u32 \<Rightarrow> pointer \<Rightarrow> u32 \<Rightarrow> pointer \<Rightarrow> u32 \<Rightarrow> memory \<Rightarrow> sgx_status \<times> memory" where
  "sgx_seal_data aad aad_len plaintext plaintext_len sealed sealed_cap_len m = (SGX_SUCCESS, m)"

definition sgx_unseal_data ::
    "pointer \<Rightarrow> u32 \<Rightarrow> pointer \<Rightarrow> pointer \<Rightarrow> pointer \<Rightarrow> pointer \<Rightarrow> memory \<Rightarrow> sgx_status \<times> memory" where
  "sgx_unseal_data sealed sealed_len aad aad_len plaintext plaintext_len m = (SGX_SUCCESS, m)"

definition sgx_create_report :: "pointer \<Rightarrow> pointer \<Rightarrow> pointer \<Rightarrow> memory \<Rightarrow> sgx_status \<times> memory" where
  "sgx_create_report target_info report_data report m = (SGX_SUCCESS, m)"

definition sgx_get_target_info :: "pointer \<Rightarrow> memory \<Rightarrow> sgx_status \<times> memory" where
  "sgx_get_target_info target_info m = (SGX_SUCCESS, m)"

definition sgx_malloc :: "u64 \<Rightarrow> memory \<Rightarrow> pointer \<times> memory" where
  "sgx_malloc n m = (0, m)"

definition sgx_free :: "pointer \<Rightarrow> memory \<Rightarrow> memory" where
  "sgx_free p m = m"

section \<open>What they do\<close>

lemma sgx_status_code_inject: "sgx_status_code s = sgx_status_code t \<longleftrightarrow> s = t"
  by (cases s; cases t; simp)

text \<open>A sequence of interface calls, by the functions that answer with a status.\<close>

datatype sgx_call =
  CreateEnclave pointer u32 pointer pointer pointer
| DestroyEnclave u64
| Ecall u64 u32 pointer pointer
| GetQuote pointer pointer u32 pointer pointer pointer pointer
| SealData pointer u32 pointer u32 pointer u32
| UnsealData pointer u32 pointer pointer pointer pointer
| CreateReport pointer pointer pointer
| GetTargetInfo pointer

fun run_sgx_call :: "sgx_call \<Rightarrow> memory \<Rightarrow> sgx_status \<times> memory" where
  "run_sgx_call (CreateEnclave f d t u i) m = sgx_create_enclave f d t u i m"
| "run_sgx_call (DestroyEnclave i) m = sgx_destroy_enclave i m"
| "run_sgx_call (Ecall i f t s) m = sgx_ecall i f t s m"
| "run_sgx_call (GetQuote t r y s n z q) m = sgx_get_quote t r y s n z q m"
| "run_sgx_call (SealData a al p pl s c) m = sgx_seal_data a al p pl s c m"
| "run_sgx_call (UnsealData s sl a al p pl) m = sgx_unseal_data s sl a al p pl m"
| "run_sgx_call (CreateReport t d r) m = sgx_create_report t d r m"
| "run_sgx_call (GetTargetInfo t) m = sgx_get_target_info t m"

fun sgx_calls :: "sgx_call list \<Rightarrow> memory \<Rightarrow> sgx_status list \<times> memory" where
  "sgx_calls [] m = ([], m)"
| "sgx_calls (c # cs) m = (case run_sgx_call c m of (s, m') \<Rightarrow> map_prod (Cons s) id (sgx_calls cs m'))"

text \<open>Every sequence of calls reports success throughout and leaves every output buffer as it was.\<close>

lemma sgx_calls_write_nothing: "sgx_calls cs m = (replicate (length cs) SGX_SUCCESS, m)"
proof (induction cs)
  case (Cons c cs)
  have "run_sgx_call c m = (SGX_SUCCESS, m)"
    by (cases c) (simp_all add: sgx_create_enclave_def sgx_destroy_enclave_def sgx_ecall_def sgx_get_quote_def
        sgx_seal_data_def sgx_unseal_data_def sgx_create_report_def sgx_get_target_info_def)
  then show ?case
    using Cons by simp
qed simp

end
