(* ===== verification/Test_Support.thy ===== *)
theory Test_Support
  imports Prelude
begin

unbundle bit_operations_syntax

text \<open>
  The vocabulary of the conformance theories, which translate the unit tests of the source files: a test is a
  boolean that is true when none of its assertions fails, and the lemma that follows it proves that the
  model passes it, for every value of what the test takes from other crates, under the laws the model
  assumes of them or unless a hash collides on inputs that the lemma names.
\<close>

text \<open>\<open>unwrap\<close>, \<open>expect\<close> and \<open>expect_err\<close> on a result, the rest of the test as continuation.\<close>

fun expect :: "'e + 'a \<Rightarrow> ('a \<Rightarrow> bool) \<Rightarrow> bool" where
  "expect (Inl e) k = False"
| "expect (Inr x) k = k x"

fun expect_err :: "'e + 'a \<Rightarrow> ('e \<Rightarrow> bool) \<Rightarrow> bool" where
  "expect_err (Inl e) k = k e"
| "expect_err (Inr x) k = False"

text \<open>\<open>unwrap\<close> in a helper of a test, which hands a failure on to the test.\<close>

fun unwrapped :: "'e + 'a \<Rightarrow> ('a \<Rightarrow> 'e + 'b) \<Rightarrow> 'e + 'b" where
  "unwrapped (Inl e) k = Inl e"
| "unwrapped (Inr x) k = k x"

text \<open>The same on the result of a call that changes its receiver.\<close>

fun expect_call :: "('e + 'a) \<times> 's \<Rightarrow> ('a \<Rightarrow> 's \<Rightarrow> bool) \<Rightarrow> bool" where
  "expect_call (Inl e, s) k = False"
| "expect_call (Inr x, s) k = k x s"

fun expect_call_err :: "('e + 'a) \<times> 's \<Rightarrow> ('e \<Rightarrow> bool) \<Rightarrow> bool" where
  "expect_call_err (Inl e, s) k = k e"
| "expect_call_err (Inr x, s) k = False"

text \<open>The value of a call that can panic, and the outcome of one on a shared receiver.\<close>

fun expect_ok :: "('e, 'a) outcome \<Rightarrow> ('a \<Rightarrow> bool) \<Rightarrow> bool" where
  "expect_ok (Ok x) k = k x"
| "expect_ok _ k = False"

fun expect_ok_call :: "('e, 'a) outcome \<times> 's \<Rightarrow> ('a \<Rightarrow> 's \<Rightarrow> bool) \<Rightarrow> bool" where
  "expect_ok_call (Ok x, s) k = k x s"
| "expect_ok_call (_, s) k = False"

text \<open>Two different arguments of a finite set with one digest.\<close>

definition collides :: "('a \<Rightarrow> 'b) \<Rightarrow> 'a set \<Rightarrow> bool" where
  "collides f X \<longleftrightarrow> \<not> inj_on f X"

lemma collidesI: "f x = f y \<Longrightarrow> x \<noteq> y \<Longrightarrow> x \<in> X \<Longrightarrow> y \<in> X \<Longrightarrow> collides f X"
  by (auto simp: collides_def inj_on_def)

lemma expect_cases:
  "expect r k \<longleftrightarrow> (\<exists>x. r = Inr x \<and> k x)" "expect_err r k' \<longleftrightarrow> (\<exists>e. r = Inl e \<and> k' e)"
  by (cases r; simp)+

text \<open>A flipped byte is another byte.\<close>

lemma xor_FF_ne: "(b :: u8) XOR 0xFF \<noteq> b"
proof
  assume "b XOR 0xFF = b"
  then have "bit (b XOR 0xFF) 0 = bit b 0"
    by simp
  then show False
    by (simp add: bit_xor_iff)
qed

end
