(* ===== verification/Tests_Shamir.thy ===== *)
theory Tests_Shamir
  imports Shamir Test_Support
begin

text \<open>The tests of \<open>src/shamir.rs\<close>, for every draw of the random bytes.\<close>

type_synonym draws = "nat \<Rightarrow> nat \<Rightarrow> u8"

definition test_split_and_reconstruct :: "draws \<Rightarrow> bool" where
  "test_split_and_reconstruct rand =
     (let secret = as_bytes ''top-secret-api-key''
      in expect_ok (split secret 3 5 rand) (\<lambda>shares.
         length shares = 5 \<and>
         (let subset = [shares ! 0, shares ! 2, shares ! 4]
          in expect_ok (reconstruct subset) (\<lambda>recovered. recovered = secret))))"

definition test_reconstruct_with_different_shares :: "draws \<Rightarrow> bool" where
  "test_reconstruct_with_different_shares rand =
     (let secret = as_bytes ''another-secret''
      in expect_ok (split secret 2 4 rand) (\<lambda>shares.
         expect_ok (reconstruct [shares ! 0, shares ! 1]) (\<lambda>recovered1.
         expect_ok (reconstruct [shares ! 2, shares ! 3]) (\<lambda>recovered2.
         expect_ok (reconstruct [shares ! 1, shares ! 3]) (\<lambda>recovered3.
         recovered1 = secret \<and> recovered2 = secret \<and> recovered3 = secret)))))"

definition test_insufficient_shares_fail :: "draws \<Rightarrow> bool" where
  "test_insufficient_shares_fail rand =
     (let secret = as_bytes ''secret''
      in expect_ok (split secret 3 5 rand) (\<lambda>shares.
         expect_ok (reconstruct [shares ! 0, shares ! 1]) (\<lambda>recovered. recovered \<noteq> secret)))"

definition test_encode_decode :: "(bytes \<Rightarrow> string) \<Rightarrow> (string \<Rightarrow> 'b + bytes) \<Rightarrow> draws \<Rightarrow> bool" where
  "test_encode_decode b64_encode b64_decode rand =
     (let secret = as_bytes ''test-secret''
      in expect_ok (split secret 2 3 rand) (\<lambda>shares.
         let encoded = encode_shares b64_encode shares
         in length encoded = 3 \<and>
            expect (decode_shares b64_decode encoded) (\<lambda>decoded.
            expect_ok (reconstruct decoded) (\<lambda>recovered. recovered = secret))))"

definition test_all_shares_reconstruct :: "draws \<Rightarrow> bool" where
  "test_all_shares_reconstruct rand =
     (let secret = as_bytes ''full-reconstruction''
      in expect_ok (split secret 4 4 rand) (\<lambda>shares.
         expect_ok (reconstruct shares) (\<lambda>recovered. recovered = secret)))"

definition test_threshold_2_of_3 :: "draws \<Rightarrow> bool" where
  "test_threshold_2_of_3 rand =
     (let secret = as_bytes ''abir-guard-test''
      in expect_ok (split secret 2 3 rand) (\<lambda>shares.
         list_all (\<lambda>i. list_all (\<lambda>j.
           expect_ok (reconstruct [shares ! i, shares ! j]) (\<lambda>recovered. recovered = secret)) [i + 1..<3]) [0..<3]))"

section \<open>The tests pass\<close>

lemma split_of_text:
  assumes "2 \<le> t" "t \<le> n" "n \<le> 250" "list_all (\<lambda>b. unat b < 251) secret"
  shows "\<exists>shares. split secret t n rand = Ok shares \<and> length shares = n \<and> distinct shares"
proof -
  obtain shares where s: "split secret t n rand = Ok shares"
    using assms by (simp add: split_Ok_iff)
  then have len: "length shares = n"
    and idx: "\<And>i. i < n \<Longrightarrow> sh_index (shares ! i) = of_nat (Suc i)"
    by (auto simp: split_Ok_iff simp del: of_nat_Suc upt_Suc)
  have "i = j" if "i < n" "j < n" "shares ! i = shares ! j" for i j
  proof -
    have "unat (of_nat (Suc i) :: u8) = unat (of_nat (Suc j) :: u8)"
      using idx that by metis
    then show ?thesis
      using that assms(3) unat_index [of i] unat_index [of j] by simp
  qed
  then have "distinct shares"
    using len by (auto simp: distinct_conv_nth)
  then show ?thesis
    using s len by blast
qed

text \<open>A choice of shares by position.\<close>

lemma chosen_shares:
  assumes "distinct shares" "distinct is" "list_all (\<lambda>i. i < length shares) is"
  shows "set (map ((!) shares) is) \<subseteq> set shares" "distinct (map ((!) shares) is)"
  using assms by (auto simp: list_all_iff distinct_map inj_on_def nth_eq_iff_index_eq)

lemma chosen_reconstruct:
  assumes "split secret t n rand = Ok shares" "distinct shares" "distinct is" "list_all (\<lambda>i. i < length shares) is"
    and "t \<le> length is"
  shows "reconstruct (map ((!) shares) is) = Ok secret"
  using reconstruct_split_core [OF assms(1) chosen_shares [OF assms(2-4)]] assms(5) by simp

lemma texts_small:
  "list_all (\<lambda>b. unat b < 251) (as_bytes ''top-secret-api-key'')" "list_all (\<lambda>b. unat b < 251) (as_bytes ''another-secret'')"
  "list_all (\<lambda>b. unat b < 251) (as_bytes ''secret'')" "list_all (\<lambda>b. unat b < 251) (as_bytes ''test-secret'')"
  "list_all (\<lambda>b. unat b < 251) (as_bytes ''full-reconstruction'')" "list_all (\<lambda>b. unat b < 251) (as_bytes ''abir-guard-test'')"
  by simp_all

lemma shamir_tests_pass:
  "test_split_and_reconstruct rand" "test_reconstruct_with_different_shares rand" "test_all_shares_reconstruct rand"
  "test_threshold_2_of_3 rand"
proof -
  obtain shares where s: "split (as_bytes ''top-secret-api-key'') 3 5 rand = Ok shares" "length shares = 5" "distinct shares"
    using split_of_text [OF _ _ _ texts_small(1), of 3 5 rand] by auto
  then show "test_split_and_reconstruct rand"
    using chosen_reconstruct [OF s(1,3), of "[0, 2, 4]"]
    by (simp add: test_split_and_reconstruct_def Let_def del: as_bytes_simps)
  obtain shares where s: "split (as_bytes ''another-secret'') 2 4 rand = Ok shares" "length shares = 4" "distinct shares"
    using split_of_text [OF _ _ _ texts_small(2), of 2 4 rand] by auto
  then show "test_reconstruct_with_different_shares rand"
    using chosen_reconstruct [OF s(1,3), of "[0, 1]"] chosen_reconstruct [OF s(1,3), of "[2, 3]"]
      chosen_reconstruct [OF s(1,3), of "[1, 3]"]
    by (simp add: test_reconstruct_with_different_shares_def Let_def del: as_bytes_simps)
  obtain shares where s: "split (as_bytes ''full-reconstruction'') 4 4 rand = Ok shares" "length shares = 4" "distinct shares"
    using split_of_text [OF _ _ _ texts_small(5), of 4 4 rand] by auto
  then show "test_all_shares_reconstruct rand"
    using reconstruct_split_core [OF s(1), of shares]
    by (simp add: test_all_shares_reconstruct_def Let_def del: as_bytes_simps)
  obtain shares where s: "split (as_bytes ''abir-guard-test'') 2 3 rand = Ok shares" "length shares = 3" "distinct shares"
    using split_of_text [OF _ _ _ texts_small(6), of 2 3 rand] by auto
  have "reconstruct [shares ! i, shares ! j] = Ok (as_bytes ''abir-guard-test'')" if "i < j" "j < 3" for i j
    using chosen_reconstruct [OF s(1,3), of "[i, j]"] s(2) that by simp
  then show "test_threshold_2_of_3 rand"
    using s(1) by (simp add: test_threshold_2_of_3_def Let_def list_all_iff del: as_bytes_simps)
qed

lemma insufficient_shares_test_passes: "test_insufficient_shares_fail rand"
proof -
  obtain shares where s: "split (as_bytes ''secret'') 3 5 rand = Ok shares" "length shares = 5" "distinct shares"
    using split_of_text [OF _ _ _ texts_small(3), of 3 5 rand] by auto
  have "\<exists>wrong. reconstruct [shares ! 0, shares ! 1] = Ok wrong \<and> wrong \<noteq> as_bytes ''secret''"
    using one_share_short_core [OF s(1), of "map ((!) shares) [0, 1]"] chosen_shares [OF s(3), of "[0, 1]"] s(2) by force
  then show ?thesis
    using s(1) by (auto simp: test_insufficient_shares_fail_def Let_def simp del: as_bytes_simps)
qed

lemma encode_test_passes:
  assumes "\<And>x. b64_decode (b64_encode x) = Inr x"
  shows "test_encode_decode b64_encode b64_decode rand"
proof -
  obtain shares where s: "split (as_bytes ''test-secret'') 2 3 rand = Ok shares" "length shares = 3" "distinct shares"
    using split_of_text [OF _ _ _ texts_small(4), of 2 3 rand] by auto
  have "decode_shares b64_decode (encode_shares b64_encode shares) = Inr shares"
    using assms by (rule decode_encode_shares_core)
  then show ?thesis
    using s reconstruct_split_core [OF s(1), of shares]
    by (simp add: test_encode_decode_def Let_def encode_shares_def del: as_bytes_simps)
qed

end
