(* ===== verification/Tests_Adv_Sharing.thy ===== *)
theory Tests_Adv_Sharing
  imports Adv_Sharing Test_Support
begin

text \<open>
  The tests of \<open>src/advanced_secret_sharing.rs\<close>.  A test that expects a digest or a tag to change passes
  unless two different inputs of it have the same value, and the lemma says so.
\<close>

text \<open>The refresher's calls, a value \<open>None\<close> being a mask loop that does not end.\<close>

fun expect_some :: "'a option \<Rightarrow> ('a \<Rightarrow> bool) \<Rightarrow> bool" where
  "expect_some None k = False"
| "expect_some (Some x) k = k x"

section \<open>Commitments\<close>

definition test_commitment_roundtrip :: "(bytes \<Rightarrow> bytes) \<Rightarrow> bool" where
  "test_commitment_roundtrip sha =
     (let shares = [as_bytes ''s1'', as_bytes ''s2''];
          commitments = create_commitments sha shares
      in expect (verify_share sha (shares ! 0) (commitments ! 0)) (\<lambda>verified.
         vs_index verified = 0 \<and> vs_share verified = as_bytes ''s1''))"

definition test_commitment_rejects_tampered_share :: "(bytes \<Rightarrow> bytes) \<Rightarrow> bool" where
  "test_commitment_rejects_tampered_share sha =
     (let shares = [as_bytes ''s1''];
          commitments = create_commitments sha shares
      in expect_err (verify_share sha (as_bytes ''tampered'') (commitments ! 0)) (\<lambda>err. err = VerificationFailed))"

lemma commitment_tests_pass:
  "test_commitment_roundtrip sha" "test_commitment_rejects_tampered_share sha \<or> collides sha {[0] @ as_bytes ''tampered'', [0] @ as_bytes ''s1''}"
proof -
  show "test_commitment_roundtrip sha"
    by (simp add: test_commitment_roundtrip_def create_commitments_nth verify_share_def)
  show "test_commitment_rejects_tampered_share sha \<or> collides sha {[0] @ as_bytes ''tampered'', [0] @ as_bytes ''s1''}"
    using collidesI [of sha "[0] @ as_bytes ''tampered''" "[0] @ as_bytes ''s1''" "{[0] @ as_bytes ''tampered'', [0] @ as_bytes ''s1''}"]
    by (auto simp: test_commitment_rejects_tampered_share_def create_commitments_nth verify_share_def commitment_hash_def)
qed

section \<open>Refreshing and re-sharing\<close>

definition test_proactive_refresh_changes_with_epoch :: "(bytes \<Rightarrow> bytes) \<Rightarrow> bool" where
  "test_proactive_refresh_changes_with_epoch sha =
     (let refresher = refresher_new; sh = as_bytes ''share-material''; seed = as_bytes ''seed-01''
      in expect_some (refresh_share sha refresher sh seed) (\<lambda>r. expect r (\<lambda>r1.
         let refresher = advance_epoch refresher
         in expect_some (refresh_share sha refresher sh seed) (\<lambda>r. expect r (\<lambda>r2. r1 \<noteq> r2)))))"

definition test_reshare_join_participant :: "(bytes \<Rightarrow> bytes) \<Rightarrow> bool" where
  "test_reshare_join_participant sha =
     (let current = [participant_share_new ''p1'' (as_bytes ''share-a''), participant_share_new ''p2'' (as_bytes ''share-b''),
            participant_share_new ''p3'' (as_bytes ''share-c'')];
          next_ids = [''p1'', ''p2'', ''p3'', ''p4'']
      in expect_some (reshare_for_participants sha current next_ids 2 3 (as_bytes ''seed'') refresher_new)
         (\<lambda>r. expect_call r (\<lambda>plan _.
           rs_old_threshold plan = 2 \<and> rs_new_threshold plan = 3 \<and> length (rs_refreshed plan) = 4 \<and>
           rs_old_epoch plan + 1 = rs_new_epoch plan \<and> verify_reshare_plan sha plan)))"

definition test_reshare_leave_participant :: "(bytes \<Rightarrow> bytes) \<Rightarrow> bool" where
  "test_reshare_leave_participant sha =
     (let current = [participant_share_new ''p1'' (as_bytes ''share-a''), participant_share_new ''p2'' (as_bytes ''share-b''),
            participant_share_new ''p3'' (as_bytes ''share-c''), participant_share_new ''p4'' (as_bytes ''share-d'')];
          next_ids = [''p1'', ''p2'', ''p3'']
      in expect_some (reshare_for_participants sha current next_ids 3 2 (as_bytes ''seed'') refresher_new)
         (\<lambda>r. expect_call r (\<lambda>plan _.
           length (rs_refreshed plan) = 3 \<and> rs_new_threshold plan = 2 \<and> verify_reshare_plan sha plan)))"

definition test_reshare_rejects_invalid_threshold :: "(bytes \<Rightarrow> bytes) \<Rightarrow> bool" where
  "test_reshare_rejects_invalid_threshold sha =
     (let current = [participant_share_new ''p1'' (as_bytes ''share-a''), participant_share_new ''p2'' (as_bytes ''share-b'')];
          next_ids = [''p1'', ''p2'']
      in expect_some (reshare_for_participants sha current next_ids 0 2 (as_bytes ''seed'') refresher_new)
         (\<lambda>r. expect_call_err r (\<lambda>err. err = InvalidThreshold)))"

definition test_verify_reshare_plan_detects_tampering :: "(bytes \<Rightarrow> bytes) \<Rightarrow> bool" where
  "test_verify_reshare_plan_detects_tampering sha =
     (let current = [participant_share_new ''p1'' (as_bytes ''share-a''), participant_share_new ''p2'' (as_bytes ''share-b''),
            participant_share_new ''p3'' (as_bytes ''share-c'')];
          next_ids = [''p1'', ''p2'', ''p3'']
      in expect_some (reshare_for_participants sha current next_ids 2 2 (as_bytes ''seed'') refresher_new)
         (\<lambda>r. expect_call r (\<lambda>plan _.
           let first = rs_refreshed plan ! 0;
               tampered = first\<lparr>ps_share := (ps_share first)[0 := ps_share first ! 0 XOR 0xFF]\<rparr>;
               plan = plan\<lparr>rs_refreshed := (rs_refreshed plan)[0 := tampered]\<rparr>
           in \<not> verify_reshare_plan sha plan)))"

text \<open>The plan of an admissible re-sharing whose sources are not empty.\<close>

lemma reshare_plan:
  assumes "digest32 sha" "1 \<le> t1" "t1 \<le> length current" "1 \<le> t2" "t2 \<le> length next_ids"
    and "\<forall>p\<in>set current. ps_share p \<noteq> []"
  shows "reshare_for_participants sha current next_ids t1 t2 seed epoch =
    Some (let refreshed = reshared sha (advance_epoch epoch) current seed 0 next_ids in
      Inr \<lparr>rs_old_threshold = t1, rs_new_threshold = t2, rs_old_epoch = epoch, rs_new_epoch = advance_epoch epoch,
        rs_refreshed = refreshed,
        rs_proof = build_refresh_proof sha epoch (advance_epoch epoch) t1 t2 next_ids refreshed\<rparr>, advance_epoch epoch)"
proof -
  have "current \<noteq> []" "next_ids \<noteq> []"
    using assms by auto
  moreover have "reshare_source current i \<noteq> []" for i
    using assms(6) \<open>current \<noteq> []\<close> by (simp add: reshare_source_def)
  ultimately show ?thesis
    using assms by (simp add: reshare_for_participants_def validate_thresholds_def Let_def reshare_loop_spec
        verify_reshare_plan_def)
qed

lemma advance_epoch_1: "advance_epoch 1 = 2"
  by (simp add: advance_epoch_def saturating_add_def)

lemma reshare_tests_pass:
  assumes "digest32 sha"
  shows "test_reshare_join_participant sha" "test_reshare_leave_participant sha" "test_reshare_rejects_invalid_threshold sha"
proof -
  show "test_reshare_join_participant sha"
    unfolding test_reshare_join_participant_def Let_def
    by (subst reshare_plan [OF assms])
      (simp_all add: participant_share_new_def verify_reshare_plan_def refresher_new_def refresher_default_def
        advance_epoch_1 Let_def reshared_def)
  show "test_reshare_leave_participant sha"
    unfolding test_reshare_leave_participant_def Let_def
    by (subst reshare_plan [OF assms]) (simp_all add: participant_share_new_def verify_reshare_plan_def Let_def reshared_def)
  show "test_reshare_rejects_invalid_threshold sha"
    by (simp add: test_reshare_rejects_invalid_threshold_def reshare_for_participants_def validate_thresholds_def)
qed

lemma short_mask:
  assumes "digest32 sha" "0 < n" "n \<le> 32"
  shows "refresh_mask sha epoch seed n = Some (take n (sha (seed @ to_le_bytes epoch @ to_le_bytes 0)))"
proof -
  have "length (sha (seed @ to_le_bytes epoch @ to_le_bytes 0)) = 32"
    using assms(1) by (simp add: digest32_def)
  then show ?thesis
    using assms(2,3) unfolding refresh_mask_def
    by (subst mask_loop.simps, subst mask_loop.simps) simp
qed

lemma map2_xor_inj:
  "length (x :: bytes) = length m \<Longrightarrow> length m = length n \<Longrightarrow> map2 (XOR) x m = map2 (XOR) x n \<longleftrightarrow> m = n"
proof (induction x m n rule: list_induct3)
  case (Cons x xs y ys z zs)
  have "x XOR y = x XOR z \<longleftrightarrow> y = z"
    by (metis xor.assoc xor_self_eq xor.left_neutral)
  then show ?case
    using Cons by simp
qed simp

text \<open>The refresh changes with the epoch exactly when the first 14 bytes of two digests differ.\<close>

lemma refresh_test_passes_iff:
  assumes "digest32 sha"
  shows "test_proactive_refresh_changes_with_epoch sha \<longleftrightarrow>
    take 14 (sha (as_bytes ''seed-01'' @ to_le_bytes 1 @ to_le_bytes 0)) \<noteq>
    take 14 (sha (as_bytes ''seed-01'' @ to_le_bytes 2 @ to_le_bytes 0))"
proof -
  have l: "length (take 14 (sha x)) = 14" for x
    using assms by (simp add: digest32_def)
  have "length (as_bytes ''share-material'') = 14" "refresh_mask sha e seed 14 =
      Some (take 14 (sha (seed @ to_le_bytes e @ to_le_bytes 0)))" for e seed
    by (simp, rule short_mask [OF assms]) simp_all
  then have "masked sha e (as_bytes ''seed-01'') (as_bytes ''share-material'') =
      map2 (XOR) (as_bytes ''share-material'') (take 14 (sha (as_bytes ''seed-01'' @ to_le_bytes e @ to_le_bytes 0)))" for e
    unfolding masked_def by (simp only: option.sel)
  moreover have "as_bytes ''share-material'' \<noteq> []"
    by simp
  ultimately have "test_proactive_refresh_changes_with_epoch sha \<longleftrightarrow>
      map2 (XOR) (as_bytes ''share-material'') (take 14 (sha (as_bytes ''seed-01'' @ to_le_bytes 1 @ to_le_bytes 0))) \<noteq>
      map2 (XOR) (as_bytes ''share-material'') (take 14 (sha (as_bytes ''seed-01'' @ to_le_bytes 2 @ to_le_bytes 0)))"
    unfolding test_proactive_refresh_changes_with_epoch_def Let_def refresh_share_masked [OF assms]
      refresher_new_def refresher_default_def advance_epoch_1
    by (simp only: if_False expect_some.simps expect.simps)
  also have "\<dots> \<longleftrightarrow> take 14 (sha (as_bytes ''seed-01'' @ to_le_bytes 1 @ to_le_bytes 0)) \<noteq>
      take 14 (sha (as_bytes ''seed-01'' @ to_le_bytes 2 @ to_le_bytes 0))"
    using l by (subst map2_xor_inj) simp_all
  finally show ?thesis .
qed

text \<open>What is hashed to check a plan: the transcript of its proof and the shares it commits to.\<close>

definition transcript :: "(bytes \<Rightarrow> bytes) \<Rightarrow> reshare_plan \<Rightarrow> bytes" where
  "transcript sha plan =
     to_le_bytes (rs_old_epoch plan) @ to_le_bytes (rs_new_epoch plan) @
     to_le_bytes (of_nat (rs_old_threshold plan)) @ to_le_bytes (of_nat (rs_new_threshold plan)) @
     concat (map as_bytes (map ps_participant_id (rs_refreshed plan))) @
     concat (map (\<lambda>i. as_bytes (ps_participant_id i) @ commitment_hash sha 0 (ps_share i)) (rs_refreshed plan))"

definition plan_inputs :: "(bytes \<Rightarrow> bytes) \<Rightarrow> reshare_plan \<Rightarrow> bytes set" where
  "plan_inputs sha plan = insert (transcript sha plan) ((\<lambda>i. [0] @ ps_share i) ` set (rs_refreshed plan))"

lemma verify_transcript:
  "verify_reshare_plan sha plan \<longleftrightarrow> sha (transcript sha plan) = rp_transcript_hash (rs_proof plan)"
  by (cases "rs_proof plan") (simp add: verify_reshare_plan_def build_refresh_proof_def transcript_def)

lemma plan_binds_first_share:
  assumes "digest32 sha" "x \<noteq> y" "rs_refreshed plan = \<lparr>ps_participant_id = p, ps_share = x\<rparr> # rest"
    and "plan' = plan\<lparr>rs_refreshed := \<lparr>ps_participant_id = p, ps_share = y\<rparr> # rest\<rparr>"
    and "verify_reshare_plan sha plan" "verify_reshare_plan sha plan'"
  shows "collides sha (plan_inputs sha plan \<union> plan_inputs sha plan')"
proof (cases "commitment_hash sha 0 x = commitment_hash sha 0 y")
  case True
  then show ?thesis
    using assms(2-4)
    by (intro collidesI [of sha "[0] @ x" "[0] @ y"]) (simp_all add: commitment_hash_def plan_inputs_def)
next
  case False
  moreover have "length (commitment_hash sha 0 x) = length (commitment_hash sha 0 y)"
    using assms(1) by (simp add: commitment_hash_def digest32_def)
  ultimately have "transcript sha plan \<noteq> transcript sha plan'"
    by (simp add: transcript_def assms(3,4))
  moreover have "sha (transcript sha plan) = sha (transcript sha plan')"
    using assms(4-6) by (simp add: verify_transcript)
  ultimately show ?thesis
    by (intro collidesI [of sha "transcript sha plan" "transcript sha plan'"]) (simp_all add: plan_inputs_def)
qed

lemma tampering_test_passes:
  assumes "digest32 sha"
    and "reshare_for_participants sha [participant_share_new ''p1'' (as_bytes ''share-a''),
      participant_share_new ''p2'' (as_bytes ''share-b''), participant_share_new ''p3'' (as_bytes ''share-c'')]
      [''p1'', ''p2'', ''p3''] 2 2 (as_bytes ''seed'') refresher_new = Some (Inr plan, e)"
    and "plan' = plan\<lparr>rs_refreshed := (rs_refreshed plan)[0 := (rs_refreshed plan ! 0)\<lparr>ps_share :=
      (ps_share (rs_refreshed plan ! 0))[0 := ps_share (rs_refreshed plan ! 0) ! 0 XOR 0xFF]\<rparr>]\<rparr>"
  shows "test_verify_reshare_plan_detects_tampering sha \<or> collides sha (plan_inputs sha plan \<union> plan_inputs sha plan')"
proof -
  let ?current = "[participant_share_new ''p1'' (as_bytes ''share-a''), participant_share_new ''p2'' (as_bytes ''share-b''),
    participant_share_new ''p3'' (as_bytes ''share-c'')]"
  let ?ids = "[''p1'', ''p2'', ''p3'']"
  define refreshed where "refreshed = reshared sha (advance_epoch refresher_new) ?current (as_bytes ''seed'') 0 ?ids"
  obtain x rest where r: "refreshed = \<lparr>ps_participant_id = ''p1'', ps_share = x\<rparr> # rest" "x \<noteq> []"
    "map ps_participant_id rest = [''p2'', ''p3'']"
  proof
    show "refreshed = \<lparr>ps_participant_id = ''p1'', ps_share = masked sha (advance_epoch refresher_new)
        (reshare_seed (as_bytes ''seed'') ''p1'' 0) (reshare_source ?current 0)\<rparr> #
        reshared sha (advance_epoch refresher_new) ?current (as_bytes ''seed'') 1 [''p2'', ''p3'']"
      by (simp add: refreshed_def reshared_def)
    show "masked sha (advance_epoch refresher_new) (reshare_seed (as_bytes ''seed'') ''p1'' 0) (reshare_source ?current 0) \<noteq> []"
      using length_masked [OF assms(1)] by (simp add: reshare_source_def participant_share_new_def flip: length_greater_0_conv)
  qed simp
  define y where "y = x[0 := x ! 0 XOR 0xFF]"
  have "x \<noteq> y"
    using r(2) xor_FF_ne [of "hd x"] by (cases x) (simp_all add: y_def)
  have plan: "reshare_for_participants sha ?current ?ids 2 2 (as_bytes ''seed'') refresher_new =
      Some (Inr \<lparr>rs_old_threshold = 2, rs_new_threshold = 2, rs_old_epoch = refresher_new,
        rs_new_epoch = advance_epoch refresher_new, rs_refreshed = refreshed,
        rs_proof = build_refresh_proof sha refresher_new (advance_epoch refresher_new) 2 2 ?ids refreshed\<rparr>,
        advance_epoch refresher_new)"
    unfolding refreshed_def by (subst reshare_plan [OF assms(1)]) (simp_all add: Let_def participant_share_new_def)
  then have p: "plan = \<lparr>rs_old_threshold = 2, rs_new_threshold = 2, rs_old_epoch = refresher_new,
        rs_new_epoch = advance_epoch refresher_new, rs_refreshed = refreshed,
        rs_proof = build_refresh_proof sha refresher_new (advance_epoch refresher_new) 2 2 ?ids refreshed\<rparr>"
    using assms(2) by auto
  then have "verify_reshare_plan sha plan"
    by (simp add: verify_reshare_plan_def r(1,3))
  moreover have "plan' = plan\<lparr>rs_refreshed := \<lparr>ps_participant_id = ''p1'', ps_share = y\<rparr> # rest\<rparr>"
    by (simp add: assms(3) p r(1) y_def)
  moreover have "test_verify_reshare_plan_detects_tampering sha \<longleftrightarrow> \<not> verify_reshare_plan sha plan'"
    unfolding test_verify_reshare_plan_detects_tampering_def Let_def assms(2) expect_some.simps expect_call.simps assms(3) ..
  ultimately show ?thesis
    using plan_binds_first_share [OF assms(1) \<open>x \<noteq> y\<close>, of plan "''p1''" rest plan'] by (auto simp: p r(1))
qed

section \<open>Authenticated shares\<close>

definition auth_share :: "(bytes \<Rightarrow> bytes \<Rightarrow> bytes) \<Rightarrow> adv_error + authenticated_share" where
  "auth_share hmac =
     authenticate_share hmac ''p1'' (as_bytes ''secret-share'') 3 (as_bytes ''reshare-v1'') (as_bytes ''mac-key'')"

definition test_authenticated_share_roundtrip :: "(bytes \<Rightarrow> bytes \<Rightarrow> bytes) \<Rightarrow> bool" where
  "test_authenticated_share_roundtrip hmac =
     expect (auth_share hmac) (\<lambda>auth.
     expect (verify_authenticated_share hmac auth (as_bytes ''reshare-v1'') (as_bytes ''mac-key'')) (\<lambda>_. True))"

definition test_authenticated_share_rejects_tampered_bytes :: "(bytes \<Rightarrow> bytes \<Rightarrow> bytes) \<Rightarrow> bool" where
  "test_authenticated_share_rejects_tampered_bytes hmac =
     expect (auth_share hmac) (\<lambda>auth.
     let auth = auth\<lparr>as_share_bytes := (as_share_bytes auth)[0 := as_share_bytes auth ! 0 XOR 0xFF]\<rparr>
     in expect_err (verify_authenticated_share hmac auth (as_bytes ''reshare-v1'') (as_bytes ''mac-key''))
          (\<lambda>err. err = MacAuthenticationFailed))"

definition test_authenticated_share_rejects_wrong_epoch :: "(bytes \<Rightarrow> bytes \<Rightarrow> bytes) \<Rightarrow> bool" where
  "test_authenticated_share_rejects_wrong_epoch hmac =
     expect (auth_share hmac) (\<lambda>auth.
     let auth = auth\<lparr>as_epoch := 99\<rparr>
     in expect_err (verify_authenticated_share hmac auth (as_bytes ''reshare-v1'') (as_bytes ''mac-key''))
          (\<lambda>err. err = MacAuthenticationFailed))"

definition test_authenticated_share_rejects_wrong_participant :: "(bytes \<Rightarrow> bytes \<Rightarrow> bytes) \<Rightarrow> bool" where
  "test_authenticated_share_rejects_wrong_participant hmac =
     expect (auth_share hmac) (\<lambda>auth.
     let auth = auth\<lparr>as_participant_id := ''attacker''\<rparr>
     in expect_err (verify_authenticated_share hmac auth (as_bytes ''reshare-v1'') (as_bytes ''mac-key''))
          (\<lambda>err. err = MacAuthenticationFailed))"

definition test_authenticated_share_rejects_wrong_context :: "(bytes \<Rightarrow> bytes \<Rightarrow> bytes) \<Rightarrow> bool" where
  "test_authenticated_share_rejects_wrong_context hmac =
     expect (auth_share hmac) (\<lambda>auth.
     expect_err (verify_authenticated_share hmac auth (as_bytes ''other-context'') (as_bytes ''mac-key''))
       (\<lambda>err. err = MacAuthenticationFailed))"

definition test_authenticated_share_rejects_empty_key :: "(bytes \<Rightarrow> bytes \<Rightarrow> bytes) \<Rightarrow> bool" where
  "test_authenticated_share_rejects_empty_key hmac =
     expect_err (authenticate_share hmac ''p1'' (as_bytes ''share'') 1 (as_bytes ''ctx'') (as_bytes []))
       (\<lambda>err. err = EmptyMacKey)"

lemma auth_share_Inr:
  "auth_share hmac = Inr \<lparr>as_participant_id = ''p1'', as_share_bytes = as_bytes ''secret-share'', as_epoch = 3,
     as_mac = compute_mac hmac ''p1'' (as_bytes ''secret-share'') 3 (as_bytes ''reshare-v1'') (as_bytes ''mac-key'')\<rparr>"
  by (simp add: auth_share_def authenticate_share_def)

text \<open>Another identifier, share, epoch or context is rejected unless it gives HMAC another input with the
  same tag; the four inputs of these tests differ.\<close>

definition mac_input :: "string \<Rightarrow> bytes \<Rightarrow> u64 \<Rightarrow> string \<Rightarrow> bytes" where
  "mac_input p x e ctx = as_bytes p @ x @ to_le_bytes e @ as_bytes ctx"

lemma mac_rejects:
  assumes "key \<noteq> []" "mac_input p x e ctx \<noteq> mac_input q y f ctx'"
  shows "verify_authenticated_share hmac \<lparr>as_participant_id = q, as_share_bytes = y, as_epoch = f,
      as_mac = compute_mac hmac p x e (as_bytes ctx) key\<rparr> (as_bytes ctx') key = Inl MacAuthenticationFailed \<or>
    collides (hmac key) {mac_input p x e ctx, mac_input q y f ctx'}"
  using assms by (auto simp: verify_authenticated_share_def compute_mac_def mac_input_def intro!: collidesI)

lemma mac_tests_pass:
  "test_authenticated_share_roundtrip hmac" "test_authenticated_share_rejects_empty_key hmac"
  "test_authenticated_share_rejects_tampered_bytes hmac \<or> collides (hmac (as_bytes ''mac-key''))
     {mac_input ''p1'' (as_bytes ''secret-share'') 3 ''reshare-v1'',
      mac_input ''p1'' ((as_bytes ''secret-share'')[0 := as_bytes ''secret-share'' ! 0 XOR 0xFF]) 3 ''reshare-v1''}"
  "test_authenticated_share_rejects_wrong_epoch hmac \<or> collides (hmac (as_bytes ''mac-key''))
     {mac_input ''p1'' (as_bytes ''secret-share'') 3 ''reshare-v1'', mac_input ''p1'' (as_bytes ''secret-share'') 99 ''reshare-v1''}"
  "test_authenticated_share_rejects_wrong_participant hmac \<or> collides (hmac (as_bytes ''mac-key''))
     {mac_input ''p1'' (as_bytes ''secret-share'') 3 ''reshare-v1'', mac_input ''attacker'' (as_bytes ''secret-share'') 3 ''reshare-v1''}"
  "test_authenticated_share_rejects_wrong_context hmac \<or> collides (hmac (as_bytes ''mac-key''))
     {mac_input ''p1'' (as_bytes ''secret-share'') 3 ''reshare-v1'', mac_input ''p1'' (as_bytes ''secret-share'') 3 ''other-context''}"
proof -
  let ?k = "as_bytes ''mac-key''" and ?x = "as_bytes ''secret-share''"
  have key: "?k \<noteq> []"
    by simp
  show "test_authenticated_share_roundtrip hmac" "test_authenticated_share_rejects_empty_key hmac"
    by (simp_all add: test_authenticated_share_roundtrip_def auth_share_Inr verify_authenticated_share_def
        test_authenticated_share_rejects_empty_key_def authenticate_share_def)
  have "mac_input ''p1'' ?x 3 ''reshare-v1'' \<noteq> mac_input ''p1'' (?x[0 := ?x ! 0 XOR 0xFF]) 3 ''reshare-v1''"
    using xor_FF_ne by (simp add: mac_input_def)
  from mac_rejects [OF key this, of hmac]
  show "test_authenticated_share_rejects_tampered_bytes hmac \<or> collides (hmac (as_bytes ''mac-key''))
     {mac_input ''p1'' (as_bytes ''secret-share'') 3 ''reshare-v1'',
      mac_input ''p1'' ((as_bytes ''secret-share'')[0 := as_bytes ''secret-share'' ! 0 XOR 0xFF]) 3 ''reshare-v1''}"
    by (auto simp: test_authenticated_share_rejects_tampered_bytes_def auth_share_Inr simp del: as_bytes_simps)
  have "to_le_bytes 3 \<noteq> to_le_bytes 99"
    by (simp only: to_le_bytes_inj) simp
  then have "mac_input ''p1'' ?x 3 ''reshare-v1'' \<noteq> mac_input ''p1'' ?x 99 ''reshare-v1''"
    unfolding mac_input_def by (simp only: append_same_eq same_append_eq) simp
  from mac_rejects [OF key this, of hmac]
  show "test_authenticated_share_rejects_wrong_epoch hmac \<or> collides (hmac (as_bytes ''mac-key''))
     {mac_input ''p1'' (as_bytes ''secret-share'') 3 ''reshare-v1'', mac_input ''p1'' (as_bytes ''secret-share'') 99 ''reshare-v1''}"
    by (auto simp: test_authenticated_share_rejects_wrong_epoch_def auth_share_Inr simp del: as_bytes_simps)
  have "mac_input ''p1'' ?x 3 ''reshare-v1'' \<noteq> mac_input ''attacker'' ?x 3 ''reshare-v1''"
    by (simp add: mac_input_def)
  from mac_rejects [OF key this, of hmac]
  show "test_authenticated_share_rejects_wrong_participant hmac \<or> collides (hmac (as_bytes ''mac-key''))
     {mac_input ''p1'' (as_bytes ''secret-share'') 3 ''reshare-v1'', mac_input ''attacker'' (as_bytes ''secret-share'') 3 ''reshare-v1''}"
    by (auto simp: test_authenticated_share_rejects_wrong_participant_def auth_share_Inr simp del: as_bytes_simps)
  have "mac_input ''p1'' ?x 3 ''reshare-v1'' \<noteq> mac_input ''p1'' ?x 3 ''other-context''"
    by (simp add: mac_input_def)
  from mac_rejects [OF key this, of hmac]
  show "test_authenticated_share_rejects_wrong_context hmac \<or> collides (hmac (as_bytes ''mac-key''))
     {mac_input ''p1'' (as_bytes ''secret-share'') 3 ''reshare-v1'', mac_input ''p1'' (as_bytes ''secret-share'') 3 ''other-context''}"
    by (auto simp: test_authenticated_share_rejects_wrong_context_def auth_share_Inr simp del: as_bytes_simps)
qed

end
