(* ===== verification/Tests_Mpc.thy ===== *)
theory Tests_Mpc
  imports Mpc Test_Support
begin

text \<open>The tests of \<open>src/confidential_computing/mpc/mod.rs\<close>, for every function in the place of SHA-256.\<close>

definition test_mpc_policy_validation :: bool where
  "test_mpc_policy_validation =
     expect (mpc_policy_new 3 2 4) (\<lambda>p. mp_total_parties p = 3 \<and> mp_threshold p = 2 \<and> mp_max_rounds p = 4)"

definition test_mpc_register_and_submit :: bool where
  "test_mpc_register_and_submit =
     expect (mpc_policy_new 3 2 3) (\<lambda>policy.
     expect_call (register_party ''p1'' (mpc_new policy)) (\<lambda>_ s.
     expect_call (register_party ''p2'' s) (\<lambda>_ s.
     expect_call (submit_share (share_submission_new ''p1'' (as_bytes ''share1'')) s) (\<lambda>_ s.
     expect_call (submit_share (share_submission_new ''p2'' (as_bytes ''share2'')) s) (\<lambda>_ s.
     submitted_shares s = 2 \<and> can_finalize s)))))"

definition test_mpc_finalize_digest_deterministic :: "(bytes \<Rightarrow> bytes) \<Rightarrow> bool" where
  "test_mpc_finalize_digest_deterministic sha =
     expect (mpc_policy_new 3 2 3) (\<lambda>policy.
     expect_call (register_party ''p1'' (mpc_new policy)) (\<lambda>_ a.
     expect_call (register_party ''p2'' a) (\<lambda>_ a.
     expect_call (register_party ''p1'' (mpc_new policy)) (\<lambda>_ b.
     expect_call (register_party ''p2'' b) (\<lambda>_ b.
     expect_call (submit_share (share_submission_new ''p1'' (as_bytes ''A'')) a) (\<lambda>_ a.
     expect_call (submit_share (share_submission_new ''p2'' (as_bytes ''B'')) a) (\<lambda>_ a.
     expect_call (submit_share (share_submission_new ''p2'' (as_bytes ''B'')) b) (\<lambda>_ b.
     expect_call (submit_share (share_submission_new ''p1'' (as_bytes ''A'')) b) (\<lambda>_ b.
     expect (finalize_digest sha a) (\<lambda>digest_a.
     expect (finalize_digest sha b) (\<lambda>digest_b.
     digest_a = digest_b)))))))))))"

definition test_mpc_finalize_rejects_insufficient_shares :: "(bytes \<Rightarrow> bytes) \<Rightarrow> bool" where
  "test_mpc_finalize_rejects_insufficient_shares sha =
     expect (mpc_policy_new 3 2 3) (\<lambda>policy.
     expect_call (register_party ''p1'' (mpc_new policy)) (\<lambda>_ s.
     expect_call (submit_share (share_submission_new ''p1'' (as_bytes ''share1'')) s) (\<lambda>_ s.
     expect_err (finalize_digest sha s) (\<lambda>err. err = InsufficientShares))))"

definition test_mpc_commit_reveal_and_aggregate_flow :: "(bytes \<Rightarrow> bytes) \<Rightarrow> bool" where
  "test_mpc_commit_reveal_and_aggregate_flow sha =
     expect (mpc_policy_new 3 2 3) (\<lambda>policy.
     expect_call (register_party ''p1'' (mpc_new policy)) (\<lambda>_ s.
     expect_call (register_party ''p2'' s) (\<lambda>_ s.
     let c1 = commitment_for sha (as_bytes ''share-a'');
         c2 = commitment_for sha (as_bytes ''share-b'')
     in
     expect_call (submit_commit (commit_submission_new ''p1'' c1 11 1) s) (\<lambda>_ s.
     expect_call (submit_commit (commit_submission_new ''p2'' c2 12 1) s) (\<lambda>_ s.
     expect_call (submit_reveal sha (reveal_submission_new ''p1'' (as_bytes ''share-a'') 21 1) s) (\<lambda>_ s.
     expect_call (submit_reveal sha (reveal_submission_new ''p2'' (as_bytes ''share-b'') 22 1) s) (\<lambda>_ s.
     expect (finalize_digest sha s) (\<lambda>digest.
     expect_call (apply_aggregate sha (aggregate_message_new 1 31 digest) s) (\<lambda>_ s. True)))))))))"

definition test_mpc_replay_nonce_rejected :: "(bytes \<Rightarrow> bytes) \<Rightarrow> bool" where
  "test_mpc_replay_nonce_rejected sha =
     expect (mpc_policy_new 3 2 3) (\<lambda>policy.
     expect_call (register_party ''p1'' (mpc_new policy)) (\<lambda>_ s.
     let c1 = commitment_for sha (as_bytes ''share-a'')
     in
     expect_call (submit_commit (commit_submission_new ''p1'' c1 99 1) s) (\<lambda>_ s.
     expect_call_err (submit_reveal sha (reveal_submission_new ''p1'' (as_bytes ''share-a'') 99 1) s) (\<lambda>err.
     err = ReplayDetected 99))))"

lemmas mpc_eval = mpc_policy_new_def mpc_run_eval mpc_messages submitted_shares_def can_finalize_def finalize_digest_def

lemma mpc_tests_pass:
  "test_mpc_policy_validation" "test_mpc_register_and_submit" "test_mpc_finalize_digest_deterministic sha"
  "test_mpc_finalize_rejects_insufficient_shares sha" "test_mpc_commit_reveal_and_aggregate_flow sha"
  "test_mpc_replay_nonce_rejected sha"
  by (simp_all add: test_mpc_policy_validation_def test_mpc_register_and_submit_def
      test_mpc_finalize_digest_deterministic_def test_mpc_finalize_rejects_insufficient_shares_def
      test_mpc_commit_reveal_and_aggregate_flow_def test_mpc_replay_nonce_rejected_def mpc_eval)

end
