(* ===== verification/Tests_Audit.thy ===== *)
theory Tests_Audit
  imports Compliance Test_Support
begin

unbundle bit_operations_syntax

text \<open>
  The tests of \<open>src/audit/audit_log.rs\<close> and \<open>src/audit/compliance.rs\<close>, for every function in the place of
  SHA-256; the tests that tamper with an entry pass unless it collides.
\<close>

section \<open>The log\<close>

text \<open>Appending a list of rows, each of which must succeed.\<close>

fun append_rows :: "(bytes \<Rightarrow> bytes) \<Rightarrow> (u64 \<times> string \<times> string \<times> string option \<times> severity) list \<Rightarrow> audit_log
     \<Rightarrow> audit_error + audit_log" where
  "append_rows sha [] lg = Inr lg"
| "append_rows sha ((t, actor, action, detail, sev) # rows) lg =
     (case audit_append sha lg t actor action detail sev of Inl e \<Rightarrow> Inl e | Inr (_, lg) \<Rightarrow> append_rows sha rows lg)"

definition fill_log :: "(bytes \<Rightarrow> bytes) \<Rightarrow> audit_log \<Rightarrow> audit_error + audit_log" where
  "fill_log sha = append_rows sha
     [(1000, ''alice'', ''key.generate'', None, Info), (1001, ''alice'', ''vault.open'', Some ''vault-id=v1'', Info),
      (1002, ''bob'', ''key.revoke'', None, Warning)]"

definition test_append_and_length :: "(bytes \<Rightarrow> bytes) \<Rightarrow> bool" where
  "test_append_and_length sha = expect (fill_log sha audit_new) (\<lambda>lg. audit_len lg = 3)"

definition test_chain_valid_after_appends :: "(bytes \<Rightarrow> bytes) \<Rightarrow> bool" where
  "test_chain_valid_after_appends sha =
     expect (fill_log sha audit_new) (\<lambda>lg. expect (verify_chain sha lg) (\<lambda>_. True))"

definition test_chain_detects_tampered_action :: "(bytes \<Rightarrow> bytes) \<Rightarrow> bool" where
  "test_chain_detects_tampered_action sha =
     expect (fill_log sha audit_new) (\<lambda>lg.
     let lg = lg\<lparr>al_entries := (al_entries lg)[1 := (al_entries lg ! 1)\<lparr>ae_action := ''tampered.action''\<rparr>]\<rparr>
     in expect_err (verify_chain sha lg) (\<lambda>err. err = ChainBroken 1))"

definition test_chain_detects_tampered_hash :: "(bytes \<Rightarrow> bytes) \<Rightarrow> bool" where
  "test_chain_detects_tampered_hash sha =
     expect (fill_log sha audit_new) (\<lambda>lg.
     let e = al_entries lg ! 0;
         lg = lg\<lparr>al_entries := (al_entries lg)[0 := e\<lparr>ae_hash := (ae_hash e)[0 := ae_hash e ! 0 XOR 0xFF]\<rparr>]\<rparr>
     in expect_err (verify_chain sha lg) (\<lambda>err. err = ChainBroken 0))"

definition test_verify_empty_log_returns_error :: "(bytes \<Rightarrow> bytes) \<Rightarrow> bool" where
  "test_verify_empty_log_returns_error sha = expect_err (verify_chain sha audit_new) (\<lambda>err. err = EmptyLog)"

definition test_entries_by_actor :: "(bytes \<Rightarrow> bytes) \<Rightarrow> bool" where
  "test_entries_by_actor sha =
     expect (fill_log sha audit_new) (\<lambda>lg. let alice = entries_by_actor lg ''alice'' in length alice = 2)"

definition test_entries_by_action :: "(bytes \<Rightarrow> bytes) \<Rightarrow> bool" where
  "test_entries_by_action sha =
     expect (fill_log sha audit_new) (\<lambda>lg. let generates = entries_by_action lg ''key.generate'' in length generates = 1)"

definition test_entries_by_severity_warning_and_above :: "(bytes \<Rightarrow> bytes) \<Rightarrow> bool" where
  "test_entries_by_severity_warning_and_above sha =
     expect (fill_log sha audit_new) (\<lambda>lg.
     expect (audit_append sha lg 1003 ''sys'' ''auth.failure'' None Critical) (\<lambda>(_, lg).
     let high = entries_by_severity lg Warning in length high = 2))"

definition test_empty_actor_rejected :: "(bytes \<Rightarrow> bytes) \<Rightarrow> bool" where
  "test_empty_actor_rejected sha =
     expect_err (audit_append sha audit_new 0 [] ''action'' None Info) (\<lambda>err. err = EmptyActor)"

definition test_empty_action_rejected :: "(bytes \<Rightarrow> bytes) \<Rightarrow> bool" where
  "test_empty_action_rejected sha =
     expect_err (audit_append sha audit_new 0 ''actor'' [] None Info) (\<lambda>err. err = EmptyAction)"

definition test_index_is_sequential :: "(bytes \<Rightarrow> bytes) \<Rightarrow> bool" where
  "test_index_is_sequential sha =
     expect (fill_log sha audit_new) (\<lambda>lg.
     list_all (\<lambda>(i, entry). ae_index entry = i) (enumerate 0 (audit_entries lg)))"

lemmas audit_eval = fill_log_def audit_append_def audit_new_def audit_len_def audit_entries_def verify_chain_def
  entries_by_actor_def entries_by_action_def entries_by_severity_def Let_def

lemma audit_tests_pass:
  "test_append_and_length sha" "test_chain_valid_after_appends sha" "test_verify_empty_log_returns_error sha"
  "test_entries_by_actor sha" "test_entries_by_action sha" "test_entries_by_severity_warning_and_above sha"
  "test_empty_actor_rejected sha" "test_empty_action_rejected sha" "test_index_is_sequential sha"
  by (simp_all add: test_append_and_length_def test_chain_valid_after_appends_def test_verify_empty_log_returns_error_def
      test_entries_by_actor_def test_entries_by_action_def test_entries_by_severity_warning_and_above_def
      test_empty_actor_rejected_def test_empty_action_rejected_def test_index_is_sequential_def audit_eval)

lemma tampered_action_test_passes:
  "test_chain_detects_tampered_action sha \<or>
    collides sha ((\<lambda>action. sha (genesis_hash @ to_le_bytes 1000 @ as_bytes ''alice'' @ as_bytes ''key.generate'') @
      to_le_bytes 1001 @ as_bytes ''alice'' @ as_bytes action @ as_bytes ''vault-id=v1'') `
      {''tampered.action'', ''vault.open''})"
proof -
  let ?pre = "\<lambda>action. sha (genesis_hash @ to_le_bytes 1000 @ as_bytes ''alice'' @ as_bytes ''key.generate'') @
    to_le_bytes 1001 @ as_bytes ''alice'' @ as_bytes action @ as_bytes ''vault-id=v1''"
  have "test_chain_detects_tampered_action sha \<longleftrightarrow> sha (?pre ''tampered.action'') \<noteq> sha (?pre ''vault.open'')"
    by (simp add: test_chain_detects_tampered_action_def audit_eval compute_entry_hash_def detail_str_def del: as_bytes_simps)
      (simp add: as_bytes_def)
  moreover have "?pre ''tampered.action'' \<noteq> ?pre ''vault.open''"
    by simp
  ultimately show ?thesis
    by (auto intro: collidesI)
qed

lemma tampered_hash_test_passes:
  assumes "\<And>x. sha x \<noteq> []"
  shows "test_chain_detects_tampered_hash sha"
proof -
  let ?h = "sha (genesis_hash @ to_le_bytes 1000 @ as_bytes ''alice'' @ as_bytes ''key.generate'')"
  have "?h[0 := ?h ! 0 XOR 0xFF] \<noteq> ?h"
    using assms xor_FF_ne by (metis length_greater_0_conv nth_list_update_eq)
  then show ?thesis
    by (simp add: test_chain_detects_tampered_hash_def audit_eval compute_entry_hash_def detail_str_def eq_commute)
qed

section \<open>The gate\<close>

definition make_log :: "(bytes \<Rightarrow> bytes) \<Rightarrow> audit_error + audit_log" where
  "make_log sha = append_rows sha
     [(1000, ''alice'', ''key.generate'', None, Info), (1001, ''alice'', ''key.revoke'', None, Critical),
      (1002, ''alice'', ''key.rotation'', None, Info)] audit_new"

definition failures_log :: "(bytes \<Rightarrow> bytes) \<Rightarrow> nat \<Rightarrow> audit_error + audit_log" where
  "failures_log sha n = append_rows sha
     (map (\<lambda>i. (of_nat i, ''anon'', ''auth.failure'', None, Warning)) [0..<n] @ [(100, ''sys'', ''session.end'', None, Info)])
     audit_new"

definition test_compliance_empty_log_returns_error :: bool where
  "test_compliance_empty_log_returns_error = expect_err (evaluate audit_new []) (\<lambda>err. err = ComplianceEmptyLog)"

definition test_clean_log_passes_all_rules :: "(bytes \<Rightarrow> bytes) \<Rightarrow> bool" where
  "test_clean_log_passes_all_rules sha =
     expect (make_log sha) (\<lambda>lg.
     let rules = [MaxConsecutiveAuthFailures 3, RequireCriticalOnRevocation, MaxRevocationToRotationRatio (Fin 2)]
     in expect (evaluate lg rules) (\<lambda>report. cr_passed report \<and> cr_violations report = []))"

definition test_consecutive_auth_failures_violation :: "(bytes \<Rightarrow> bytes) \<Rightarrow> bool" where
  "test_consecutive_auth_failures_violation sha =
     expect (failures_log sha 5) (\<lambda>lg.
     let rules = [MaxConsecutiveAuthFailures 3]
     in expect (evaluate lg rules) (\<lambda>report.
          \<not> cr_passed report \<and> length (cr_violations report) = 1 \<and>
          length (cv_entry_indices (cr_violations report ! 0)) = 5))"

definition test_auth_failures_within_limit_passes :: "(bytes \<Rightarrow> bytes) \<Rightarrow> bool" where
  "test_auth_failures_within_limit_passes sha =
     expect (failures_log sha 3) (\<lambda>lg.
     let rules = [MaxConsecutiveAuthFailures 3]
     in expect (evaluate lg rules) (\<lambda>report. cr_passed report))"

definition test_revocation_not_critical_is_violation :: "(bytes \<Rightarrow> bytes) \<Rightarrow> bool" where
  "test_revocation_not_critical_is_violation sha =
     expect (append_rows sha [(1, ''sys'', ''key.revoke'', None, Warning)] audit_new) (\<lambda>lg.
     let rules = [RequireCriticalOnRevocation]
     in expect (evaluate lg rules) (\<lambda>report.
          \<not> cr_passed report \<and> cv_entry_indices (cr_violations report ! 0) = [0]))"

definition test_revocation_with_no_rotation_is_violation :: "(bytes \<Rightarrow> bytes) \<Rightarrow> bool" where
  "test_revocation_with_no_rotation_is_violation sha =
     expect (append_rows sha [(1, ''sys'', ''key.revoke'', None, Critical), (2, ''sys'', ''key.revoke'', None, Critical)]
       audit_new) (\<lambda>lg.
     let rules = [MaxRevocationToRotationRatio (Fin 1)]
     in expect (evaluate lg rules) (\<lambda>report. \<not> cr_passed report))"

definition test_ratio_within_limit_passes :: "(bytes \<Rightarrow> bytes) \<Rightarrow> bool" where
  "test_ratio_within_limit_passes sha =
     expect (make_log sha) (\<lambda>lg.
     let rules = [MaxRevocationToRotationRatio (Fin 1)]
     in expect (evaluate lg rules) (\<lambda>report. cr_passed report))"

definition test_ratio_exceeds_limit_is_violation :: "(bytes \<Rightarrow> bytes) \<Rightarrow> bool" where
  "test_ratio_exceeds_limit_is_violation sha =
     expect (append_rows sha [(1, ''sys'', ''key.revoke'', None, Critical), (2, ''sys'', ''key.revoke'', None, Critical),
       (3, ''sys'', ''key.rotation'', None, Info)] audit_new) (\<lambda>lg.
     let rules = [MaxRevocationToRotationRatio (Fin 1)]
     in expect (evaluate lg rules) (\<lambda>report. \<not> cr_passed report))"

definition test_total_entries_is_correct :: "(bytes \<Rightarrow> bytes) \<Rightarrow> bool" where
  "test_total_entries_is_correct sha =
     expect (make_log sha) (\<lambda>lg. expect (evaluate lg []) (\<lambda>report. cr_total_entries report = 3))"

lemmas gate_eval = make_log_def failures_log_def audit_append_def audit_new_def audit_len_def audit_is_empty_def evaluate_def
  check_consecutive_auth_failures_def flag_run_def is_failure_def check_revocation_rotation_ratio_def count_action_def
  Let_def upt_rec

lemma ratios: "f64_div (Suc 0) (Suc 0) = Fin 1" "f64_div (Suc (Suc 0)) (Suc 0) = Fin 2"
  by code_simp+

lemma compliance_tests_pass:
  "test_compliance_empty_log_returns_error" "test_clean_log_passes_all_rules sha"
  "test_consecutive_auth_failures_violation sha" "test_auth_failures_within_limit_passes sha"
  "test_revocation_not_critical_is_violation sha" "test_revocation_with_no_rotation_is_violation sha"
  "test_ratio_within_limit_passes sha" "test_ratio_exceeds_limit_is_violation sha" "test_total_entries_is_correct sha"
  by (simp_all add: test_compliance_empty_log_returns_error_def test_clean_log_passes_all_rules_def
      test_consecutive_auth_failures_violation_def test_auth_failures_within_limit_passes_def
      test_revocation_not_critical_is_violation_def test_revocation_with_no_rotation_is_violation_def
      test_ratio_within_limit_passes_def test_ratio_exceeds_limit_is_violation_def test_total_entries_is_correct_def
      gate_eval ratios)

end
