(* ===== verification/Tests_Registries.thy ===== *)
theory Tests_Registries
  imports Dpki Smart_Contract Revocation Rotation Test_Support
begin

text \<open>
  The tests of \<open>src/blockchain/\<close>, \<open>src/revocation.rs\<close> and \<open>src/rotation.rs\<close>, for every function in the place
  of SHA-256, every key of the revocation list and every time.
\<close>

section \<open>Key anchors\<close>

definition anchor_pk :: "string \<Rightarrow> bytes" where
  "anchor_pk label = as_bytes (''public-key-'' @ label)"

definition test_register_and_verify :: "(bytes \<Rightarrow> bytes) \<Rightarrow> bool" where
  "test_register_and_verify sha =
     expect (registry_register sha (anchor_pk ''alice'') ''alice'' 1000 registry_new) (\<lambda>(anchor, registry).
     \<not> ka_revoked anchor \<and>
     expect (verify_anchor sha registry (anchor_pk ''alice'')) (\<lambda>found. ka_owner_id found = ''alice''))"

definition test_register_duplicate_rejected :: "(bytes \<Rightarrow> bytes) \<Rightarrow> bool" where
  "test_register_duplicate_rejected sha =
     expect (registry_register sha (anchor_pk ''bob'') ''bob'' 1000 registry_new) (\<lambda>(_, registry).
     expect_err (registry_register sha (anchor_pk ''bob'') ''bob'' 1001 registry) (\<lambda>err. err = AlreadyAnchored))"

definition test_register_empty_key_rejected :: "(bytes \<Rightarrow> bytes) \<Rightarrow> bool" where
  "test_register_empty_key_rejected sha =
     expect_err (registry_register sha (as_bytes []) ''alice'' 0 registry_new) (\<lambda>err. err = EmptyPublicKey)"

definition test_revoke_allows_owner :: "(bytes \<Rightarrow> bytes) \<Rightarrow> bool" where
  "test_revoke_allows_owner sha =
     expect (registry_register sha (anchor_pk ''carol'') ''carol'' 2000 registry_new) (\<lambda>(anchor, registry).
     expect (registry_revoke (ka_anchor_id anchor) ''carol'' registry) (\<lambda>registry.
     expect_err (verify_anchor sha registry (anchor_pk ''carol'')) (\<lambda>err. err = AnchorRevoked)))"

definition test_revoke_rejects_wrong_owner :: "(bytes \<Rightarrow> bytes) \<Rightarrow> bool" where
  "test_revoke_rejects_wrong_owner sha =
     expect (registry_register sha (anchor_pk ''dan'') ''dan'' 3000 registry_new) (\<lambda>(anchor, registry).
     expect_err (registry_revoke (ka_anchor_id anchor) ''eve'' registry)
       (\<lambda>err. case err of OwnerMismatch _ _ \<Rightarrow> True | _ \<Rightarrow> False))"

definition test_lookup_nonexistent_returns_none :: bool where
  "test_lookup_nonexistent_returns_none = (registry_lookup registry_new ''deadbeef'' = None)"

definition test_verify_unknown_key_returns_not_found :: "(bytes \<Rightarrow> bytes) \<Rightarrow> bool" where
  "test_verify_unknown_key_returns_not_found sha =
     expect_err (verify_anchor sha registry_new (anchor_pk ''ghost'')) (\<lambda>err. err = AnchorNotFound)"

definition test_matches_key_predicate :: "(bytes \<Rightarrow> bytes) \<Rightarrow> bool" where
  "test_matches_key_predicate sha =
     (let anchor = key_anchor_new sha (anchor_pk ''frank'') ''frank'' 0
      in matches_key sha anchor (anchor_pk ''frank'') \<and> \<not> matches_key sha anchor (anchor_pk ''other''))"

lemmas anchor_eval = registry_register_def registry_new_def registry_revoke_def registry_lookup_def verify_anchor_def
  verify_anchor_by_id_def key_anchor_new_def matches_key_def hm_contains_def Let_def store_simps anchor_pk_def

lemma anchor_tests_pass:
  "test_register_and_verify sha" "test_register_duplicate_rejected sha" "test_register_empty_key_rejected sha"
  "test_revoke_allows_owner sha" "test_revoke_rejects_wrong_owner sha" "test_lookup_nonexistent_returns_none"
  "test_verify_unknown_key_returns_not_found sha"
  by (simp_all add: test_register_and_verify_def test_register_duplicate_rejected_def test_register_empty_key_rejected_def
      test_revoke_allows_owner_def test_revoke_rejects_wrong_owner_def test_lookup_nonexistent_returns_none_def
      test_verify_unknown_key_returns_not_found_def anchor_eval)

lemma matches_key_test_passes: "test_matches_key_predicate sha \<or> collides sha {anchor_pk ''frank'', anchor_pk ''other''}"
  using collidesI [of sha "anchor_pk ''frank''" "anchor_pk ''other''" "{anchor_pk ''frank'', anchor_pk ''other''}"]
  by (auto simp: test_matches_key_predicate_def anchor_eval)

section \<open>The decentralised registry of keys\<close>

definition dpki_pk :: "string \<Rightarrow> bytes" where
  "dpki_pk label = as_bytes (''dpki-public-key-'' @ label)"

definition test_register_and_resolve :: "(bytes \<Rightarrow> bytes) \<Rightarrow> bool" where
  "test_register_and_resolve sha =
     expect (register_key sha ''did:alice'' (dpki_pk ''alice'') 0 None 0 dpki_new) (\<lambda>(_, d).
     expect (resolve d ''did:alice'' 100) (\<lambda>e. de_entity_id e = ''did:alice''))"

definition test_duplicate_registration_rejected :: "(bytes \<Rightarrow> bytes) \<Rightarrow> bool" where
  "test_duplicate_registration_rejected sha =
     expect (register_key sha ''did:bob'' (dpki_pk ''bob'') 0 None 0 dpki_new) (\<lambda>(_, d).
     expect_err (register_key sha ''did:bob'' (dpki_pk ''bob2'') 0 None 1 d) (\<lambda>err. err = AlreadyRegistered))"

definition test_resolve_expired_entry :: "(bytes \<Rightarrow> bytes) \<Rightarrow> bool" where
  "test_resolve_expired_entry sha =
     expect (register_key sha ''did:carol'' (dpki_pk ''carol'') 0 (Some 500) 0 dpki_new) (\<lambda>(_, d).
     expect_err (resolve d ''did:carol'' 501) (\<lambda>err. case err of DpkiExpired _ _ \<Rightarrow> True | _ \<Rightarrow> False))"

definition test_resolve_not_yet_valid :: "(bytes \<Rightarrow> bytes) \<Rightarrow> bool" where
  "test_resolve_not_yet_valid sha =
     expect (register_key sha ''did:dan'' (dpki_pk ''dan'') 1000 None 0 dpki_new) (\<lambda>(_, d).
     expect_err (resolve d ''did:dan'' 500) (\<lambda>err. case err of DpkiNotYetValid _ _ \<Rightarrow> True | _ \<Rightarrow> False))"

definition test_invalidate_blocks_resolve :: "(bytes \<Rightarrow> bytes) \<Rightarrow> bool" where
  "test_invalidate_blocks_resolve sha =
     expect (register_key sha ''did:eve'' (dpki_pk ''eve'') 0 None 0 dpki_new) (\<lambda>(_, d).
     expect (invalidate ''did:eve'' d) (\<lambda>d.
     expect_err (resolve d ''did:eve'' 100) (\<lambda>err. err = DpkiAnchorError AnchorRevoked)))"

definition test_resolve_unknown_entity :: bool where
  "test_resolve_unknown_entity = expect_err (resolve dpki_new ''did:ghost'' 0) (\<lambda>err. err = DpkiNotFound)"

definition test_dpki_empty_key_rejected :: "(bytes \<Rightarrow> bytes) \<Rightarrow> bool" where
  "test_dpki_empty_key_rejected sha =
     expect_err (register_key sha ''did:empty'' (as_bytes []) 0 None 0 dpki_new) (\<lambda>err. err = DpkiEmptyPublicKey)"

lemmas dpki_eval = register_key_def resolve_def invalidate_def is_valid_at_def dpki_new_def dpki_pk_def

lemma dpki_tests_pass:
  "test_register_and_resolve sha" "test_duplicate_registration_rejected sha" "test_resolve_expired_entry sha"
  "test_resolve_not_yet_valid sha" "test_invalidate_blocks_resolve sha" "test_resolve_unknown_entity"
  "test_dpki_empty_key_rejected sha"
  by (simp_all add: test_register_and_resolve_def test_duplicate_registration_rejected_def test_resolve_expired_entry_def
      test_resolve_not_yet_valid_def test_invalidate_blocks_resolve_def test_resolve_unknown_entity_def
      test_dpki_empty_key_rejected_def dpki_eval anchor_eval)

section \<open>The simulated contract\<close>

definition contract_pk :: "string \<Rightarrow> bytes" where
  "contract_pk label = as_bytes (''contract-pk-'' @ label)"

definition test_submit_and_verify :: "(bytes \<Rightarrow> bytes) \<Rightarrow> bool" where
  "test_submit_and_verify sha =
     expect (submit_anchor sha (contract_pk ''alice'') ''alice'' 0 contract_new) (\<lambda>(anchor_id, contract).
     expect (verify_on_chain contract anchor_id) (\<lambda>r.
     oc_valid r \<and> oc_anchor_id r = anchor_id \<and> oc_block_height r = 1))"

definition test_revoke_marks_invalid :: "(bytes \<Rightarrow> bytes) \<Rightarrow> bool" where
  "test_revoke_marks_invalid sha =
     expect (submit_anchor sha (contract_pk ''bob'') ''bob'' 0 contract_new) (\<lambda>(anchor_id, contract).
     expect (revoke_anchor anchor_id ''bob'' contract) (\<lambda>contract.
     expect (verify_on_chain contract anchor_id) (\<lambda>r. \<not> oc_valid r \<and> oc_block_height r = 2)))"

definition test_verify_unknown_anchor_fails :: bool where
  "test_verify_unknown_anchor_fails =
     expect_err (verify_on_chain contract_new ''deadbeef'') (\<lambda>err. case err of VerificationFailed _ \<Rightarrow> True | _ \<Rightarrow> False)"

definition test_revoke_wrong_owner_fails :: "(bytes \<Rightarrow> bytes) \<Rightarrow> bool" where
  "test_revoke_wrong_owner_fails sha =
     expect (submit_anchor sha (contract_pk ''carol'') ''carol'' 0 contract_new) (\<lambda>(anchor_id, contract).
     expect_err (revoke_anchor anchor_id ''attacker'' contract)
       (\<lambda>err. case err of ContractAnchorError (OwnerMismatch _ _) \<Rightarrow> True | _ \<Rightarrow> False))"

definition test_block_height_increments :: "(bytes \<Rightarrow> bytes) \<Rightarrow> bool" where
  "test_block_height_increments sha =
     (let contract = contract_new
      in sc_block_height contract = 0 \<and>
         expect (submit_anchor sha (contract_pk ''dan'') ''dan'' 0 contract) (\<lambda>(_, contract).
         sc_block_height contract = 1 \<and>
         expect (submit_anchor sha (contract_pk ''eve'') ''eve'' 0 contract) (\<lambda>(anchor_id, contract).
         sc_block_height contract = 2 \<and>
         expect (revoke_anchor anchor_id ''eve'' contract) (\<lambda>contract. sc_block_height contract = 3))))"

lemmas contract_eval = submit_anchor_def verify_on_chain_def revoke_anchor_def contract_new_def contract_pk_def
  saturating_add_def

lemma contract_tests_pass:
  "test_submit_and_verify sha" "test_revoke_marks_invalid sha" "test_verify_unknown_anchor_fails"
  "test_revoke_wrong_owner_fails sha"
  by (simp_all add: test_submit_and_verify_def test_revoke_marks_invalid_def test_verify_unknown_anchor_fails_def
      test_revoke_wrong_owner_fails_def contract_eval anchor_eval)

lemma block_height_test_passes: "test_block_height_increments sha \<or> collides sha {contract_pk ''dan'', contract_pk ''eve''}"
proof (cases "sha (contract_pk ''dan'') = sha (contract_pk ''eve'')")
  case True
  then show ?thesis
    by (intro disjI2 collidesI [of sha "contract_pk ''dan''" "contract_pk ''eve''"]) (simp_all add: contract_pk_def)
next
  case False
  then have "hex_encode (sha (contract_pk ''eve'')) \<noteq> hex_encode (sha (contract_pk ''dan''))"
    by (simp add: eq_commute)
  then show ?thesis
    by (simp add: test_block_height_increments_def submit_anchor_def verify_on_chain_def revoke_anchor_def contract_new_def
        saturating_add_def registry_register_def registry_new_def registry_revoke_def key_anchor_new_def hm_contains_def Let_def
        store_simps) (simp add: contract_pk_def)
qed

section \<open>Revocation and rotation\<close>

definition test_revoke_and_check :: "(bytes \<Rightarrow> bytes) \<Rightarrow> (nat \<Rightarrow> bytes) \<Rightarrow> u64 \<Rightarrow> bool" where
  "test_revoke_and_check sha getrandom now =
     (let crl = rl_new getrandom
      in \<not> is_revoked crl ''agent-1'' \<and>
         (let crl = rl_revoke sha now ''agent-1'' Compromised ''admin'' ''Key leaked'' crl
          in is_revoked crl ''agent-1'' \<and> \<not> is_revoked crl ''agent-2''))"

definition test_integrity :: "(bytes \<Rightarrow> bytes) \<Rightarrow> (nat \<Rightarrow> bytes) \<Rightarrow> u64 \<Rightarrow> bool" where
  "test_integrity sha getrandom now =
     (let crl = rl_revoke sha now ''key-1'' Rotated ''system'' ''routine'' (rl_new getrandom)
      in verify_integrity sha crl)"

lemma revocation_tests_pass: "test_revoke_and_check sha getrandom now" "test_integrity sha getrandom now"
  by (simp_all add: test_revoke_and_check_def test_integrity_def rl_new_def rl_with_key_def rl_revoke_def is_revoked_def
      verify_integrity_def rl_compute_signature_def Let_def hm_contains_def store_simps)

text \<open>The times of the calls, which the code reads from the clock, are arguments.\<close>

definition test_usage_based_rotation :: "u64 \<Rightarrow> (nat \<Rightarrow> u64) \<Rightarrow> u64 \<Rightarrow> bool" where
  "test_usage_based_rotation t0 t t1 =
     (let manager = rotation_register t0 ''test-key'' None (Some 5) (rotation_new 0 5);
          manager = fold (\<lambda>i. record_usage (t i) ''test-key'' True) [0..<5] manager
      in needs_rotation t1 manager ''test-key'')"

definition test_no_rotation_under_limit :: "u64 \<Rightarrow> (nat \<Rightarrow> u64) \<Rightarrow> u64 \<Rightarrow> bool" where
  "test_no_rotation_under_limit t0 t t1 =
     (let manager = rotation_register t0 ''test-key'' None (Some 10) (rotation_new 0 10);
          manager = fold (\<lambda>i. record_usage (t i) ''test-key'' True) [0..<3] manager
      in \<not> needs_rotation t1 manager ''test-key'')"

lemma rotation_tests_pass: "test_usage_based_rotation t0 t t1" "test_no_rotation_under_limit t0 t t1"
  by (simp_all add: test_usage_based_rotation_def test_no_rotation_under_limit_def rotation_register_def rotation_new_def
      record_usage_def record_encrypt_def needs_rotation_def should_expire_def total_operations_def Let_def upt_rec store_simps)

end
