(* ===== verification/Tests_Keys.thy ===== *)
theory Tests_Keys
  imports Key_Cache Test_Support
begin

unbundle bit_operations_syntax

text \<open>
  The tests of \<open>src/kdf.rs\<close> and \<open>src/performance/key_cache.rs\<close>, for every function in the place of SHA-256
  and every Argon2id that fills the key it is given.
\<close>

definition argon2_total :: "argon2id \<Rightarrow> bool" where
  "argon2_total argon2 = (\<forall>m t p n pw salt. 8 \<le> length salt \<longrightarrow> (\<exists>key. argon2 m t p n pw salt = Some key \<and> length key = n))"

section \<open>Key derivation\<close>

definition test_argon2id_derivation :: "argon2id \<Rightarrow> (nat \<Rightarrow> bytes) \<Rightarrow> bool" where
  "test_argon2id_derivation argon2 rng =
     expect_ok (derive_key argon2 rng ''test-passphrase'' None :: (unit, bytes \<times> bytes) outcome) (\<lambda>(key1, salt).
     \<not> list_all (\<lambda>b. b = 0) key1 \<and> length salt = SALT_LENGTH \<and>
     expect_ok (derive_key_with_salt argon2 rng ''test-passphrase'' salt :: (unit, bytes) outcome) (\<lambda>key2. key1 = key2 \<and>
     expect_ok (derive_key argon2 rng ''different-passphrase'' (Some salt) :: (unit, bytes \<times> bytes) outcome) (\<lambda>(key3, _). key1 \<noteq> key3 \<and>
     (let different_salt = salt[0 := salt ! 0 XOR 0xFF]
      in expect_ok (derive_key_with_salt argon2 rng ''test-passphrase'' different_salt :: (unit, bytes) outcome) (\<lambda>key4. key1 \<noteq> key4)))))"

definition test_key_length :: "argon2id \<Rightarrow> (nat \<Rightarrow> bytes) \<Rightarrow> bool" where
  "test_key_length argon2 rng =
     expect_ok (derive_key argon2 rng ''any-pass'' None :: (unit, bytes \<times> bytes) outcome) (\<lambda>(key, _). length key = ARGON2_KEY_LENGTH)"

lemma key_length_test_passes:
  assumes "argon2_total argon2" "length (rng 16) = 16"
  shows "test_key_length argon2 rng"
proof -
  have "8 \<le> length (rng 16)"
    using assms(2) by simp
  then obtain key where "argon2 ARGON2_MEMORY_KIB ARGON2_TIME_COST ARGON2_PARALLELISM ARGON2_KEY_LENGTH
      (as_bytes ''any-pass'') (rng 16) = Some key" "length key = ARGON2_KEY_LENGTH"
    using assms(1) unfolding argon2_total_def by blast
  then show ?thesis
    by (simp add: test_key_length_def derive_key_def SALT_LENGTH_def Let_def del: as_bytes_simps)
qed

text \<open>The first test needs a key that is not zero, and another key for another passphrase or salt.\<close>

lemma argon2id_test_passes:
  assumes "argon2_total argon2" "length (rng 16) = 16"
    and "f = (\<lambda>(pw, salt). argon2 65536 3 4 32 (as_bytes pw) salt)"
    and "f (''test-passphrase'', rng 16) \<noteq> Some (replicate 32 0)"
    and "f (''different-passphrase'', rng 16) \<noteq> f (''test-passphrase'', rng 16)"
    and "f (''test-passphrase'', (rng 16)[0 := rng 16 ! 0 XOR 0xFF]) \<noteq> f (''test-passphrase'', rng 16)"
  shows "test_argon2id_derivation argon2 rng"
proof -
  have total: "\<exists>key. f (pw, salt) = Some key \<and> length key = 32" if "length salt = 16" for pw salt
    using assms(1) that unfolding argon2_total_def assms(3) by simp
  obtain k1 k3 k4 where k: "f (''test-passphrase'', rng 16) = Some k1" "length k1 = 32"
    "f (''different-passphrase'', rng 16) = Some k3"
    "f (''test-passphrase'', (rng 16)[0 := rng 16 ! 0 XOR 0xFF]) = Some k4"
    using total assms(2) by (metis length_list_update)
  have "k1 = replicate 32 0" if "list_all (\<lambda>b. b = 0) k1"
    using that k(2) by (intro replicate_eqI) (auto simp: list_all_iff)
  then have "\<not> list_all (\<lambda>b. b = 0) k1"
    using assms(4) k(1) by auto
  moreover have "k1 \<noteq> k3" "k1 \<noteq> k4"
    using k assms(5,6) by auto
  ultimately show ?thesis
    using k assms(2) unfolding assms(3)
    by (simp add: test_argon2id_derivation_def derive_key_with_salt_def derive_key_def SALT_LENGTH_def Let_def
        ARGON2_MEMORY_KIB_def ARGON2_TIME_COST_def ARGON2_PARALLELISM_def ARGON2_KEY_LENGTH_def
        del: as_bytes_simps)
qed

section \<open>The cache\<close>

definition cache_PW :: bytes where
  "cache_PW = as_bytes ''passphrase-test''"

definition cache_SALT :: bytes where
  "cache_SALT = as_bytes ''salt-16-bytesXXX''"

definition test_cache_miss_derives_key :: "(bytes \<Rightarrow> bytes) \<Rightarrow> argon2id \<Rightarrow> (nat \<Rightarrow> bytes) \<Rightarrow> bool" where
  "test_cache_miss_derives_key sha argon2 rng =
     expect (cache_new 4) (\<lambda>cache.
     expect_ok_call (get_or_derive sha argon2 rng cache_PW cache_SALT 32 cache) (\<lambda>key cache.
     length key = 32 \<and>
     (let stats = cache_stats_of cache in cst_total_misses stats = 1 \<and> cst_total_hits stats = 0)))"

definition test_cache_hit_returns_same_bytes :: "(bytes \<Rightarrow> bytes) \<Rightarrow> argon2id \<Rightarrow> (nat \<Rightarrow> bytes) \<Rightarrow> bool" where
  "test_cache_hit_returns_same_bytes sha argon2 rng =
     expect (cache_new 4) (\<lambda>cache.
     expect_ok_call (get_or_derive sha argon2 rng cache_PW cache_SALT 32 cache) (\<lambda>k1 cache.
     expect_ok_call (get_or_derive sha argon2 rng cache_PW cache_SALT 32 cache) (\<lambda>k2 cache.
     k1 = k2 \<and>
     (let stats = cache_stats_of cache in cst_total_misses stats = 1 \<and> cst_total_hits stats = 1))))"

definition test_different_output_lengths_are_distinct_entries ::
  "(bytes \<Rightarrow> bytes) \<Rightarrow> argon2id \<Rightarrow> (nat \<Rightarrow> bytes) \<Rightarrow> bool" where
  "test_different_output_lengths_are_distinct_entries sha argon2 rng =
     expect (cache_new 8) (\<lambda>cache.
     expect_ok_call (get_or_derive sha argon2 rng cache_PW cache_SALT 16 cache) (\<lambda>k16 cache.
     expect_ok_call (get_or_derive sha argon2 rng cache_PW cache_SALT 32 cache) (\<lambda>k32 cache.
     length k16 = 16 \<and> length k32 = 32 \<and> cache_len cache = 2 \<and> cst_total_misses (cache_stats_of cache) = 2)))"

definition test_capacity_evicts_oldest :: "(bytes \<Rightarrow> bytes) \<Rightarrow> argon2id \<Rightarrow> (nat \<Rightarrow> bytes) \<Rightarrow> bool" where
  "test_capacity_evicts_oldest sha argon2 rng =
     expect (cache_new 2) (\<lambda>cache.
     expect_ok_call (get_or_derive sha argon2 rng (as_bytes ''pw1'') cache_SALT 32 cache) (\<lambda>_ cache.
     expect_ok_call (get_or_derive sha argon2 rng (as_bytes ''pw2'') cache_SALT 32 cache) (\<lambda>_ cache.
     cache_len cache = 2 \<and>
     expect_ok_call (get_or_derive sha argon2 rng (as_bytes ''pw3'') cache_SALT 32 cache) (\<lambda>_ cache.
     cache_len cache = 2 \<and>
     (let stats_before = cache_stats_of cache
      in expect_ok_call (get_or_derive sha argon2 rng (as_bytes ''pw1'') cache_SALT 32 cache) (\<lambda>_ cache.
         let stats_after = cache_stats_of cache
         in cst_total_misses stats_after = cst_total_misses stats_before + 1))))))"

definition test_invalidate_removes_entry :: "(bytes \<Rightarrow> bytes) \<Rightarrow> argon2id \<Rightarrow> (nat \<Rightarrow> bytes) \<Rightarrow> bool" where
  "test_invalidate_removes_entry sha argon2 rng =
     expect (cache_new 4) (\<lambda>cache.
     expect_ok_call (get_or_derive sha argon2 rng cache_PW cache_SALT 32 cache) (\<lambda>_ cache.
     cache_len cache = 1 \<and>
     (let (removed, cache) = cache_invalidate sha cache_PW cache_SALT 32 cache
      in removed \<and> cache_is_empty cache)))"

definition test_invalidate_nonexistent_returns_false :: "(bytes \<Rightarrow> bytes) \<Rightarrow> bool" where
  "test_invalidate_nonexistent_returns_false sha =
     expect (cache_new 4) (\<lambda>cache. \<not> fst (cache_invalidate sha (as_bytes ''missing'') cache_SALT 32 cache))"

definition test_clear_empties_cache :: "(bytes \<Rightarrow> bytes) \<Rightarrow> argon2id \<Rightarrow> (nat \<Rightarrow> bytes) \<Rightarrow> bool" where
  "test_clear_empties_cache sha argon2 rng =
     expect (cache_new 4) (\<lambda>cache.
     expect_ok_call (get_or_derive sha argon2 rng cache_PW cache_SALT 32 cache) (\<lambda>_ cache.
     cache_is_empty (cache_clear cache)))"

definition test_invalid_output_length_rejected :: "(bytes \<Rightarrow> bytes) \<Rightarrow> argon2id \<Rightarrow> (nat \<Rightarrow> bytes) \<Rightarrow> bool" where
  "test_invalid_output_length_rejected sha argon2 rng =
     expect (cache_new 4) (\<lambda>cache.
     case get_or_derive sha argon2 rng cache_PW cache_SALT 0 cache of
       (Err _, cache) \<Rightarrow>
         (case get_or_derive sha argon2 rng cache_PW cache_SALT 65 cache of (Err _, _) \<Rightarrow> True | _ \<Rightarrow> False)
     | _ \<Rightarrow> False)"

definition test_zero_capacity_rejected :: bool where
  "test_zero_capacity_rejected = expect_err (cache_new 0) (\<lambda>_. True)"

text \<open>A request on the cache: what a miss and a hit return and leave.\<close>

lemma cache_miss:
  assumes "argon2_total argon2" "0 < n" "n \<le> 32" "cache_key_new sha pw cache_SALT n = k" "hm_get (kc_entries c) k = None"
  obtains key where "length key = n" "get_or_derive sha argon2 rng pw cache_SALT n c =
    (Ok key, let c2 = cache_evict (c\<lparr>kc_total_misses := saturating_add (kc_total_misses c) 1\<rparr>)
     in c2\<lparr>kc_entries := hm_insert k \<lparr>ce_key_bytes = key, ce_hits = 0\<rparr> (kc_entries c2), kc_order := kc_order c2 @ [k]\<rparr>)"
proof -
  have "8 \<le> length cache_SALT"
    by (simp add: cache_SALT_def as_bytes_def)
  then obtain full where "argon2 ARGON2_MEMORY_KIB ARGON2_TIME_COST ARGON2_PARALLELISM ARGON2_KEY_LENGTH
      (as_bytes (from_utf8_lossy pw)) cache_SALT = Some full" "length full = 32"
    using assms(1) unfolding argon2_total_def by (metis ARGON2_KEY_LENGTH_def)
  then show thesis
    using assms that [of "take n full"]
    by (simp add: get_or_derive_def derive_key_def key_slice_def Let_def)
qed

lemmas cache_eval = cache_new_def cache_evict_def saturating_add_def cache_stats_of_def cache_len_def cache_is_empty_def
  cache_invalidate_def cache_clear_def hm_contains_def

lemma cache_plain_tests_pass:
  "test_invalidate_nonexistent_returns_false sha" "test_invalid_output_length_rejected sha argon2 rng"
  "test_zero_capacity_rejected"
  by (simp_all add: test_invalidate_nonexistent_returns_false_def test_invalid_output_length_rejected_def
      test_zero_capacity_rejected_def cache_eval get_or_derive_def)

lemma cache_key_eq: "cache_key_new sha pw salt n = cache_key_new sha pw' salt m \<longleftrightarrow> sha pw = sha pw' \<and> n = m"
  by (simp add: cache_key_new_def)

lemma cache_tests_pass:
  assumes "argon2_total argon2"
  shows "test_cache_miss_derives_key sha argon2 rng" "test_cache_hit_returns_same_bytes sha argon2 rng"
    "test_invalidate_removes_entry sha argon2 rng" "test_clear_empties_cache sha argon2 rng"
    "test_different_output_lengths_are_distinct_entries sha argon2 rng"
proof -
  define k where "k = cache_key_new sha cache_PW cache_SALT 32"
  define e :: key_cache where "e = \<lparr>kc_capacity = 4, kc_entries = [], kc_order = [], kc_total_hits = 0, kc_total_misses = 0\<rparr>"
  obtain key where g: "length key = 32" "get_or_derive sha argon2 rng cache_PW cache_SALT 32 e =
      (Ok key, e\<lparr>kc_entries := [(k, \<lparr>ce_key_bytes = key, ce_hits = 0\<rparr>)], kc_order := [k], kc_total_misses := 1\<rparr>)"
    by (rule cache_miss [OF assms, of 32 sha cache_PW k e rng]) (simp_all add: k_def e_def cache_eval)
  have n: "cache_new 4 = Inr e"
    by (simp add: cache_new_def e_def)
  show "test_cache_miss_derives_key sha argon2 rng" "test_cache_hit_returns_same_bytes sha argon2 rng"
    "test_invalidate_removes_entry sha argon2 rng" "test_clear_empties_cache sha argon2 rng"
    by (simp_all add: test_cache_miss_derives_key_def test_cache_hit_returns_same_bytes_def
        test_invalidate_removes_entry_def test_clear_empties_cache_def n g)
      (simp_all add: cache_eval e_def k_def [symmetric] get_or_derive_def)
  define e8 where "e8 = e\<lparr>kc_capacity := 8\<rparr>"
  define k16 where "k16 = cache_key_new sha cache_PW cache_SALT 16"
  have ne: "k \<noteq> k16"
    by (simp add: k_def k16_def cache_key_eq)
  obtain a c where a: "length a = 16" "get_or_derive sha argon2 rng cache_PW cache_SALT 16 e8 = (Ok a, c)"
    and c: "kc_capacity c = 8" "kc_entries c = [(k16, \<lparr>ce_key_bytes = a, ce_hits = 0\<rparr>)]" "kc_total_misses c = 1"
    by (rule cache_miss [OF assms, of 16 sha cache_PW k16 e8 rng]) (auto simp: k16_def e8_def e_def cache_eval)
  obtain b c' where "length b = 32" "get_or_derive sha argon2 rng cache_PW cache_SALT 32 c = (Ok b, c')"
    "cache_len c' = 2" "kc_total_misses c' = 2"
    using ne c by (rule_tac cache_miss [OF assms, of 32 sha cache_PW k c rng]) (auto simp: k_def [symmetric] cache_eval)
  moreover have "cache_new 8 = Inr e8"
    by (simp add: cache_new_def e8_def e_def)
  ultimately show "test_different_output_lengths_are_distinct_entries sha argon2 rng"
    using a by (simp add: test_different_output_lengths_are_distinct_entries_def cache_stats_of_def)
qed

text \<open>The eviction test, where the three passwords have three digests.\<close>

lemma capacity_test_passes:
  assumes "argon2_total argon2" "inj_on sha {as_bytes ''pw1'', as_bytes ''pw2'', as_bytes ''pw3''}"
  shows "test_capacity_evicts_oldest sha argon2 rng"
proof -
  define k1 k2 k3 where k: "k1 = cache_key_new sha (as_bytes ''pw1'') cache_SALT 32"
    "k2 = cache_key_new sha (as_bytes ''pw2'') cache_SALT 32" "k3 = cache_key_new sha (as_bytes ''pw3'') cache_SALT 32"
  have ne: "k1 \<noteq> k2" "k2 \<noteq> k1" "k1 \<noteq> k3" "k3 \<noteq> k1" "k2 \<noteq> k3" "k3 \<noteq> k2"
    using assms(2) by (auto simp: k cache_key_eq)
  define entry where "entry key = \<lparr>ce_key_bytes = key, ce_hits = (0 :: u64)\<rparr>" for key
  define e :: key_cache where "e = \<lparr>kc_capacity = 2, kc_entries = [], kc_order = [], kc_total_hits = 0, kc_total_misses = 0\<rparr>"
  define get where "get pw = get_or_derive sha argon2 rng (as_bytes pw) cache_SALT 32" for pw
  have miss: "\<exists>x. get pw c = (Ok x, let c2 = cache_evict (c\<lparr>kc_total_misses := saturating_add (kc_total_misses c) 1\<rparr>)
     in c2\<lparr>kc_entries := hm_insert k (entry x) (kc_entries c2), kc_order := kc_order c2 @ [k]\<rparr>)"
    if "cache_key_new sha (as_bytes pw) cache_SALT 32 = k" "hm_get (kc_entries c) k = None" for pw c k
    by (rule cache_miss [OF assms(1) _ _ that, of rng]) (auto simp: get_def entry_def)
  obtain x1 where x1: "get ''pw1'' e = (Ok x1, e\<lparr>kc_entries := [(k1, entry x1)], kc_order := [k1], kc_total_misses := 1\<rparr>)"
    using miss [OF k(1) [symmetric], of e] by (auto simp: e_def cache_eval)
  define c1 where "c1 = snd (get ''pw1'' e)"
  then have c1: "kc_capacity c1 = 2" "kc_entries c1 = [(k1, entry x1)]" "kc_order c1 = [k1]" "kc_total_misses c1 = 1"
    by (simp_all add: x1) (simp add: e_def)
  obtain x2 c2 where x2: "get ''pw2'' c1 = (Ok x2, c2)"
    and c2: "kc_capacity c2 = 2" "kc_entries c2 = [(k1, entry x1), (k2, entry x2)]" "kc_order c2 = [k1, k2]" "kc_total_misses c2 = 2"
    using miss [OF k(2) [symmetric], of c1] c1 ne by (auto simp: cache_eval)
  obtain x3 c3 where x3: "get ''pw3'' c2 = (Ok x3, c3)"
    and c3: "kc_capacity c3 = 2" "kc_entries c3 = [(k2, entry x2), (k3, entry x3)]" "kc_order c3 = [k2, k3]" "kc_total_misses c3 = 3"
    using miss [OF k(3) [symmetric], of c2] c2 ne by (auto simp: cache_eval)
  obtain x4 c4 where "get ''pw1'' c3 = (Ok x4, c4)" "kc_total_misses c4 = 4"
    using miss [OF k(1) [symmetric], of c3] c3 ne by (auto simp: cache_eval)
  moreover have "cache_new 2 = Inr e"
    by (simp add: cache_new_def e_def)
  moreover have "get ''pw1'' e = (Ok x1, c1)"
    by (simp add: c1_def x1)
  ultimately show ?thesis
    using x2 x3 c2 c3 unfolding get_def
    by (simp add: test_capacity_evicts_oldest_def cache_len_def cache_stats_of_def del: as_bytes_simps)
qed

end
