(* ===== verification/Tests_Kernel.thy ===== *)
theory Tests_Kernel
  imports Zero_Copy Entropy Diff_Privacy Mcp_Gateway Cli Test_Support
begin

text \<open>
  The tests of \<open>src/quantum_kernel.rs\<close>, \<open>src/lib.rs\<close>, \<open>src/zero_copy.rs\<close>, \<open>src/entropy_inject.rs\<close>,
  \<open>src/differential_privacy.rs\<close>, \<open>src/mcp_gateway.rs\<close> and \<open>src/main.rs\<close>.  The draws and the times that the
  watchdog measures are arguments; the tests of the vaults pass when no call takes longer than 200 ms.
\<close>

text \<open>Encryption under a nonce of 12 bytes that does not fail.\<close>

definition aes_total :: "primitives \<Rightarrow> bool" where
  "aes_total P = (\<forall>k n x. length n = 12 \<longrightarrow> pr_aes_encrypt P k n x \<noteq> None)"

section \<open>The kernel\<close>

definition test_vault :: "primitives \<Rightarrow> bytes \<Rightarrow> bytes \<Rightarrow> bytes \<Rightarrow> nat \<Rightarrow> nat \<Rightarrow> bool" where
  "test_vault P seed seed' nonce t t' =
     expect_ok_call (vault_generate_keypair P seed ''test'' vault_new) (\<lambda>_ vault.
     expect_ok_call (vault_store P seed' nonce t (as_bytes ''test'') (as_bytes ''secret'') vault) (\<lambda>ct vault.
     expect_ok_call (vault_retrieve P t' (as_bytes ''test'') ct vault) (\<lambda>plain _.
     plain = as_bytes ''secret'')))"

definition test_auto_generate_key :: "primitives \<Rightarrow> bytes \<Rightarrow> bytes \<Rightarrow> nat \<Rightarrow> nat \<Rightarrow> bool" where
  "test_auto_generate_key P seed nonce t t' =
     expect_ok_call (vault_store P seed nonce t (as_bytes ''auto-key'') (as_bytes ''auto-secret'') vault_new) (\<lambda>ct vault.
     expect_ok_call (vault_retrieve P t' (as_bytes ''auto-key'') ct vault) (\<lambda>plain _.
     plain = as_bytes ''auto-secret''))"

definition test_key_zeroization :: "primitives \<Rightarrow> bytes \<Rightarrow> bytes \<Rightarrow> nat \<Rightarrow> nat \<Rightarrow> bool" where
  "test_key_zeroization P seed nonce t t' =
     (let (_, secret) = hybrid_generate_keypair P seed
      in expect_ok (hybrid_encrypt P nonce t (as_bytes ''test data'') secret :: (string, ciphertext) outcome) (\<lambda>ct.
         expect_ok (hybrid_decrypt P t' ct secret) (\<lambda>plain. plain = as_bytes ''test data'')))"

definition test_ml_kem_1024_roundtrip :: "primitives \<Rightarrow> bytes \<Rightarrow> bytes \<Rightarrow> nat \<Rightarrow> nat \<Rightarrow> bool" where
  "test_ml_kem_1024_roundtrip P seed m t t' =
     (ml_kem_is_available \<and>
      (let (kp, _) = keygen P seed
       in expect (encapsulate P m t (kp_public_key kp)) (\<lambda>(ct, ss1).
          expect (decapsulate P t' ct (kp_secret_key kp)) (\<lambda>ss2. ss1 = ss2))))"

definition test_ml_kem_key_sizes :: "primitives \<Rightarrow> bytes \<Rightarrow> bool" where
  "test_ml_kem_key_sizes P seed =
     (let (kp, _) = keygen P seed
      in expect (pr_b64_decode P (kp_public_key kp)) (\<lambda>pk. length pk = 1568) \<and>
         expect (pr_b64_decode P (kp_secret_key kp)) (\<lambda>sk. length sk = 64))"

definition test_vault_ml_kem_roundtrip :: "primitives \<Rightarrow> bytes \<Rightarrow> bytes \<Rightarrow> nat \<Rightarrow> nat \<Rightarrow> bool" where
  "test_vault_ml_kem_roundtrip P seed m t t' = expect (ml_kem_roundtrip P seed m t t') (\<lambda>ok. ok)"

lemma encrypts:
  assumes "aes_total P" "length nonce = 12" "t \<le> 200"
  obtains ct where "hybrid_encrypt P nonce t x sk = Ok ct"
proof -
  obtain c where "pr_aes_encrypt P (aes_key P sk) nonce x = Some c"
    using assms(1,2) unfolding aes_total_def by blast
  then show thesis
    using assms(3) that by (simp add: hybrid_encrypt_def HANDSHAKE_TIMEOUT_MS_def)
qed

text \<open>The vault tests: a stored text is retrieved, whether or not its key was made before.\<close>

lemma vault_round:
  assumes "lawful_base64 P" "lawful_aes P" "aes_total P" "length nonce = 12" "t \<le> 200" "t' \<le> 200"
    and "list_all (\<lambda>b. b < 0x80) k" "\<not> va_poisoned v"
  shows "expect_ok_call (vault_store P seed nonce t k x v) (\<lambda>ct v. expect_ok_call (vault_retrieve P t' k ct v) (\<lambda>plain _. plain = x))"
proof -
  have u: "from_utf8 k = Some (bytes_to_string k)"
    using utf8_valid_ascii [OF assms(7)] by (simp add: from_utf8_def)
  obtain sk v1 where l: "vault_lock (\<lambda>keys. case key_row_of keys (bytes_to_string k) of
        Some (kp, stored_sk) \<Rightarrow> (Ok stored_sk, keys)
      | None \<Rightarrow> (let (kp, sk) = keygen P seed in (Ok sk, keys @ [(bytes_to_string k, kp, sk)]))) v
      = (Ok sk :: (vault_error, bytes) outcome, v1)" "\<not> va_poisoned v1"
    using assms(8) by (cases "key_row_of (va_keys v) (bytes_to_string k)")
      (auto simp: vault_lock_def keygen_def split: prod.splits)
  obtain ct :: ciphertext where "hybrid_encrypt P nonce t x sk = (Ok ct :: (vault_error, ciphertext) outcome)"
    using encrypts [OF assms(3-5)] by blast
  then have s: "vault_store P seed nonce t k x v = (Ok ct, v1)"
    by (simp add: vault_store_def u l)
  have "vault_retrieve P t' k ct v1 = (Ok x, v1)"
    using store_retrieve_core [OF assms(1,2,4,6) s, of "[]"] l(2) by (simp add: vault_run_def)
  then show ?thesis
    by (simp add: s)
qed

lemma expect_first: "r = (Ok x, snd r) \<Longrightarrow> expect_ok_call r k = k x (snd r)"
  by (metis expect_ok_call.simps(1))

lemma ascii_test: "list_all (\<lambda>b. b < 0x80) (as_bytes ''test'')"
  by simp

lemma vault_tests_pass:
  assumes "lawful_base64 P" "lawful_aes P" "aes_total P" "length nonce = 12" "t \<le> 200" "t' \<le> 200"
  shows "test_vault P seed seed' nonce t t'" "test_auto_generate_key P seed nonce t t'"
    "test_key_zeroization P seed nonce t t'"
proof -
  have "vault_generate_keypair P seed ''test'' vault_new =
      (Ok (pr_b64_encode P (pr_ek_of_seed P seed), pr_b64_encode P seed),
       snd (vault_generate_keypair P seed ''test'' vault_new))"
    "\<not> va_poisoned (snd (vault_generate_keypair P seed ''test'' vault_new))"
    by (simp_all add: vault_generate_keypair_def keygen_def vault_lock_def vault_new_def)
  then show "test_vault P seed seed' nonce t t'"
    unfolding test_vault_def
    by (subst (1) expect_first) (auto intro!: vault_round [OF assms] ascii_test)
  show "test_auto_generate_key P seed nonce t t'"
    unfolding test_auto_generate_key_def by (rule vault_round [OF assms]) (simp_all add: vault_new_def)
  obtain ct where "hybrid_encrypt P nonce t (as_bytes ''test data'') seed = (Ok ct :: (string, ciphertext) outcome)"
    using encrypts [OF assms(3-5)] by blast
  moreover from this have "hybrid_decrypt P t' ct seed = Ok (as_bytes ''test data'')"
    by (rule hybrid_decrypt_encrypt [OF assms(1,2,4,6)])
  ultimately show "test_key_zeroization P seed nonce t t'"
    by (simp add: test_key_zeroization_def hybrid_generate_keypair_def keygen_def del: as_bytes_simps)
qed

lemma kem_tests_pass:
  assumes "lawful_base64 P" "lawful_kem P" "length seed = 64" "t \<le> 200" "t' \<le> 200"
  shows "test_ml_kem_1024_roundtrip P seed m t t'" "test_ml_kem_key_sizes P seed"
    "test_vault_ml_kem_roundtrip P seed m t t'"
proof -
  obtain ct ss where e: "pr_encaps P (pr_ek_of_seed P seed) m = (ct, ss)"
    by (cases "pr_encaps P (pr_ek_of_seed P seed) m")
  then have k: "length (pr_ek_of_seed P seed) = 1568" "pr_ek_valid P (pr_ek_of_seed P seed)"
    "length ct = 1568" "pr_decaps P seed ct = ss"
    using assms(2,3) unfolding lawful_kem_def by (metis (mono_tags, lifting) case_prod_conv)+
  show "test_ml_kem_1024_roundtrip P seed m t t'" "test_ml_kem_key_sizes P seed"
    "test_vault_ml_kem_roundtrip P seed m t t'"
    using e k assms(3-5) lawful_base64D [OF assms(1)]
    by (simp_all add: test_ml_kem_1024_roundtrip_def test_ml_kem_key_sizes_def test_vault_ml_kem_roundtrip_def
        ml_kem_roundtrip_def ml_kem_is_available_def keygen_def encapsulate_def decapsulate_def HANDSHAKE_TIMEOUT_MS_def)
qed

section \<open>The crate\<close>

definition test_lib_vault :: "primitives \<Rightarrow> bytes \<Rightarrow> bytes \<Rightarrow> bytes \<Rightarrow> nat \<Rightarrow> nat \<Rightarrow> bool" where
  "test_lib_vault P seed seed' nonce t t' =
     expect_ok_call (vault_generate_keypair P seed ''test'' vault_new) (\<lambda>_ vault.
     expect_ok_call (vault_store P seed' nonce t (as_bytes ''test'') (as_bytes ''secret'') vault) (\<lambda>ct vault.
     expect_ok_call (vault_retrieve P t' (as_bytes ''test'') ct vault) (\<lambda>plain _.
     plain = as_bytes ''secret'')))"

lemma lib_test_same: "test_lib_vault = test_vault"
  unfolding test_lib_vault_def test_vault_def ..

section \<open>Zero copy\<close>

definition test_zero_copy :: "primitives \<Rightarrow> bytes \<Rightarrow> bytes \<Rightarrow> nat \<Rightarrow> nat \<Rightarrow> bool" where
  "test_zero_copy P seed nonce t t' =
     expect_ok_call (zc_generate_keypair P seed ''test'' zc_new) (\<lambda>pub_key vault.
     pub_key \<noteq> [] \<and>
     expect_ok_call (zc_store P nonce t ''test'' (as_bytes ''data'') vault) (\<lambda>ct vault.
     expect_ok_call (zc_retrieve P t' ''test'' ct vault) (\<lambda>plain _. plain = as_bytes ''data'')))"

lemma zero_copy_test_passes:
  assumes "lawful_base64 P" "lawful_aes P" "aes_total P" "length nonce = 12" "t \<le> 200" "t' \<le> 200"
    and "pr_b64_encode P (pr_ek_of_seed P seed) \<noteq> []"
  shows "test_zero_copy P seed nonce t t'"
proof -
  obtain ct where "hybrid_encrypt P nonce t (as_bytes ''data'') seed = (Ok ct :: (string, ciphertext) outcome)"
    using encrypts [OF assms(3-5)] by blast
  moreover from this have "hybrid_decrypt P t' ct seed = Ok (as_bytes ''data'')"
    by (rule hybrid_decrypt_encrypt [OF assms(1,2,4,6)])
  ultimately show ?thesis
    using assms(7) by (simp add: test_zero_copy_def zc_generate_keypair_def zc_new_def keygen_def zc_store_def zc_retrieve_def
        with_keys_def del: as_bytes_simps)
qed

section \<open>Entropy\<close>

definition test_entropy_collection :: "(nat \<Rightarrow> u64 list) \<Rightarrow> bool" where
  "test_entropy_collection jitters =
     (let collector = foldl (\<lambda>c i. snd (collect (jitters i) c)) entropy_new [0..<5]
      in 0 < ec_sample_count collector \<and>
         (let seed = get_seed collector in \<not> list_all (\<lambda>x. x = 0) seed))"

text \<open>The test fails for exactly one value of the first four jitters: the seed of a fresh collector is their
  bytes, and the count of samples, 50, is added to the first byte.\<close>

lemma bytes_of_word:
  obtains x0 x1 x2 x3 x4 x5 x6 x7 where "to_le_bytes w = [x0, x1, x2, x3, x4, x5, x6, x7]"
proof -
  have "[0..<8] = [0, 1, 2, 3, 4, 5, 6, 7]"
    by (simp add: upt_rec)
  then show thesis
    by (rule_tac that) (simp add: to_le_bytes_def)
qed

lemma seed_zero_iff:
  "list_all (\<lambda>x. x = 0) (mix_count (enumerate 0 (to_le_bytes 50)) (seed_loop [a, b, c, d] 0 (replicate 32 0))) \<longleftrightarrow>
    a = 206 \<and> b = 0 \<and> c = 0 \<and> d = 0"
proof -
  obtain a0 a1 a2 a3 a4 a5 a6 a7 where a: "to_le_bytes a = [a0, a1, a2, a3, a4, a5, a6, a7]" by (rule bytes_of_word)
  obtain b0 b1 b2 b3 b4 b5 b6 b7 where b: "to_le_bytes b = [b0, b1, b2, b3, b4, b5, b6, b7]" by (rule bytes_of_word)
  obtain c0 c1 c2 c3 c4 c5 c6 c7 where c: "to_le_bytes c = [c0, c1, c2, c3, c4, c5, c6, c7]" by (rule bytes_of_word)
  obtain d0 d1 d2 d3 d4 d5 d6 d7 where d: "to_le_bytes d = [d0, d1, d2, d3, d4, d5, d6, d7]" by (rule bytes_of_word)
  have k: "to_le_bytes 50 = [50, 0, 0, 0, 0, 0, 0, 0]" "to_le_bytes 206 = [206, 0, 0, 0, 0, 0, 0, 0]"
    "to_le_bytes 0 = [0, 0, 0, 0, 0, 0, 0, 0]"
    by code_simp+
  have "a0 + 50 = 0 \<longleftrightarrow> a0 = 206"
  proof
    assume "a0 + 50 = 0"
    then have "a0 = - 50"
      by (simp add: eq_neg_iff_add_eq_0)
    then show "a0 = 206"
      by simp
  qed simp
  then have "list_all (\<lambda>x. x = 0) (mix_count (enumerate 0 (to_le_bytes 50)) (seed_loop [a, b, c, d] 0 (replicate 32 0))) \<longleftrightarrow>
      to_le_bytes a = to_le_bytes 206 \<and> to_le_bytes b = to_le_bytes 0 \<and> to_le_bytes c = to_le_bytes 0 \<and>
      to_le_bytes d = to_le_bytes 0"
    unfolding k by (simp add: a b c d numeral_eq_Suc del: to_le_bytes_inj)
  then show ?thesis
    by simp
qed

lemma entropy_test_passes_iff:
  assumes "\<forall>i<5. length (jitters i) = 10"
  shows "test_entropy_collection jitters \<longleftrightarrow> \<not> (take 4 (jitters 0) = [206, 0, 0, 0])"
proof -
  obtain a b c d rest where j0: "jitters 0 = a # b # c # d # rest" "length rest = 6"
    using assms by (auto simp: numeral_eq_Suc length_Suc_conv)
  define e where "e = foldl (\<lambda>c i. snd (collect (jitters i) c)) entropy_new [0..<5]"
  have "length (jitters 1) = 10" "length (jitters 2) = 10" "length (jitters 3) = 10" "length (jitters 4) = 10"
    using assms by auto
  moreover have "[0..<5] = [0, 1, 2, 3, 4]"
    by (simp add: upt_rec)
  ultimately have e: "take 4 (ec_buffer e) = [a, b, c, d]" "ec_sample_count e = 50"
    using j0 by (simp_all add: e_def collect_def entropy_new_def ENTROPY_POOL_SIZE_def Let_def)
  have "get_seed e = mix_count (enumerate 0 (to_le_bytes 50)) (seed_loop [a, b, c, d] 0 (replicate 32 0))"
    using get_seed_take [of e] e by (simp add: get_seed_def)
  then have "list_all (\<lambda>x. x = 0) (get_seed e) \<longleftrightarrow> take 4 (jitters 0) = [206, 0, 0, 0]"
    by (simp only: seed_zero_iff) (simp add: j0(1))
  then show ?thesis
    by (simp add: test_entropy_collection_def e_def [symmetric] e(2))
qed

section \<open>The private collector\<close>

definition test_dp_entropy_collection ::
  "(f64 \<Rightarrow> f64) \<Rightarrow> (bytes \<Rightarrow> bytes) \<Rightarrow> (nat \<Rightarrow> nat) \<Rightarrow> (nat \<Rightarrow> u64) \<Rightarrow> bytes \<Rightarrow> bool" where
  "test_dp_entropy_collection libm_ln sha nanos draw os_entropy =
     expect_ok (dp_new (Fin (1 / 2)) 10 :: (unit, dp_collector) outcome) (\<lambda>collector.
     let (entropy, _) = dp_collect libm_ln sha nanos draw os_entropy collector in length entropy = 32)"

definition test_constant_time_compare :: bool where
  "test_constant_time_compare =
     (constant_time_compare (as_bytes ''hello'') (as_bytes ''hello'') \<and>
      \<not> constant_time_compare (as_bytes ''hello'') (as_bytes ''world'') \<and>
      \<not> constant_time_compare (as_bytes ''short'') (as_bytes ''longer''))"

lemma dp_tests_pass:
  "test_constant_time_compare"
  "(\<And>x. length (sha x) = 32) \<Longrightarrow> test_dp_entropy_collection libm_ln sha nanos draw os_entropy"
  by (simp_all add: test_constant_time_compare_def constant_time_compare_eq test_dp_entropy_collection_def dp_new_def
      laplace_new_def dp_collect_def Let_def)

section \<open>The gateway\<close>

definition test_mcp :: "primitives \<Rightarrow> call_env \<Rightarrow> ('j \<Rightarrow> string \<Rightarrow> string option) \<Rightarrow> 'j \<Rightarrow> 'j \<Rightarrow> bool" where
  "test_mcp P C str_field one params =
     (let req = \<lparr>rq_jsonrpc = ''2.0'', rq_id = Some one, rq_method = ''generate_key'', rq_params = params\<rparr>
      in expect_ok_call (mcp_handle P C str_field req mcp_new) (\<lambda>resp _. rp_error resp = None))"

lemma mcp_test_passes: "str_field params ''key_id'' = Some ''test'' \<Longrightarrow> test_mcp P C str_field one params"
  by (simp add: test_mcp_def mcp_handle_def mcp_dispatch_def handle_generate_key_def required_def mcp_new_def
      vault_generate_keypair_def vault_new_def vault_lock_def keygen_def)

section \<open>The command line\<close>

definition test_validate_key_id :: "(nat \<Rightarrow> bool) \<Rightarrow> bool" where
  "test_validate_key_id uni_alnum =
     (expect (validate_key_id uni_alnum ''agent-1'') (\<lambda>_. True) \<and>
      expect (validate_key_id uni_alnum ''my_agent_123'') (\<lambda>_. True) \<and>
      expect_err (validate_key_id uni_alnum []) (\<lambda>_. True) \<and>
      expect_err (validate_key_id uni_alnum (replicate 65 CHR ''a'')) (\<lambda>_. True) \<and>
      expect_err (validate_key_id uni_alnum ''bad key!'') (\<lambda>_. True) \<and>
      expect_err (validate_key_id uni_alnum ''__system'') (\<lambda>_. True))"

lemma chars_ascii: "list_all (\<lambda>b. b < 0x80) (as_bytes s) \<Longrightarrow> chars s = map unat (as_bytes s)"
proof -
  have "code_points bs = map unat bs" if "list_all (\<lambda>b. b < 0x80) bs" for bs
    using that
  proof (induction bs)
    case (Cons b bs)
    then show ?case
      by (subst code_points.simps) (simp add: char_width_def code_point_def)
  qed (simp add: code_points.simps)
  then show "list_all (\<lambda>b. b < 0x80) (as_bytes s) \<Longrightarrow> chars s = map unat (as_bytes s)"
    by (simp add: chars_def)
qed

lemma validate_test_passes: "test_validate_key_id uni_alnum"
  by (simp add: test_validate_key_id_def validate_key_id_def chars_ascii is_alphanumeric_def)

end
