(* ===== verification/Tests_Ml_Dsa.thy ===== *)
theory Tests_Ml_Dsa
  imports Ml_Dsa Test_Support
begin

unbundle bit_operations_syntax

text \<open>
  The tests of \<open>src/ml_dsa.rs\<close>.  The bytes drawn are arguments.  A test
  that expects a signature to be refused passes exactly when the scheme refuses it, which the lemma takes
  as its hypothesis; the rest hold under the laws of the crates, where key generation succeeds.
\<close>

section \<open>Signatures\<close>

definition test_keypair_generation :: "dsa_crates \<Rightarrow> bytes \<Rightarrow> bool" where
  "test_keypair_generation D r =
     expect (mldsa_generate_keypair D r) (\<lambda>keypair.
     mk_signing_key keypair \<noteq> [] \<and> mk_verifying_key keypair \<noteq> [] \<and>
     length (mk_signing_key keypair) = 4032 \<and> length (mk_verifying_key keypair) = 1952)"

definition test_sign_and_verify :: "dsa_crates \<Rightarrow> bytes \<Rightarrow> bytes \<Rightarrow> bool" where
  "test_sign_and_verify D r r' =
     expect (mldsa_generate_keypair D r) (\<lambda>keypair.
     let msg = as_bytes ''test data for ML-DSA signature''
     in expect (mldsa_sign D r' msg (mk_signing_key keypair)) (\<lambda>sig.
        sig \<noteq> [] \<and> length sig = 3309 \<and>
        expect (mldsa_verify D msg sig (mk_verifying_key keypair)) (\<lambda>valid. valid)))"

definition test_invalid_signature_fails :: "dsa_crates \<Rightarrow> bytes \<Rightarrow> bytes \<Rightarrow> bool" where
  "test_invalid_signature_fails D r r' =
     expect (mldsa_generate_keypair D r) (\<lambda>keypair.
     let msg = as_bytes ''test data''; tampered = as_bytes ''tampered data''
     in expect (mldsa_sign D r' msg (mk_signing_key keypair)) (\<lambda>sig.
        expect (mldsa_verify D tampered sig (mk_verifying_key keypair)) (\<lambda>valid. \<not> valid)))"

definition test_serialize_deserialize_keypair :: "dsa_crates \<Rightarrow> bytes \<Rightarrow> bytes \<Rightarrow> bool" where
  "test_serialize_deserialize_keypair D r r' =
     expect (mldsa_generate_keypair D r) (\<lambda>keypair.
     let json = serialize_keypair D keypair
     in expect (deserialize_keypair D json) (\<lambda>restored.
        mk_signing_key keypair = mk_signing_key restored \<and> mk_verifying_key keypair = mk_verifying_key restored \<and>
        (let msg = as_bytes ''test serialization''
         in expect (mldsa_sign D r' msg (mk_signing_key restored)) (\<lambda>sig.
            expect (mldsa_verify D msg sig (mk_verifying_key restored)) (\<lambda>valid. valid)))))"

definition test_different_keypairs_cant_verify :: "dsa_crates \<Rightarrow> bytes \<Rightarrow> bytes \<Rightarrow> bytes \<Rightarrow> bool" where
  "test_different_keypairs_cant_verify D r1 r2 r' =
     expect (mldsa_generate_keypair D r1) (\<lambda>kp1.
     expect (mldsa_generate_keypair D r2) (\<lambda>kp2.
     let msg = as_bytes ''test cross-key verification''
     in expect (mldsa_sign D r' msg (mk_signing_key kp1)) (\<lambda>sig.
        expect (mldsa_verify D msg sig (mk_verifying_key kp2)) (\<lambda>valid. \<not> valid))))"

definition test_hash_data_consistency :: "dsa_crates \<Rightarrow> bool" where
  "test_hash_data_consistency D =
     (let msg = as_bytes ''test data''; hash1 = hash_data D msg; hash2 = hash_data D msg
      in hash1 = hash2 \<and> length hash1 = 64)"

text \<open>What a generated key pair and a signature of it satisfy.\<close>

lemma generated_keypair:
  assumes "lawful_dsa D" "dc_keygen D r = Inr (pk, sk)"
  shows "mldsa_generate_keypair D r = Inr \<lparr>mk_signing_key = sk, mk_verifying_key = pk\<rparr>"
    "length sk = 4032" "length pk = 1952"
    "\<exists>sig. mldsa_sign D r' m sk = Inr sig \<and> length sig = 3309 \<and> dc_verify D pk m sig"
    "length s = 3309 \<Longrightarrow> mldsa_verify D m' s pk = Inr (dc_verify D pk m' s)"
proof -
  have k: "length pk = 1952" "length sk = 4032" "dc_pk_check D pk = None" "dc_sk_check D sk = None"
    "\<exists>sig. dc_sign D sk m r' = Inr sig \<and> length sig = 3309 \<and> dc_verify D pk m sig" for m r'
    using assms unfolding lawful_dsa_def by blast+
  then show "mldsa_generate_keypair D r = Inr \<lparr>mk_signing_key = sk, mk_verifying_key = pk\<rparr>"
    "length sk = 4032" "length pk = 1952" "length s = 3309 \<Longrightarrow> mldsa_verify D m' s pk = Inr (dc_verify D pk m' s)"
    using assms(2) by (simp_all add: mldsa_generate_keypair_def mldsa_verify_def)
  show "\<exists>sig. mldsa_sign D r' m sk = Inr sig \<and> length sig = 3309 \<and> dc_verify D pk m sig"
    using k(5) [of m r'] k(2,4) by (auto simp: mldsa_sign_def)
qed

lemma dsa_tests_pass:
  assumes "lawful_dsa D" "dc_keygen D r = Inr (pk, sk)"
  shows "test_keypair_generation D r" "test_sign_and_verify D r r'"
    "lawful_dsa_text D \<Longrightarrow> test_serialize_deserialize_keypair D r r'"
    "\<forall>sig. mldsa_sign D r' (as_bytes ''test data'') sk = Inr sig \<longrightarrow> \<not> dc_verify D pk (as_bytes ''tampered data'') sig \<Longrightarrow>
      test_invalid_signature_fails D r r'"
proof -
  note g = generated_keypair [OF assms]
  show "test_keypair_generation D r"
    using g(2,3) by (auto simp: test_keypair_generation_def g(1))
  obtain sig where "mldsa_sign D r' (as_bytes ''test data for ML-DSA signature'') sk = Inr sig" "length sig = 3309"
    "dc_verify D pk (as_bytes ''test data for ML-DSA signature'') sig"
    using g(4) by blast
  then show "test_sign_and_verify D r r'"
    by (auto simp: test_sign_and_verify_def g(1,5) Let_def simp del: as_bytes_simps)
  obtain sig where "mldsa_sign D r' (as_bytes ''test serialization'') sk = Inr sig" "length sig = 3309"
    "dc_verify D pk (as_bytes ''test serialization'') sig"
    using g(4) by blast
  then show "test_serialize_deserialize_keypair D r r'" if "lawful_dsa_text D"
    using that
    by (simp add: test_serialize_deserialize_keypair_def g(1,5) Let_def lawful_dsa_text_def deserialize_keypair_def
        serialize_keypair_def del: as_bytes_simps)
  obtain sig where "mldsa_sign D r' (as_bytes ''test data'') sk = Inr sig" "length sig = 3309"
    using g(4) by blast
  then show "test_invalid_signature_fails D r r'"
    if "\<forall>sig. mldsa_sign D r' (as_bytes ''test data'') sk = Inr sig \<longrightarrow> \<not> dc_verify D pk (as_bytes ''tampered data'') sig"
    using that by (simp add: test_invalid_signature_fails_def g(1,5) Let_def del: as_bytes_simps)
qed

lemma cross_key_test_passes:
  assumes "lawful_dsa D" "dc_keygen D r1 = Inr (pk1, sk1)" "dc_keygen D r2 = Inr (pk2, sk2)"
    and "\<forall>sig. mldsa_sign D r' (as_bytes ''test cross-key verification'') sk1 = Inr sig \<longrightarrow>
      \<not> dc_verify D pk2 (as_bytes ''test cross-key verification'') sig"
  shows "test_different_keypairs_cant_verify D r1 r2 r'"
proof -
  obtain sig where "mldsa_sign D r' (as_bytes ''test cross-key verification'') sk1 = Inr sig" "length sig = 3309"
    using generated_keypair(4) [OF assms(1,2)] by blast
  then show ?thesis
    using assms(4) generated_keypair(1) [OF assms(1,2)] generated_keypair(1,5) [OF assms(1,3)]
    by (simp add: test_different_keypairs_cant_verify_def Let_def del: as_bytes_simps)
qed

lemma hash_test_passes: "(\<And>x. length (dc_sha3_512 D x) = 64) \<Longrightarrow> test_hash_data_consistency D"
  by (simp add: test_hash_data_consistency_def hash_data_def)

end
