(* ===== verification/Tests_Batch.thy ===== *)
theory Tests_Batch
  imports Tests_Ml_Dsa
begin

unbundle bit_operations_syntax

text \<open>
  The tests of \<open>src/performance/batch_ops.rs\<close>.  The bytes that each call draws are arguments.
\<close>

section \<open>Batches\<close>

definition make_req :: "dsa_crates \<Rightarrow> bytes \<Rightarrow> bytes \<Rightarrow> bytes \<Rightarrow> mldsa_error + sign_request \<times> verify_request" where
  "make_req D r r' message =
     unwrapped (mldsa_generate_keypair D r) (\<lambda>kp.
     unwrapped (mldsa_sign D r' message (mk_signing_key kp)) (\<lambda>sig.
     Inr (\<lparr>sr_message = message, sr_signing_key = mk_signing_key kp\<rparr>,
          \<lparr>vr_message = message, vr_signature = sig, vr_verifying_key = mk_verifying_key kp\<rparr>)))"

definition test_batch_verify_all_pass :: "dsa_crates \<Rightarrow> bytes \<Rightarrow> bytes \<Rightarrow> bytes \<Rightarrow> bytes \<Rightarrow> bool" where
  "test_batch_verify_all_pass D r1 r1' r2 r2' =
     expect (make_req D r1 r1' (as_bytes ''msg-1'')) (\<lambda>(_, v1).
     expect (make_req D r2 r2' (as_bytes ''msg-2'')) (\<lambda>(_, v2).
     expect (batch_verify D [v1, v2]) (\<lambda>result.
     all_passed result \<and> bv_total result = 2 \<and> bv_passed result = 2)))"

definition test_batch_verify_detects_bad_signature ::
  "dsa_crates \<Rightarrow> bytes \<Rightarrow> bytes \<Rightarrow> bytes \<Rightarrow> bytes \<Rightarrow> bool" where
  "test_batch_verify_detects_bad_signature D r1 r1' r2 r2' =
     expect (make_req D r1 r1' (as_bytes ''msg-a'')) (\<lambda>(_, v1).
     let v1 = v1\<lparr>vr_signature := (vr_signature v1)[0 := vr_signature v1 ! 0 XOR 0xFF]\<rparr>
     in expect (make_req D r2 r2' (as_bytes ''msg-b'')) (\<lambda>(_, v2).
     expect (batch_verify D [v1, v2]) (\<lambda>result.
     \<not> all_passed result \<and> bv_failed result = 1 \<and> bv_passed result = 1 \<and>
     \<not> bv_results result ! 0 \<and> bv_results result ! 1)))"

definition test_batch_verify_bad_key_counted_as_failure :: "dsa_crates \<Rightarrow> bytes \<Rightarrow> bytes \<Rightarrow> bool" where
  "test_batch_verify_bad_key_counted_as_failure D r r' =
     expect (make_req D r r' (as_bytes ''msg'')) (\<lambda>(_, v).
     let v = v\<lparr>vr_verifying_key := as_bytes ''not-a-real-key''\<rparr>
     in expect (batch_verify D [v]) (\<lambda>result. bv_failed result = 1))"

definition test_batch_verify_empty_rejects :: "dsa_crates \<Rightarrow> bool" where
  "test_batch_verify_empty_rejects D = expect_err (batch_verify D []) (\<lambda>err. err = EmptyBatch)"

definition test_batch_sign_all_succeed ::
  "dsa_crates \<Rightarrow> (nat \<Rightarrow> bytes) \<Rightarrow> bytes \<Rightarrow> bytes \<Rightarrow> bytes \<Rightarrow> bytes \<Rightarrow> bool" where
  "test_batch_sign_all_succeed D rnd r1 r1' r2 r2' =
     expect (make_req D r1 r1' (as_bytes ''alpha'')) (\<lambda>(s1, _).
     expect (make_req D r2 r2' (as_bytes ''beta'')) (\<lambda>(s2, _).
     expect (batch_sign D rnd [s1, s2]) (\<lambda>result.
     all_succeeded result \<and> bs_total result = 2 \<and> list_all (\<lambda>s. s \<noteq> None) (bs_signatures result))))"

definition test_batch_sign_bad_key_captured_as_none :: "dsa_crates \<Rightarrow> (nat \<Rightarrow> bytes) \<Rightarrow> bool" where
  "test_batch_sign_bad_key_captured_as_none D rnd =
     (let req = \<lparr>sr_message = as_bytes ''msg'', sr_signing_key = as_bytes ''bad-key''\<rparr>
      in expect (batch_sign D rnd [req]) (\<lambda>result. bs_failed result = 1 \<and> bs_signatures result ! 0 = None))"

definition test_batch_sign_empty_rejects :: "dsa_crates \<Rightarrow> (nat \<Rightarrow> bytes) \<Rightarrow> bool" where
  "test_batch_sign_empty_rejects D rnd = expect_err (batch_sign D rnd []) (\<lambda>err. err = EmptyBatch)"

text \<open>\<open>as_ref().unwrap()\<close> on a signature that is missing fails the test.\<close>

definition test_batch_sign_then_verify_roundtrip :: "dsa_crates \<Rightarrow> bytes \<Rightarrow> (nat \<Rightarrow> bytes) \<Rightarrow> bool" where
  "test_batch_sign_then_verify_roundtrip D r rnd =
     expect (mldsa_generate_keypair D r) (\<lambda>kp.
     let messages = [as_bytes ''one'', as_bytes ''two'', as_bytes ''three''];
         sign_requests = map (\<lambda>m. \<lparr>sr_message = m, sr_signing_key = mk_signing_key kp\<rparr>) messages
     in expect (batch_sign D rnd sign_requests) (\<lambda>sign_result.
        all_succeeded sign_result \<and> list_all (\<lambda>s. s \<noteq> None) (bs_signatures sign_result) \<and>
        (let verify_requests = map (\<lambda>(msg, sig). \<lparr>vr_message = msg, vr_signature = the sig,
               vr_verifying_key = mk_verifying_key kp\<rparr>) (zip messages (bs_signatures sign_result))
         in expect (batch_verify D verify_requests) (\<lambda>verify_result. all_passed verify_result))))"

text \<open>What a request made by the helper is.\<close>

lemma make_req_cases:
  assumes "lawful_dsa D" "\<exists>k. dc_keygen D r = Inr k"
  obtains sk pk sig where "make_req D r r' m = Inr (\<lparr>sr_message = m, sr_signing_key = sk\<rparr>,
      \<lparr>vr_message = m, vr_signature = sig, vr_verifying_key = pk\<rparr>)"
    "length sig = 3309" "mldsa_verify D m sig pk = Inr True" "\<forall>m r. \<exists>s. mldsa_sign D r m sk = Inr s"
proof -
  obtain pk sk where k: "dc_keygen D r = Inr (pk, sk)"
    using assms(2) by auto
  note g = generated_keypair [OF assms(1) k]
  obtain sig where s: "mldsa_sign D r' m sk = Inr sig" "length sig = 3309" "dc_verify D pk m sig"
    using g(4) by blast
  then have "mldsa_verify D m sig pk = Inr True"
    by (simp add: g(5))
  then show thesis
    using that [of sk sig pk] s(1,2) g(4) by (fastforce simp: make_req_def g(1))
qed

lemma batch_empty_tests_pass:
  "test_batch_verify_empty_rejects D" "test_batch_sign_empty_rejects D rnd"
  "test_batch_sign_bad_key_captured_as_none D rnd"
  by (simp_all add: test_batch_verify_empty_rejects_def test_batch_sign_empty_rejects_def batch_verify_def
      batch_sign_def test_batch_sign_bad_key_captured_as_none_def mldsa_sign_def Let_def)

lemma batch_verify_tests_pass:
  assumes "lawful_dsa D" "\<exists>k. dc_keygen D r1 = Inr k" "\<exists>k. dc_keygen D r2 = Inr k"
  shows "test_batch_verify_all_pass D r1 r1' r2 r2'"
    "test_batch_verify_bad_key_counted_as_failure D r1 r1'"
    "test_batch_sign_all_succeed D rnd r1 r1' r2 r2'"
proof -
  obtain sk1 pk1 sig1 where a: "make_req D r1 r1' (as_bytes ''msg-1'') = Inr (\<lparr>sr_message = as_bytes ''msg-1'',
      sr_signing_key = sk1\<rparr>, \<lparr>vr_message = as_bytes ''msg-1'', vr_signature = sig1, vr_verifying_key = pk1\<rparr>)"
    "mldsa_verify D (as_bytes ''msg-1'') sig1 pk1 = Inr True"
    by (rule make_req_cases [OF assms(1,2)])
  obtain sk2 pk2 sig2 where b: "make_req D r2 r2' (as_bytes ''msg-2'') = Inr (\<lparr>sr_message = as_bytes ''msg-2'',
      sr_signing_key = sk2\<rparr>, \<lparr>vr_message = as_bytes ''msg-2'', vr_signature = sig2, vr_verifying_key = pk2\<rparr>)"
    "mldsa_verify D (as_bytes ''msg-2'') sig2 pk2 = Inr True"
    by (rule make_req_cases [OF assms(1,3)])
  show "test_batch_verify_all_pass D r1 r1' r2 r2'"
    using a(2) b(2) by (simp add: test_batch_verify_all_pass_def a(1) b(1) batch_verify_def verify_request_ok_def
        all_passed_def del: as_bytes_simps)
  obtain sk pk sig where c: "make_req D r1 r1' (as_bytes ''msg'') = Inr (\<lparr>sr_message = as_bytes ''msg'',
      sr_signing_key = sk\<rparr>, \<lparr>vr_message = as_bytes ''msg'', vr_signature = sig, vr_verifying_key = pk\<rparr>)"
    by (rule make_req_cases [OF assms(1,2)])
  have "length (as_bytes ''not-a-real-key'') \<noteq> 1952"
    by simp
  then show "test_batch_verify_bad_key_counted_as_failure D r1 r1'"
    by (simp add: test_batch_verify_bad_key_counted_as_failure_def c batch_verify_def verify_request_ok_def
        mldsa_verify_def Let_def del: as_bytes_simps)
  obtain sk3 pk3 sig3 where d: "make_req D r1 r1' (as_bytes ''alpha'') = Inr (\<lparr>sr_message = as_bytes ''alpha'',
      sr_signing_key = sk3\<rparr>, \<lparr>vr_message = as_bytes ''alpha'', vr_signature = sig3, vr_verifying_key = pk3\<rparr>)"
    "\<forall>m r. \<exists>s. mldsa_sign D r m sk3 = Inr s"
    by (rule make_req_cases [OF assms(1,2)])
  obtain sk4 pk4 sig4 where e: "make_req D r2 r2' (as_bytes ''beta'') = Inr (\<lparr>sr_message = as_bytes ''beta'',
      sr_signing_key = sk4\<rparr>, \<lparr>vr_message = as_bytes ''beta'', vr_signature = sig4, vr_verifying_key = pk4\<rparr>)"
    "\<forall>m r. \<exists>s. mldsa_sign D r m sk4 = Inr s"
    by (rule make_req_cases [OF assms(1,3)])
  obtain s3 s4 where "mldsa_sign D (rnd 0) (as_bytes ''alpha'') sk3 = Inr s3"
    "mldsa_sign D (rnd (Suc 0)) (as_bytes ''beta'') sk4 = Inr s4"
    using d(2) e(2) by blast
  then show "test_batch_sign_all_succeed D rnd r1 r1' r2 r2'"
    by (simp add: test_batch_sign_all_succeed_def d(1) e(1) batch_sign_def all_succeeded_def Let_def del: as_bytes_simps)
qed

text \<open>The corrupted signature is refused unless the scheme takes it.\<close>

lemma batch_bad_signature_test_passes:
  assumes "lawful_dsa D" "\<exists>k. dc_keygen D r1 = Inr k" "\<exists>k. dc_keygen D r2 = Inr k"
    and "\<forall>v1. make_req D r1 r1' (as_bytes ''msg-a'') = Inr v1 \<longrightarrow> \<not> dc_verify D (vr_verifying_key (snd v1))
      (as_bytes ''msg-a'') ((vr_signature (snd v1))[0 := vr_signature (snd v1) ! 0 XOR 0xFF])"
  shows "test_batch_verify_detects_bad_signature D r1 r1' r2 r2'"
proof -
  obtain sk1 pk1 sig1 where a: "make_req D r1 r1' (as_bytes ''msg-a'') = Inr (\<lparr>sr_message = as_bytes ''msg-a'',
      sr_signing_key = sk1\<rparr>, \<lparr>vr_message = as_bytes ''msg-a'', vr_signature = sig1, vr_verifying_key = pk1\<rparr>)"
    by (rule make_req_cases [OF assms(1,2)])
  obtain sk2 pk2 sig2 where b: "make_req D r2 r2' (as_bytes ''msg-b'') = Inr (\<lparr>sr_message = as_bytes ''msg-b'',
      sr_signing_key = sk2\<rparr>, \<lparr>vr_message = as_bytes ''msg-b'', vr_signature = sig2, vr_verifying_key = pk2\<rparr>)"
    "mldsa_verify D (as_bytes ''msg-b'') sig2 pk2 = Inr True"
    by (rule make_req_cases [OF assms(1,3)])
  have "\<not> verify_request_ok D \<lparr>vr_message = as_bytes ''msg-a'', vr_signature = sig1[0 := sig1 ! 0 XOR 0xFF],
      vr_verifying_key = pk1\<rparr>"
    using assms(4) a by (simp add: verify_request_ok_def mldsa_verify_def split: option.splits)
  then show ?thesis
    using b(2) by (simp add: test_batch_verify_detects_bad_signature_def a b(1) batch_verify_def all_passed_def
        Let_def verify_request_ok_def [of D "\<lparr>vr_message = as_bytes ''msg-b'', vr_signature = sig2, vr_verifying_key = pk2\<rparr>"]
        del: as_bytes_simps)
qed

lemma batch_roundtrip_test_passes:
  assumes "lawful_dsa D" "dc_keygen D r = Inr (pk, sk)"
  shows "test_batch_sign_then_verify_roundtrip D r rnd"
proof -
  note g = generated_keypair [OF assms]
  have ok: "\<exists>sig. mldsa_sign D r' m sk = Inr sig \<and> mldsa_verify D m sig pk = Inr True" for r' m
    using mldsa_verify_sign [OF assms(1) g(1)] by simp
  obtain s1 s2 s3 where
    "mldsa_sign D (rnd 0) (as_bytes ''one'') sk = Inr s1" "mldsa_verify D (as_bytes ''one'') s1 pk = Inr True"
    "mldsa_sign D (rnd (Suc 0)) (as_bytes ''two'') sk = Inr s2" "mldsa_verify D (as_bytes ''two'') s2 pk = Inr True"
    "mldsa_sign D (rnd (Suc (Suc 0))) (as_bytes ''three'') sk = Inr s3" "mldsa_verify D (as_bytes ''three'') s3 pk = Inr True"
    using ok by metis
  then show ?thesis
    by (simp add: test_batch_sign_then_verify_roundtrip_def g(1) batch_sign_def all_succeeded_def batch_verify_def
        all_passed_def verify_request_ok_def Let_def del: as_bytes_simps)
qed

end
