(* ===== verification/Tests_Qkd.thy ===== *)
theory Tests_Qkd
  imports Qkd Test_Support
begin

unbundle bit_operations_syntax

text \<open>
  The tests of \<open>src/qkd/mod.rs\<close>.  Whether a fixed seed sifts enough bits for a report takes thousands of
  steps of the generator to evaluate; the lemmas take the report of the run as given and prove the assertions
  on it.  The decimal literals are the doubles nearest to them.
\<close>

section \<open>Fixed entropy\<close>

record fixed_entropy =
  fe_values :: "u64 list"
  fe_pos :: nat

definition fixed_entropy_new :: "u64 list \<Rightarrow> fixed_entropy" where
  "fixed_entropy_new values = \<lparr>fe_values = values, fe_pos = 0\<rparr>"

definition fixed_entropy_next :: "(fixed_entropy, u64) drawn" where
  "fixed_entropy_next e =
     (if fe_pos e < length (fe_values e)
      then (Inr (fe_values e ! fe_pos e), e\<lparr>fe_pos := fe_pos e + 1\<rparr>)
      else (Inl EntropyExhausted, e))"

section \<open>Tests\<close>

text \<open>\<open>==\<close> on doubles.\<close>

definition f64_eq :: "f64 \<Rightarrow> f64 \<Rightarrow> bool" where
  "f64_eq x y = (x \<noteq> NaN \<and> x = y)"

definition test_simulation_accepts_zero_noise :: bool where
  "test_simulation_accepts_zero_noise =
     (let params = \<lparr>qp_qubit_count = 512, qp_sample_size = 40, qp_max_qber = Fin (f64_quot 11 100)\<rparr>
      in expect (channel_new (Fin 0)) (\<lambda>channel.
         expect (bb84_new params channel) (\<lambda>sim.
         expect_call (bb84_run sim xorshift_next (xorshift_seed 12345)) (\<lambda>report _.
         qr_accepted report \<and> f64_eq (qr_qber report) (Fin 0) \<and> qr_raw_bits report = 512 \<and> 40 \<le> qr_sifted_bits report \<and>
         length (qr_final_key_bits report) = qr_sifted_bits report - qr_sampled_bits report))))"

definition test_simulation_rejects_high_noise :: bool where
  "test_simulation_rejects_high_noise =
     (let params = \<lparr>qp_qubit_count = 512, qp_sample_size = 40, qp_max_qber = Fin (f64_quot 11 100)\<rparr>
      in expect (channel_new (Fin 1)) (\<lambda>channel.
         expect (bb84_new params channel) (\<lambda>sim.
         expect_call (bb84_run sim xorshift_next (xorshift_seed 77)) (\<lambda>report _.
         \<not> qr_accepted report \<and> f64_lt (Fin (1 / 2)) (qr_qber report)))))"

definition test_same_seed_is_deterministic :: bool where
  "test_same_seed_is_deterministic =
     (let params = \<lparr>qp_qubit_count = 300, qp_sample_size = 20, qp_max_qber = Fin (f64_quot 1 5)\<rparr>
      in expect (channel_new (Fin (f64_quot 1 20))) (\<lambda>channel.
         expect (bb84_new params channel) (\<lambda>sim.
         expect_call (bb84_run sim xorshift_next (xorshift_seed 999)) (\<lambda>r1 _.
         expect_call (bb84_run sim xorshift_next (xorshift_seed 999)) (\<lambda>r2 _.
         qr_sifted_bits r1 = qr_sifted_bits r2 \<and> qr_mismatches r1 = qr_mismatches r2 \<and>
         f64_eq (qr_qber r1) (qr_qber r2) \<and> qr_final_key_bits r1 = qr_final_key_bits r2)))))"

definition test_invalid_noise_probability_rejected :: bool where
  "test_invalid_noise_probability_rejected =
     expect_err (channel_new (Fin (3 / 2))) (\<lambda>err. err = InvalidNoiseProbability)"

definition test_empty_transmission_rejected :: bool where
  "test_empty_transmission_rejected =
     (let params = \<lparr>qp_qubit_count = 0, qp_sample_size = 4, qp_max_qber = Fin (f64_quot 1 10)\<rparr>
      in expect (channel_new (Fin 0)) (\<lambda>channel.
         expect_err (bb84_new params channel) (\<lambda>err. err = EmptyTransmission)))"

definition test_invalid_sample_size_rejected :: bool where
  "test_invalid_sample_size_rejected =
     (let params = \<lparr>qp_qubit_count = 8, qp_sample_size = 0, qp_max_qber = Fin (f64_quot 1 10)\<rparr>
      in expect (channel_new (Fin 0)) (\<lambda>channel.
         expect_err (bb84_new params channel) (\<lambda>err. err = InvalidSampleSize)))"

definition test_invalid_max_qber_rejected :: bool where
  "test_invalid_max_qber_rejected =
     (let params = \<lparr>qp_qubit_count = 8, qp_sample_size = 2, qp_max_qber = Fin 2\<rparr>
      in expect (channel_new (Fin 0)) (\<lambda>channel.
         expect_err (bb84_new params channel) (\<lambda>err. err = InvalidMaxQber)))"

definition test_insufficient_sifted_bits_error :: bool where
  "test_insufficient_sifted_bits_error =
     (let params = \<lparr>qp_qubit_count = 4, qp_sample_size = 5, qp_max_qber = Fin (f64_quot 1 5)\<rparr>
      in expect (channel_new (Fin 0)) (\<lambda>channel.
         expect (bb84_new params channel) (\<lambda>sim.
         expect_call_err (bb84_run sim xorshift_next (xorshift_seed 5)) (\<lambda>err. err = InsufficientSiftedBits))))"

definition test_entropy_exhaustion_propagates :: bool where
  "test_entropy_exhaustion_propagates =
     (let params = \<lparr>qp_qubit_count = 64, qp_sample_size = 4, qp_max_qber = Fin (f64_quot 1 5)\<rparr>
      in expect (channel_new (Fin 0)) (\<lambda>channel.
         expect (bb84_new params channel) (\<lambda>sim.
         expect_call_err (bb84_run sim fixed_entropy_next (fixed_entropy_new [0, 1, 2])) (\<lambda>err. err = EntropyExhausted))))"

definition test_report_serialization_roundtrip ::
  "(qkd_report \<Rightarrow> string) \<Rightarrow> (string \<Rightarrow> string + qkd_report) \<Rightarrow> bool" where
  "test_report_serialization_roundtrip to_json from_json =
     (let params = \<lparr>qp_qubit_count = 128, qp_sample_size = 16, qp_max_qber = Fin (f64_quot 3 20)\<rparr>
      in expect (channel_new (Fin (f64_quot 1 50))) (\<lambda>channel.
         expect (bb84_new params channel) (\<lambda>sim.
         expect_call (bb84_run sim xorshift_next (xorshift_seed 4242)) (\<lambda>report _.
         expect (from_json (to_json report)) (\<lambda>decoded.
         qr_raw_bits decoded = qr_raw_bits report \<and> qr_sifted_bits decoded = qr_sifted_bits report \<and>
         qr_mismatches decoded = qr_mismatches report \<and> qr_final_key_bits decoded = qr_final_key_bits report)))))"

text \<open>A source that never runs dry lets the transmission end.\<close>

definition drawn_total :: "('s, 'a) drawn \<Rightarrow> bool" where
  "drawn_total m = (\<forall>s. \<exists>x s'. m s = (Inr x, s'))"

lemma drawn_totalI:
  "drawn_total (\<lambda>s. (Inr x, s))"
  "drawn_total m \<Longrightarrow> (\<And>x. drawn_total (f x)) \<Longrightarrow> drawn_total (draw_then m f)"
  unfolding drawn_total_def draw_then_Inr by blast+

lemma send_qubit_total:
  assumes "drawn_total nx"
  shows "drawn_total (send_qubit ch nx)"
  unfolding send_qubit_def next_bit_def basis_random_def maybe_flip_def next_unit_f64_def
  by (intro drawn_totalI assms) (auto intro!: drawn_totalI assms split: if_splits)

lemma transmit_total: "drawn_total nx \<Longrightarrow> drawn_total (transmit ch nx n alice bob)"
  by (induction n arbitrary: alice bob)
    (auto intro!: drawn_totalI(1) drawn_totalI(2) [OF send_qubit_total] split: option.splits)

lemma xorshift_total: "drawn_total xorshift_next"
  by (simp add: drawn_total_def xorshift_next_def Let_def)

lemma qkd_error_tests_pass:
  "test_invalid_noise_probability_rejected" "test_empty_transmission_rejected" "test_invalid_sample_size_rejected"
  "test_invalid_max_qber_rejected"
  by (simp_all add: test_invalid_noise_probability_rejected_def test_empty_transmission_rejected_def
      test_invalid_sample_size_rejected_def test_invalid_max_qber_rejected_def channel_new_def bb84_new_def
      f64_unit_interval_def)

lemma simulator_new:
  "f64_unit_interval p \<Longrightarrow> channel_new p = Inr \<lparr>qc_bit_flip_probability = p\<rparr>"
  "0 < n \<Longrightarrow> 0 < k \<Longrightarrow> f64_unit_interval q \<Longrightarrow> bb84_new \<lparr>qp_qubit_count = n, qp_sample_size = k, qp_max_qber = q\<rparr> ch =
    Inr \<lparr>bb_params = \<lparr>qp_qubit_count = n, qp_sample_size = k, qp_max_qber = q\<rparr>, bb_channel = ch\<rparr>"
  by (simp_all add: channel_new_def bb84_new_def)

lemma literals_unit:
  "f64_unit_interval (Fin 0)" "f64_unit_interval (Fin 1)" "f64_unit_interval (Fin (f64_quot 11 100))"
  "f64_unit_interval (Fin (f64_quot 1 5))" "f64_unit_interval (Fin (f64_quot 1 20))"
  "f64_unit_interval (Fin (f64_quot 3 20))" "f64_unit_interval (Fin (f64_quot 1 50))"
  by (simp_all add: f64_unit_interval_def f64_quot_def scaled_def bit_length.simps round_even_def Let_def)

lemma insufficient_bits_test_passes: "test_insufficient_sifted_bits_error"
proof -
  let ?ch = "\<lparr>qc_bit_flip_probability = Fin 0\<rparr>"
  obtain alice bob s' where t: "transmit ?ch xorshift_next 4 [] [] (xorshift_seed 5) = (Inr (alice, bob), s')"
    using transmit_total [OF xorshift_total] unfolding drawn_total_def by (metis surj_pair)
  have "length alice \<le> 4"
    using transmit_lists [OF t, of "\<lambda>_ _. True"] by simp
  then show ?thesis
    by (simp add: test_insufficient_sifted_bits_error_def simulator_new literals_unit bb84_run_def draw_then_def t)
qed

lemma entropy_exhaustion_test_passes: "test_entropy_exhaustion_propagates"
proof -
  have "send_qubit ch fixed_entropy_next (fixed_entropy_new [0, 1, 2]) = (Inl EntropyExhausted, \<lparr>fe_values = [0, 1, 2], fe_pos = 3\<rparr>)" for ch
    by (simp add: send_qubit_def draw_then_def next_bit_def basis_random_def fixed_entropy_next_def fixed_entropy_new_def)
  then have "transmit ch fixed_entropy_next (Suc n) [] [] (fixed_entropy_new [0, 1, 2]) =
      (Inl EntropyExhausted, \<lparr>fe_values = [0, 1, 2], fe_pos = 3\<rparr>)" for ch n
    by (simp add: draw_then_def)
  from this [of _ 63] show ?thesis
    by (simp add: test_entropy_exhaustion_propagates_def simulator_new literals_unit bb84_run_def draw_then_def)
qed

text \<open>The tests that need a report of the run with their seed.\<close>

definition test_run :: "nat \<Rightarrow> nat \<Rightarrow> rat \<Rightarrow> rat \<Rightarrow> u64 \<Rightarrow> (qkd_error + qkd_report) \<times> u64" where
  "test_run n k q p seed =
     bb84_run \<lparr>bb_params = \<lparr>qp_qubit_count = n, qp_sample_size = k, qp_max_qber = Fin q\<rparr>,
       bb_channel = \<lparr>qc_bit_flip_probability = Fin p\<rparr>\<rparr> xorshift_next (xorshift_seed seed)"

lemma qber_not_NaN: "0 < k \<Longrightarrow> f64_div m k \<noteq> NaN"
  by (simp add: f64_div_def)

lemma zero_noise_test_passes:
  assumes "test_run 512 40 (f64_quot 11 100) 0 12345 = (Inr r, s')"
  shows "test_simulation_accepts_zero_noise"
proof -
  obtain alice bob sample s1 where
    t: "transmit \<lparr>qc_bit_flip_probability = Fin 0\<rparr> xorshift_next 512 [] [] (xorshift_seed 12345) = (Inr (alice, bob), s1)"
    and l: "40 \<le> length alice" and i: "random_unique_indices xorshift_next (length alice) 40 s1 = (Inr sample, s')"
    and r: "r = \<lparr>qr_raw_bits = 512, qr_sifted_bits = length alice, qr_sampled_bits = 40,
           qr_mismatches = length (filter (\<lambda>i. alice ! i \<noteq> bob ! i) sample),
           qr_qber = f64_div (length (filter (\<lambda>i. alice ! i \<noteq> bob ! i) sample)) 40,
           qr_accepted = f64_le (f64_div (length (filter (\<lambda>i. alice ! i \<noteq> bob ! i) sample)) 40) (Fin (f64_quot 11 100)),
           qr_final_key_bits = map snd (filter (\<lambda>(i, _). \<not> sample_marks (length alice) sample ! i) (enumerate 0 alice))\<rparr>"
    by (rule bb84_run_cases [OF assms [unfolded test_run_def] refl refl]) simp
  have "list_all2 (=) alice bob"
    using transmit_lists [OF t, of "(=)"] send_qubit_bits(2) [of "\<lparr>qc_bit_flip_probability = Fin 0\<rparr>" xorshift_next] by force
  then have "qr_qber r = Fin 0"
    by (simp add: r list.rel_eq f64_div_def f64_of_uint_def)
  moreover have "qr_accepted r"
    using \<open>qr_qber r = Fin 0\<close> f64_quot_nonneg [of 11 100] by (simp add: r)
  moreover have "length (qr_final_key_bits r) = length alice - 40"
    using unsampled_length [of sample alice] random_unique_indices_range [OF i l] by (simp add: r)
  ultimately show ?thesis
    using l assms by (simp add: test_simulation_accepts_zero_noise_def simulator_new literals_unit test_run_def f64_eq_def r)
qed

lemma same_seed_test_passes:
  assumes "test_run 300 20 (f64_quot 1 5) (f64_quot 1 20) 999 = (Inr r, s')"
  shows "test_same_seed_is_deterministic"
proof -
  have "qr_qber r \<noteq> NaN"
    by (rule bb84_run_cases [OF assms [unfolded test_run_def] refl refl]) (simp add: qber_not_NaN)
  then show ?thesis
    using assms by (simp add: test_same_seed_is_deterministic_def simulator_new literals_unit test_run_def f64_eq_def)
qed

lemma serialization_test_passes:
  assumes "test_run 128 16 (f64_quot 3 20) (f64_quot 1 50) 4242 = (Inr r, s')" "from_json (to_json r) = Inr r"
  shows "test_report_serialization_roundtrip to_json from_json"
  using assms by (simp add: test_report_serialization_roundtrip_def simulator_new literals_unit test_run_def)

text \<open>With noise 1 a bit flips unless its draw rounds to 1; the test passes when every sifted pair differs.\<close>

lemma high_noise_test_passes:
  assumes "test_run 512 40 (f64_quot 11 100) 1 77 = (Inr r, s')"
    and "transmit \<lparr>qc_bit_flip_probability = Fin 1\<rparr> xorshift_next 512 [] [] (xorshift_seed 77) = (Inr (alice, bob), s1)"
    and "list_all2 (\<noteq>) alice bob"
  shows "test_simulation_rejects_high_noise"
proof -
  let ?differ = "\<lambda>sample. length (filter (\<lambda>i. alice ! i \<noteq> bob ! i) sample)"
  obtain alice' bob' sample s1' where
    t: "transmit \<lparr>qc_bit_flip_probability = Fin 1\<rparr> xorshift_next 512 [] [] (xorshift_seed 77) = (Inr (alice', bob'), s1')"
    and l': "40 \<le> length alice'" and i': "random_unique_indices xorshift_next (length alice') 40 s1' = (Inr sample, s')"
    and r': "r = \<lparr>qr_raw_bits = 512, qr_sifted_bits = length alice', qr_sampled_bits = 40,
           qr_mismatches = length (filter (\<lambda>i. alice' ! i \<noteq> bob' ! i) sample),
           qr_qber = f64_div (length (filter (\<lambda>i. alice' ! i \<noteq> bob' ! i) sample)) 40,
           qr_accepted = f64_le (f64_div (length (filter (\<lambda>i. alice' ! i \<noteq> bob' ! i) sample)) 40) (Fin (f64_quot 11 100)),
           qr_final_key_bits = map snd (filter (\<lambda>(i, _). \<not> sample_marks (length alice') sample ! i) (enumerate 0 alice'))\<rparr>"
    by (rule bb84_run_cases [OF assms(1) [unfolded test_run_def] refl refl]) simp
  have l: "40 \<le> length alice" and i: "random_unique_indices xorshift_next (length alice) 40 s1 = (Inr sample, s')"
    and r: "qr_qber r = f64_div (?differ sample) 40"
      "qr_accepted r = f64_le (f64_div (?differ sample) 40) (Fin (f64_quot 11 100))"
    using t l' i' by (simp_all add: assms(2) r')
  have "filter (\<lambda>i. alice ! i \<noteq> bob ! i) sample = sample"
    using random_unique_indices_range(2) [OF i l] assms(3)
    by (auto simp: filter_id_conv list_all2_conv_all_nth)
  then have "?differ sample = 40"
    using random_unique_indices_range(3) [OF i l] by simp
  moreover have "f64_div 40 40 = Fin 1" "\<not> f64_le (Fin 1) (Fin (f64_quot 11 100))"
    by (simp_all add: f64_div_def f64_quot_def scaled_def bit_length.simps round_even_def Let_def)
  ultimately show ?thesis
    using assms(1) r by (simp add: test_simulation_rejects_high_noise_def simulator_new literals_unit test_run_def)
qed

end
