(* ===== verification/Tests_Interop.thy ===== *)
theory Tests_Interop
  imports Did "HOL-Library.Sublist" Test_Support
begin

text \<open>
  The tests of \<open>src/interop/jwk.rs\<close> and \<open>src/interop/did.rs\<close>, for every base64url engine and every JSON
  library that reads back what it writes.
\<close>

section \<open>Keys\<close>

definition FAKE_PK :: bytes where
  "FAKE_PK = as_bytes ''ml-dsa-public-key-bytes-32------''"

definition FAKE_SK :: bytes where
  "FAKE_SK = as_bytes ''ml-dsa-secret-key-bytes-64------''"

definition test_public_jwk_roundtrip :: "base64url \<Rightarrow> bool" where
  "test_public_jwk_roundtrip B =
     expect (from_public B MlDsa65 FAKE_PK (Some ''key-1'')) (\<lambda>jwk.
     jk_kty jwk = ''OKP'' \<and> jk_alg jwk = ''ML-DSA-65'' \<and> jk_d jwk = None \<and>
     expect (decode_public_key B jwk) (\<lambda>decoded. decoded = FAKE_PK))"

definition test_keypair_jwk_roundtrip :: "base64url \<Rightarrow> bool" where
  "test_keypair_jwk_roundtrip B =
     expect (from_keypair B MlDsa65 FAKE_PK FAKE_SK None) (\<lambda>jwk.
     jk_d jwk \<noteq> None \<and>
     expect (decode_public_key B jwk) (\<lambda>decoded_pk.
     expect (decode_private_key B jwk) (\<lambda>sk. case sk of
       None \<Rightarrow> False
     | Some decoded_sk \<Rightarrow> decoded_pk = FAKE_PK \<and> decoded_sk = FAKE_SK)))"

definition test_mlkem_public_jwk :: "base64url \<Rightarrow> bool" where
  "test_mlkem_public_jwk B =
     expect (from_public B MlKem1024 FAKE_PK None) (\<lambda>jwk.
     jk_alg jwk = ''ML-KEM-1024'' \<and> expect (jwk_algorithm jwk) (\<lambda>a. a = MlKem1024))"

definition test_json_serialisation_roundtrip :: "base64url \<Rightarrow> json_text \<Rightarrow> bool" where
  "test_json_serialisation_roundtrip B J =
     expect (from_public B MlDsa65 FAKE_PK (Some ''k1'')) (\<lambda>jwk.
     let json = jwk_to_json J jwk
     in expect (jwk_from_json J json) (\<lambda>restored. jwk = restored))"

definition test_empty_public_key_rejected :: "base64url \<Rightarrow> bool" where
  "test_empty_public_key_rejected B = expect_err (from_public B MlDsa65 [] None) (\<lambda>err. err = EmptyKey)"

definition test_empty_private_key_rejected :: "base64url \<Rightarrow> bool" where
  "test_empty_private_key_rejected B = expect_err (from_keypair B MlDsa65 FAKE_PK [] None) (\<lambda>err. err = EmptyKey)"

definition test_public_only_decode_private_returns_none :: "base64url \<Rightarrow> bool" where
  "test_public_only_decode_private_returns_none B =
     expect (from_public B MlDsa65 FAKE_PK None) (\<lambda>jwk. expect (decode_private_key B jwk) (\<lambda>sk. sk = None))"

definition test_invalid_json_returns_error :: "json_text \<Rightarrow> bool" where
  "test_invalid_json_returns_error J =
     expect_err (jwk_from_json J ''{bad json}'') (\<lambda>err. case err of MissingField _ \<Rightarrow> True | _ \<Rightarrow> False)"

definition test_unknown_alg_returns_error :: "base64url \<Rightarrow> bool" where
  "test_unknown_alg_returns_error B =
     (let jwk = \<lparr>jk_kty = ''OKP'', jk_alg = ''SomeUnknownAlg'', jk_crv = ''SomeUnknownAlg'', jk_x = bu_encode B FAKE_PK,
                 jk_d = None, jk_kid = None\<rparr>
      in expect_err (jwk_algorithm jwk) (\<lambda>err. case err of UnsupportedKeyType _ \<Rightarrow> True | _ \<Rightarrow> False))"

lemma fake_keys: "FAKE_PK \<noteq> []" "FAKE_SK \<noteq> []"
  by (simp_all add: FAKE_PK_def FAKE_SK_def)

lemma jwk_tests_pass:
  assumes "lawful_base64url B" "lawful_json J"
  shows "test_public_jwk_roundtrip B" "test_keypair_jwk_roundtrip B" "test_mlkem_public_jwk B"
    "test_json_serialisation_roundtrip B J" "test_empty_public_key_rejected B" "test_empty_private_key_rejected B"
    "test_public_only_decode_private_returns_none B" "test_unknown_alg_returns_error B"
  using assms fake_keys
  by (simp_all add: test_public_jwk_roundtrip_def test_keypair_jwk_roundtrip_def test_mlkem_public_jwk_def
      test_json_serialisation_roundtrip_def test_empty_public_key_rejected_def test_empty_private_key_rejected_def
      test_public_only_decode_private_returns_none_def test_unknown_alg_returns_error_def from_public_def
      from_keypair_def decode_public_key_def decode_private_key_def b64url_decode_def lawful_base64url_def
      jwk_algorithm_def algorithm_from_str_def jwk_from_to_json)

text \<open>A text that does not parse, or parses to no key, is a missing field.\<close>

lemma invalid_json_test_passes: "jt_parse J ''{bad json}'' = Inl e \<Longrightarrow> test_invalid_json_returns_error J"
  by (simp add: test_invalid_json_returns_error_def jwk_from_json_def)

section \<open>Documents\<close>

definition make_jwk :: "base64url \<Rightarrow> string \<Rightarrow> jwk_error + pqc_jwk" where
  "make_jwk B label =
     (let key_bytes = as_bytes (''fake-public-key-'' @ label) in from_public B MlDsa65 key_bytes (Some label))"

definition make_method :: "base64url \<Rightarrow> string \<Rightarrow> string \<Rightarrow> jwk_error + verification_method" where
  "make_method B did fragment =
     (let i = did @ ''#'' @ fragment in unwrapped (make_jwk B fragment) (\<lambda>jwk. Inr (vm_new i did jwk)))"

definition test_create_did_document :: bool where
  "test_create_did_document =
     expect (did_new ''did:example:alice'') (\<lambda>doc.
     dd_id doc = ''did:example:alice'' \<and> length (dd_context doc) = 2 \<and> dd_verification_methods doc = [])"

definition test_add_verification_method_authentication :: "base64url \<Rightarrow> bool" where
  "test_add_verification_method_authentication B =
     expect (did_new ''did:example:alice'') (\<lambda>doc.
     expect (make_method B ''did:example:alice'' ''key-1'') (\<lambda>method.
     expect (add_verification_method method [Authentication] doc) (\<lambda>doc.
     length (dd_verification_methods doc) = 1 \<and> dd_authentication doc = [''did:example:alice#key-1''] \<and>
     dd_assertion_method doc = [])))"

definition test_add_multiple_relationships :: "base64url \<Rightarrow> bool" where
  "test_add_multiple_relationships B =
     expect (did_new ''did:example:bob'') (\<lambda>doc.
     expect (make_method B ''did:example:bob'' ''key-1'') (\<lambda>method.
     expect (add_verification_method method [Authentication, AssertionMethod] doc) (\<lambda>doc.
     length (dd_authentication doc) = 1 \<and> length (dd_assertion_method doc) = 1)))"

definition test_duplicate_method_rejected :: "base64url \<Rightarrow> bool" where
  "test_duplicate_method_rejected B =
     expect (did_new ''did:example:carol'') (\<lambda>doc.
     expect (make_method B ''did:example:carol'' ''key-1'') (\<lambda>m1.
     expect (make_method B ''did:example:carol'' ''key-1'') (\<lambda>m2.
     expect (add_verification_method m1 [] doc) (\<lambda>doc.
     expect_err (add_verification_method m2 [] doc) (\<lambda>err.
       case err of DuplicateVerificationMethod _ \<Rightarrow> True | _ \<Rightarrow> False)))))"

definition test_get_method_found :: "base64url \<Rightarrow> bool" where
  "test_get_method_found B =
     expect (did_new ''did:example:dan'') (\<lambda>doc.
     expect (make_method B ''did:example:dan'' ''key-1'') (\<lambda>method.
     expect (add_verification_method method [] doc) (\<lambda>doc.
     expect (get_method doc ''did:example:dan#key-1'') (\<lambda>found. vm_method_type found = ''JsonWebKey2020''))))"

definition test_get_method_not_found :: bool where
  "test_get_method_not_found =
     expect (did_new ''did:example:eve'') (\<lambda>doc.
     expect_err (get_method doc ''did:example:eve#missing'') (\<lambda>err.
       case err of VerificationMethodNotFound _ \<Rightarrow> True | _ \<Rightarrow> False))"

definition test_remove_method_clears_relationships :: "base64url \<Rightarrow> bool" where
  "test_remove_method_clears_relationships B =
     expect (did_new ''did:example:frank'') (\<lambda>doc.
     expect (make_method B ''did:example:frank'' ''key-1'') (\<lambda>method.
     expect (add_verification_method method [Authentication, KeyAgreement] doc) (\<lambda>doc.
     expect_call (remove_method ''did:example:frank#key-1'' doc) (\<lambda>_ doc.
     dd_verification_methods doc = [] \<and> dd_authentication doc = [] \<and> dd_key_agreement doc = []))))"

definition test_remove_nonexistent_returns_error :: bool where
  "test_remove_nonexistent_returns_error =
     expect (did_new ''did:example:grace'') (\<lambda>doc.
     expect_call_err (remove_method ''did:example:grace#ghost'' doc) (\<lambda>err.
       case err of VerificationMethodNotFound _ \<Rightarrow> True | _ \<Rightarrow> False))"

text \<open>\<open>json.contains(..)\<close>.\<close>

definition test_json_roundtrip :: "base64url \<Rightarrow> json_text \<Rightarrow> bool" where
  "test_json_roundtrip B J =
     expect (did_new ''did:example:hank'') (\<lambda>doc.
     expect (make_method B ''did:example:hank'' ''key-1'') (\<lambda>method.
     expect (add_verification_method method [Authentication] doc) (\<lambda>doc.
     let json = did_to_json J doc in sublist ''did:example:hank'' json \<and> sublist ''JsonWebKey2020'' json)))"

definition test_empty_did_rejected :: bool where
  "test_empty_did_rejected = expect_err (did_new []) (\<lambda>err. err = EmptyDid)"

lemmas did_eval = did_new_def make_method_def make_jwk_def from_public_def add_verification_method_def vm_new_def
  get_method_def remove_method_def

lemma did_tests_pass:
  "test_create_did_document" "test_add_verification_method_authentication B" "test_add_multiple_relationships B"
  "test_duplicate_method_rejected B" "test_get_method_found B" "test_get_method_not_found"
  "test_remove_method_clears_relationships B" "test_remove_nonexistent_returns_error" "test_empty_did_rejected"
  by (simp_all add: test_create_did_document_def test_add_verification_method_authentication_def
      test_add_multiple_relationships_def test_duplicate_method_rejected_def test_get_method_found_def
      test_get_method_not_found_def test_remove_method_clears_relationships_def
      test_remove_nonexistent_returns_error_def test_empty_did_rejected_def did_eval)

text \<open>A JSON text contains the strings of its value that need no escape.\<close>

fun json_texts :: "json \<Rightarrow> string set" where
  "json_texts (JStr s) = {s}"
| "json_texts (JArr js) = (\<Union>j\<in>set js. json_texts j)"
| "json_texts (JObj ms) = (\<Union>m\<in>set ms. json_texts (snd m))"
| "json_texts _ = {}"

definition unescaped :: "char \<Rightarrow> bool" where
  "unescaped c = (32 \<le> (of_char c :: nat) \<and> (of_char c :: nat) < 127 \<and> c \<noteq> CHR 0x22 \<and> c \<noteq> CHR 0x5C)"

definition prints_texts :: "json_text \<Rightarrow> bool" where
  "prints_texts J = (\<forall>j. \<forall>s \<in> json_texts j. list_all unescaped s \<longrightarrow> sublist s (jt_print J j))"

lemma did_json_test_passes: "prints_texts J \<Longrightarrow> test_json_roundtrip B J"
proof -
  assume J: "prints_texts J"
  obtain doc where doc: "did_new ''did:example:hank'' = Inr doc" "dd_verification_methods doc = []" "dd_id doc = ''did:example:hank''"
    by (simp add: did_new_def)
  obtain m where m: "make_method B ''did:example:hank'' ''key-1'' = Inr m" "vm_id m = ''did:example:hank#key-1''"
    "vm_method_type m = ''JsonWebKey2020''"
    by (simp add: did_eval)
  obtain d where d: "add_verification_method m [Authentication] doc = Inr d" "dd_verification_methods d = [m]"
    "dd_id d = ''did:example:hank''"
    using doc m(2) by (simp add: add_verification_method_def)
  have "''did:example:hank'' \<in> json_texts (did_value d)" "''JsonWebKey2020'' \<in> json_texts (did_value d)"
    by (simp_all add: did_value_def vm_value_def d m(3))
  moreover have "list_all unescaped ''did:example:hank''" "list_all unescaped ''JsonWebKey2020''"
    by (simp_all add: unescaped_def)
  ultimately have "sublist ''did:example:hank'' (did_to_json J d)" "sublist ''JsonWebKey2020'' (did_to_json J d)"
    using J unfolding prints_texts_def did_to_json_def by blast+
  then show ?thesis
    by (simp add: test_json_roundtrip_def doc(1) m(1) d(1))
qed

end
