(* ===== verification/Tests_Sgx.thy ===== *)
theory Tests_Sgx
  imports Sgx_Attestation Quote_Verifier Sealed_Storage Sgx_Interface Test_Support
begin

text \<open>
  The tests of \<open>src/confidential_computing/tee_common.rs\<close> and of the files of \<open>sgx/\<close>.  A test that gives up
  where the platform has no SGX passes there.
\<close>

section \<open>Common types\<close>

definition test_tee_type_sgx :: bool where
  "test_tee_type_sgx = (SGX = SGX)"

definition test_tee_config_sgx :: bool where
  "test_tee_config_sgx = (let config = tee_config_sgx in tc_tee_type config = SGX \<and> \<not> tc_debug_mode config)"

definition test_sealed_data_creation :: bool where
  "test_sealed_data_creation =
     (let sealed = sealed_data_new SGX [1, 2, 3] (replicate 16 0) (replicate 12 0) in sd_tee_type sealed = SGX)"

lemma tee_common_tests_pass: "test_tee_type_sgx" "test_tee_config_sgx" "test_sealed_data_creation"
  by (simp_all add: test_tee_type_sgx_def test_tee_config_sgx_def tee_config_sgx_def test_sealed_data_creation_def
      sealed_data_new_def)

section \<open>The enclave\<close>

definition test_attestation_config_dcap :: bool where
  "test_attestation_config_dcap =
     (let config = config_dcap
      in ac_provider config = DCAP \<and> ac_ias_api_key config = None \<and> ac_dcap_collateral_url config \<noteq> None)"

definition test_attestation_config_ias :: bool where
  "test_attestation_config_ias =
     (let config = config_ias ''test-api-key''
      in ac_provider config = IAS \<and> ac_ias_api_key config = Some ''test-api-key'')"

definition test_pcr_policy_any :: bool where
  "test_pcr_policy_any =
     (let policy = policy_any in pp_pcr0 policy = None \<and> pp_pcr1 policy = None \<and> pp_pcr2 policy = None)"

definition test_pcr_values_match_policy :: bool where
  "test_pcr_values_match_policy =
     (let pcr0 = replicate 32 1; pcr1 = replicate 32 2; pcr2 = replicate 32 3;
          values = pcr_new pcr0 pcr1 pcr2;
          policy = policy_strict pcr0 pcr1 pcr2
      in matches_policy values policy)"

definition test_pcr_values_mismatch_policy :: bool where
  "test_pcr_values_mismatch_policy =
     (let values = pcr_new (replicate 32 1) (replicate 32 2) (replicate 32 3);
          policy = policy_strict (replicate 32 0) (replicate 32 2) (replicate 32 3)
      in \<not> matches_policy values policy)"

definition test_enclave_exposes_attestation_config :: "bool \<Rightarrow> bool" where
  "test_enclave_exposes_attestation_config simulator =
     (let config = config_dcap
      in case enclave_initialize simulator config of
           Inl _ \<Rightarrow> True
         | Inr enclave \<Rightarrow> ac_provider (enclave_attestation_config enclave) = DCAP)"

lemma sgx_tests_pass:
  "test_attestation_config_dcap" "test_attestation_config_ias" "test_pcr_policy_any" "test_pcr_values_match_policy"
  "test_pcr_values_mismatch_policy" "test_enclave_exposes_attestation_config simulator"
  by (simp_all add: test_attestation_config_dcap_def config_dcap_def test_attestation_config_ias_def config_ias_def
      test_pcr_policy_any_def policy_any_def test_pcr_values_match_policy_def test_pcr_values_mismatch_policy_def
      pcr_new_def test_enclave_exposes_attestation_config_def enclave_initialize_def enclave_attestation_config_def)

section \<open>Attestation\<close>

definition test_dcap_verifier_creation :: bool where
  "test_dcap_verifier_creation =
     (let verifier = dcap_new ''https://api.trustedservices.intel.com/sgx/certification/v4'' False
      in \<not> dv_allow_outdated_pcks verifier)"

definition test_ias_verifier_creation :: bool where
  "test_ias_verifier_creation = (let verifier = ias_new ''test-api-key'' in iv_api_key verifier = ''test-api-key'')"

definition test_attestation_verifier_dcap :: bool where
  "test_attestation_verifier_dcap =
     (let config = config_dcap in expect (from_config config) (\<lambda>verifier. av_dcap verifier \<noteq> None))"

definition test_attestation_verifier_ias :: bool where
  "test_attestation_verifier_ias =
     (let config = config_ias ''test-key'' in expect (from_config config) (\<lambda>verifier. av_ias verifier \<noteq> None))"

lemma attestation_tests_pass:
  "test_dcap_verifier_creation" "test_ias_verifier_creation" "test_attestation_verifier_dcap" "test_attestation_verifier_ias"
  by (simp_all add: test_dcap_verifier_creation_def dcap_new_def test_ias_verifier_creation_def ias_new_def
      test_attestation_verifier_dcap_def test_attestation_verifier_ias_def from_config_def config_dcap_def config_ias_def)

section \<open>Quote verification\<close>

definition test_quote_validation_policy_default :: bool where
  "test_quote_validation_policy_default =
     (let policy = quote_policy_default
      in qp_max_age_seconds policy = 3600 \<and> qp_require_intel_signature policy \<and> qp_require_patched_cpu policy)"

definition test_quote_verifier_creation :: bool where
  "test_quote_verifier_creation =
     (let policy = quote_policy_default; verifier = verifier_new policy
      in length (qv_advisory_db verifier) = 0 \<and> length (qv_intel_root_certs verifier) = 0)"

definition test_security_advisory_creation :: bool where
  "test_security_advisory_creation =
     (let advisory = \<lparr>sa_id = ''INTEL-SA-00219'', sa_affected_cpus = [''Sky Lake''],
            sa_description = ''SGX side-channel vulnerability'', sa_severity = ''HIGH'', sa_issued = ''2019-01-01''\<rparr>
      in sa_id advisory = ''INTEL-SA-00219'' \<and> sa_severity advisory = ''HIGH'')"

definition test_quote_verification_result_structure :: bool where
  "test_quote_verification_result_structure =
     (let result = \<lparr>qr_is_valid = True, qr_signature_valid = True, qr_cert_chain_valid = True, qr_is_fresh = True,
            qr_cpu_patched = True, qr_advisories = [], qr_verified_at = 0, qr_quote_age_seconds = 0\<rparr>
      in qr_is_valid result \<and> qr_is_fresh result)"

lemma quote_tests_pass:
  "test_quote_validation_policy_default" "test_quote_verifier_creation" "test_security_advisory_creation"
  "test_quote_verification_result_structure"
  by (simp_all add: test_quote_validation_policy_default_def quote_policy_default_def test_quote_verifier_creation_def
      verifier_new_def test_security_advisory_creation_def test_quote_verification_result_structure_def)

section \<open>Sealed storage\<close>

definition test_sealed_blob_creation :: bool where
  "test_sealed_blob_creation =
     (let blob = blob_new (replicate 12 0) [1, 2, 3] (replicate 16 0) policy_any in blob_size blob = 12 + 3 + 16)"

definition test_sealed_blob_serialization :: "json_text \<Rightarrow> bool" where
  "test_sealed_blob_serialization J =
     (let blob = blob_new (replicate 12 0) [1, 2, 3] (replicate 16 0) policy_any;
          bytes = blob_to_bytes J blob
      in expect (blob_from_bytes J bytes) (\<lambda>blob2. sb_ciphertext blob = sb_ciphertext blob2))"

definition test_sealed_storage_seal_unseal :: bool where
  "test_sealed_storage_seal_unseal =
     (let pcr_values = pcr_new (replicate 32 0) (replicate 32 0) (replicate 32 0);
          storage = storage_new pcr_values;
          plaintext = as_bytes ''secret data''
      in expect_call (seal ''key1'' plaintext policy_any storage) (\<lambda>blob storage.
         expect (unseal blob storage) (\<lambda>unsealed. unsealed = plaintext)))"

definition test_sealed_storage_cache :: bool where
  "test_sealed_storage_cache =
     (let pcr_values = pcr_new (replicate 32 0) (replicate 32 0) (replicate 32 0);
          storage = storage_new pcr_values;
          blob = blob_new (replicate 12 0) [1, 2, 3] (replicate 16 0) policy_any;
          storage = cache_blob ''key1'' blob storage
      in get_cached storage ''key1'' \<noteq> None \<and> cache_size storage = 1)"

definition test_sealed_key_store_privacy :: bool where
  "test_sealed_key_store_privacy =
     (let pcr_values = pcr_new (replicate 32 0) (replicate 32 0) (replicate 32 0);
          key_store = key_store_new pcr_values;
          private_key = as_bytes ''super-secret-key'';
          policy = Some policy_any
      in expect_call (store_private_key ''pk1'' private_key policy key_store) (\<lambda>blob key_store.
         can_retrieve blob key_store \<and>
         expect (retrieve_private_key blob key_store) (\<lambda>retrieved. retrieved = private_key)))"

lemma storage_tests_pass:
  "test_sealed_blob_creation" "test_sealed_storage_seal_unseal" "test_sealed_storage_cache"
  "test_sealed_key_store_privacy"
  by (simp_all add: test_sealed_blob_creation_def blob_size_def blob_new_def test_sealed_storage_seal_unseal_def
      seal_def unseal_def storage_new_def test_sealed_storage_cache_def cache_blob_def get_cached_def cache_size_def
      test_sealed_key_store_privacy_def store_private_key_def key_store_new_def can_retrieve_def retrieve_private_key_def Let_def)

lemma blob_test_passes: "lawful_json J \<Longrightarrow> test_sealed_blob_serialization J"
  by (simp add: test_sealed_blob_serialization_def blob_bytes_roundtrip blob_new_def policy_any_def pcr_sized_def)

section \<open>The foreign interface\<close>

definition test_quote_type_ecdsa :: bool where
  "test_quote_type_ecdsa = (QUOTE_TYPE_ECDSA = 3)"

definition test_sgx_success_code :: bool where
  "test_sgx_success_code = (sgx_status_code SGX_SUCCESS = 0x0)"

lemma interface_tests_pass: "test_quote_type_ecdsa" "test_sgx_success_code"
  by (simp_all add: test_quote_type_ecdsa_def QUOTE_TYPE_ECDSA_def test_sgx_success_code_def)

end
