(* ===== verification/Tests_Tee.thy ===== *)
theory Tests_Tee
  imports Attestation_Service Test_Support
begin

text \<open>
  The tests of the files of \<open>src/confidential_computing/trustzone/\<close> and of \<open>attestation_service/mod.rs\<close>.  The
  readings of the clock are arguments; a test that needs fresh evidence passes when the second reading is
  not too long after the first.
\<close>

section \<open>The session\<close>

definition test_trustzone_init :: bool where
  "test_trustzone_init =
     (let cfg = secure_default
      in expect (tz_initialize cfg) (\<lambda>tz. tz_is_initialized tz \<and> tz_session tz = 1))"

definition test_trustzone_seal_unseal :: bool where
  "test_trustzone_seal_unseal =
     (let cfg = secure_default
      in expect (tz_initialize cfg) (\<lambda>tz.
         expect (tz_seal_data tz (as_bytes ''edge-secret'')) (\<lambda>sealed.
         expect (tz_unseal_data tz sealed) (\<lambda>plain. plain = as_bytes ''edge-secret''))))"

definition test_trustzone_attestation_type :: bool where
  "test_trustzone_attestation_type =
     (let cfg = secure_default
      in expect (tz_initialize cfg) (\<lambda>tz.
         expect (get_attestation tz) (\<lambda>report. tr_tee_type report = TrustZone)))"

definition test_cross_tee_attestation_contract :: "bool \<Rightarrow> u64 \<Rightarrow> bool" where
  "test_cross_tee_attestation_contract simulator now =
     expect (tz_initialize secure_default) (\<lambda>tz.
     case enclave_initialize simulator config_dcap of
       Inl _ \<Rightarrow> True
     | Inr sgx \<Rightarrow>
         expect (get_attestation tz) (\<lambda>tz_report.
         expect (get_quote now sgx) (\<lambda>sgx_report.
         tr_tee_type tz_report = TrustZone \<and> as_quote_bytes sgx_report \<noteq> [])))"

definition test_cross_tee_sealing_contract :: "bool \<Rightarrow> bool" where
  "test_cross_tee_sealing_contract simulator =
     expect (tz_initialize secure_default) (\<lambda>tz.
     case enclave_initialize simulator config_dcap of
       Inl _ \<Rightarrow> True
     | Inr sgx \<Rightarrow>
         expect (tz_seal_data tz (as_bytes ''contract-secret'')) (\<lambda>tz_sealed.
         let sgx_policy = policy_any
         in expect (enclave_seal_data sgx (as_bytes ''contract-secret'') sgx_policy) (\<lambda>sgx_sealed.
            sd_tee_type tz_sealed = TrustZone \<and> sgx_sealed \<noteq> [])))"

lemma zeros_nonempty: "0 < n \<Longrightarrow> zeros n \<noteq> []"
  by (simp add: zeros_def)

lemma session_tests_pass:
  "test_trustzone_init" "test_trustzone_seal_unseal" "test_trustzone_attestation_type"
  "test_cross_tee_attestation_contract simulator now" "test_cross_tee_sealing_contract simulator"
  by (simp_all add: test_trustzone_init_def test_trustzone_seal_unseal_def test_trustzone_attestation_type_def
      test_cross_tee_attestation_contract_def test_cross_tee_sealing_contract_def tz_initialize_def secure_default_def
      tz_is_initialized_def tz_session_def tz_seal_data_def tz_unseal_data_def sealed_data_new_def when_session_def
      get_attestation_def enclave_initialize_def get_quote_def when_initialized_def as_quote_bytes_def
      enclave_seal_data_def zeros_nonempty)

section \<open>The report verifier\<close>

definition test_verify_simulated_report :: "u64 \<Rightarrow> u64 \<Rightarrow> bool" where
  "test_verify_simulated_report now now' =
     (let report = build_simulated_report now;
          verifier = tz_verifier_new trustzone_policy_default
      in expect (tz_verify now' verifier report) (\<lambda>result.
         tv_is_valid result \<and> tv_is_fresh result \<and> tv_has_expected_format result))"

definition test_verify_stale_report :: "u64 \<Rightarrow> u64 \<Rightarrow> bool" where
  "test_verify_stale_report now now' =
     (let old = saturating_sub now 10000;
          report = build_simulated_report old;
          verifier = tz_verifier_new trustzone_policy_default
      in expect (tz_verify now' verifier report) (\<lambda>result. \<not> tv_is_valid result \<and> \<not> tv_is_fresh result))"

definition test_verify_missing_format_marker :: "u64 \<Rightarrow> u64 \<Rightarrow> bool" where
  "test_verify_missing_format_marker now now' =
     (let report = \<lparr>tr_tee_type = TrustZone, tr_attestation_data = as_bytes ''BAD-FORMAT'', tr_timestamp = now\<rparr>;
          verifier = tz_verifier_new trustzone_policy_default
      in expect (tz_verify now' verifier report) (\<lambda>result.
         \<not> tv_is_valid result \<and> \<not> tv_has_expected_format result))"

lemma verifier_tests_pass:
  "unat now' \<le> unat now + 300 \<Longrightarrow> test_verify_simulated_report now now'"
  "10000 \<le> now \<Longrightarrow> now \<le> now' \<Longrightarrow> test_verify_stale_report now now'"
  "test_verify_missing_format_marker now now'"
proof -
  have m: "prefix (as_bytes ''TZ-ATTEST'') (as_bytes ''TZ-ATTEST:SIMULATED:OP-TEE'')"
    "\<not> prefix (as_bytes ''TZ-ATTEST'') (as_bytes ''BAD-FORMAT'')"
    by simp_all
  show "test_verify_simulated_report now now'" if "unat now' \<le> unat now + 300"
    using that m(1) by (simp add: test_verify_simulated_report_def tz_verify_def tz_verifier_new_def
        build_simulated_report_def trustzone_policy_default_def saturating_sub_le Let_def del: as_bytes_simps)
  show "test_verify_missing_format_marker now now'"
    using m(2) by (simp add: test_verify_missing_format_marker_def tz_verify_def tz_verifier_new_def
        trustzone_policy_default_def Let_def del: as_bytes_simps)
  show "test_verify_stale_report now now'" if "10000 \<le> now" "now \<le> now'"
  proof -
    have "\<not> unat now' \<le> unat (saturating_sub now 10000) + 300"
      using that by (simp add: unat_saturating_sub word_le_nat_alt)
    then show ?thesis
      by (simp add: test_verify_stale_report_def tz_verify_def tz_verifier_new_def build_simulated_report_def
          trustzone_policy_default_def saturating_sub_le Let_def del: as_bytes_simps)
  qed
qed

section \<open>The command interface\<close>

definition test_request_roundtrip :: "json_text \<Rightarrow> bool" where
  "test_request_roundtrip J =
     (let req = ta_request_new 7 SealData (as_bytes ''abc'');
          bytes = request_to_bytes J req
      in expect (request_from_bytes J bytes) (\<lambda>req2.
         rq_session_id req2 = 7 \<and> rq_command req2 = SealData \<and> rq_payload req2 = as_bytes ''abc''))"

definition test_dispatch_attestation_command :: "json_text \<Rightarrow> bool" where
  "test_dispatch_attestation_command J =
     expect (tz_initialize secure_default) (\<lambda>enclave.
     let req = ta_request_new (tz_session enclave) GetAttestation []
     in expect (dispatch_command J enclave req) (\<lambda>resp.
        rs_success resp \<and>
        expect (json_from_slice J tee_report_of_value (rs_payload resp)) (\<lambda>report. tr_tee_type report = TrustZone)))"

definition test_dispatch_session_mismatch :: "json_text \<Rightarrow> bool" where
  "test_dispatch_session_mismatch J =
     expect (tz_initialize secure_default) (\<lambda>enclave.
     let req = ta_request_new (tz_session enclave + 1) SealData []
     in expect (dispatch_command J enclave req) (\<lambda>resp.
        \<not> rs_success resp \<and> rs_message resp = ''session mismatch''))"

lemma command_tests_pass:
  assumes "lawful_json J"
  shows "test_request_roundtrip J" "test_dispatch_attestation_command J" "test_dispatch_session_mismatch J"
proof -
  have "json_from_slice J tee_report_of_value (json_to_vec J (tee_report_value r)) = Inr r" for r
    by (rule json_from_slice_to_vec [OF assms]) simp_all
  then show "test_request_roundtrip J" "test_dispatch_attestation_command J" "test_dispatch_session_mismatch J"
    using request_bytes [OF assms]
    by (simp_all add: test_request_roundtrip_def ta_request_new_def test_dispatch_attestation_command_def
      test_dispatch_session_mismatch_def tz_initialize_def secure_default_def tz_session_def dispatch_command_def
        get_attestation_def when_session_def response_ok_def response_err_def)
qed

section \<open>The service\<close>

definition test_unified_from_sgx :: "bool \<Rightarrow> u64 \<Rightarrow> u64 \<Rightarrow> bool" where
  "test_unified_from_sgx simulator now now' =
     (case enclave_initialize simulator config_dcap of
        Inl _ \<Rightarrow> True
      | Inr enclave \<Rightarrow>
          expect (get_quote now enclave) (\<lambda>quote.
          let service = service_new
          in expect (verify_sgx_quote now' service quote) (\<lambda>result.
             ur_tee_type result = SGX \<and> ur_trust_level result = High)))"

definition test_unified_from_trustzone :: "u64 \<Rightarrow> u64 \<Rightarrow> bool" where
  "test_unified_from_trustzone now now' =
     (let service = service_new;
          report = build_simulated_report now
      in expect (verify_trustzone_report now' service report) (\<lambda>result.
         ur_tee_type result = TrustZone \<and> ur_is_valid result \<and> ur_trust_level result = Medium))"

definition test_verify_report_rejects_unsupported_tee :: "u64 \<Rightarrow> bool" where
  "test_verify_report_rejects_unsupported_tee now =
     (let service = service_new;
          report = \<lparr>tr_tee_type = SGX, tr_attestation_data = [], tr_timestamp = 0\<rparr>
      in expect_err (verify_report now service report) (\<lambda>err. case err of UnsupportedTee t \<Rightarrow> t = SGX | _ \<Rightarrow> False))"

definition test_routing_policy_blocks_disallowed_tee :: "bool \<Rightarrow> u64 \<Rightarrow> u64 \<Rightarrow> bool" where
  "test_routing_policy_blocks_disallowed_tee simulator now now' =
     (let policy = routing_policy_default;
          policy = policy\<lparr>rp_allowed_tees := {}\<rparr>;
          policy = policy\<lparr>rp_allowed_tees := insert TrustZone (rp_allowed_tees policy)\<rparr>;
          service = with_routing_policy policy
      in case enclave_initialize simulator config_dcap of
           Inl _ \<Rightarrow> True
         | Inr enclave \<Rightarrow>
             expect (get_quote now enclave) (\<lambda>quote.
             expect_err (verify_sgx_quote now' service quote) (\<lambda>err.
               case err of PolicyRejected msg \<Rightarrow> sublist ''not allowed'' msg | _ \<Rightarrow> False)))"

definition test_routing_policy_enforces_age_sla :: "u64 \<Rightarrow> bool" where
  "test_routing_policy_enforces_age_sla now =
     (let policy = routing_policy_default\<lparr>rp_max_trustzone_age_seconds := 1\<rparr>;
          service = with_routing_policy policy;
          report = build_simulated_report 0
      in expect_err (verify_trustzone_report now service report) (\<lambda>err.
           case err of PolicyRejected msg \<Rightarrow> sublist ''exceeds SLA'' msg | _ \<Rightarrow> False))"

definition test_batch_verification_mixed_reports :: "u64 \<Rightarrow> u64 \<Rightarrow> u64 \<Rightarrow> bool" where
  "test_batch_verification_mixed_reports now now1 now2 =
     (let service = service_new;
          good = build_simulated_report now;
          bad = \<lparr>tr_tee_type = SGX, tr_attestation_data = [], tr_timestamp = now\<rparr>;
          batch = verify_reports_batch service [(now1, good), (now2, bad)]
      in br_passed batch = 1 \<and> br_failed batch = 1 \<and> length (br_items batch) = 2)"

lemma fresh_ages:
  assumes "unat now' \<le> unat (now :: u64) + 300"
  shows "\<not> 300 < saturating_sub now' now" "\<not> 3600 < saturating_sub now' now"
  using assms by (simp_all add: saturating_sub_le not_less)

lemma sgx_service_tests_pass:
  assumes "unat now' \<le> unat now + 300"
  shows "test_unified_from_sgx simulator now now'"
  using fresh_ages(2) [OF assms]
  by (simp add: test_unified_from_sgx_def enclave_initialize_def get_quote_def when_initialized_def verify_sgx_quote_def
      verify_quote_standard_def quote_verify_eq verifier_new_def quote_policy_default_def unified_of_quote_def
      enforce_policy_def service_new_def routing_policy_default_def max_age_def meets_minimum_def zeros_nonempty Let_def flip: not_less)

lemma not_allowed_text: "sublist ''not allowed'' (''tee type SGX is not allowed by routing policy'')"
  by (simp add: sublist_code)

lemma routing_test_passes: "test_routing_policy_blocks_disallowed_tee simulator now now'"
  using not_allowed_text
  by (simp add: test_routing_policy_blocks_disallowed_tee_def enclave_initialize_def get_quote_def when_initialized_def
      verify_sgx_quote_def verify_quote_standard_def quote_verify_eq unified_of_quote_def enforce_policy_def
      with_routing_policy_def Let_def)

lemma marker_present: "prefix (as_bytes ''TZ-ATTEST'') (as_bytes ''TZ-ATTEST:SIMULATED:OP-TEE'')"
  by simp

lemma trustzone_service_tests_pass:
  assumes "unat now' \<le> unat now + 300"
  shows "test_unified_from_trustzone now now'"
  using fresh_ages(1) [OF assms] marker_present
  by (simp add: test_unified_from_trustzone_def verify_trustzone_report_def tz_verify_def build_simulated_report_def
      service_new_def trustzone_policy_default_def unified_of_trustzone_def enforce_policy_def routing_policy_default_def
      max_age_def meets_minimum_def Let_def not_less del: as_bytes_simps)

lemma unsupported_test_passes: "test_verify_report_rejects_unsupported_tee now"
  by (simp add: test_verify_report_rejects_unsupported_tee_def verify_report_def)

lemma age_sla_test_passes:
  assumes "1 < now"
  shows "test_routing_policy_enforces_age_sla now"
proof -
  have age: "saturating_sub now 0 = now"
    by (simp add: saturating_sub_def)
  have "sublist ''exceeds SLA'' (''evidence age '' @ a @ ''s exceeds SLA '' @ b)" for a b
  proof -
    have "''evidence age '' @ a @ ''s exceeds SLA '' @ b = (''evidence age '' @ a @ ''s '') @ ''exceeds SLA'' @ ('' '' @ b)"
      by simp
    then show ?thesis
      unfolding sublist_def by blast
  qed
  then show ?thesis
    using assms
    by (simp add: test_routing_policy_enforces_age_sla_def verify_trustzone_report_def tz_verify_def
        build_simulated_report_def with_routing_policy_def unified_of_trustzone_def enforce_policy_def
        routing_policy_default_def max_age_def age Let_def del: as_bytes_simps)
qed

lemma batch_test_passes:
  assumes "unat now1 \<le> unat now + 300"
  shows "test_batch_verification_mixed_reports now now1 now2"
  using fresh_ages(1) [OF assms] marker_present
  by (simp add: test_batch_verification_mixed_reports_def verify_reports_batch_def batch_of_def verify_report_def
      verify_trustzone_report_def tz_verify_def build_simulated_report_def service_new_def trustzone_policy_default_def
      unified_of_trustzone_def enforce_policy_def routing_policy_default_def max_age_def meets_minimum_def Let_def
      not_less del: as_bytes_simps)

end
