(* ===== verification/Spec2Isabelle.thy ===== *)
theory Spec2Isabelle
  imports Prelude Keyed_Store Shamir F64 Audit_Log Compliance Revocation Rotation
    Key_Anchor Smart_Contract Dpki Mpc Adv_Sharing Reshare Utf8 Kdf Key_Cache Quantum_Kernel Ml_Dsa
    Persistent_Vault Mcp_Gateway Cli Qkd Json Jwk Did Tee_Common Sgx Sealed_Storage Quote_Verifier
    Sgx_Attestation Trustzone Attestation_Service Zero_Copy Entropy F64_Arith
    Laplace Diff_Privacy Mcp_Book Cli_Store Cli_Signing Sgx_Interface
    Test_Support Tests_Shamir Tests_Adv_Sharing Tests_Mpc Tests_Audit Tests_Registries Tests_Keys Tests_Kernel
    Tests_Ml_Dsa Tests_Batch Tests_Qkd Tests_Interop Tests_Sgx Tests_Tee
begin

text \<open>
  A verification development for the Rust crate abir-guard: key management for software agents with a
  post-quantum vault, secret sharing, an audit trail, registries of keys and trusted-execution
  helpers.  All paths below are under \<open>src/src/\<close>.

  \<^bold>\<open>The program and its parts.\<close>
  The command line (\<open>main.rs\<close>) and the JSON-RPC gateway (\<open>mcp_gateway.rs\<close>) are the two entry points.
  The command line reads and writes the encrypted key files of \<open>persistent_vault.rs\<close>, which derives
  its key with \<open>kdf.rs\<close> and fills the in-memory vault of \<open>quantum_kernel.rs\<close>; the gateway holds one such
  vault.  \<open>ml_dsa.rs\<close> and \<open>performance/batch_ops.rs\<close> sign and verify, \<open>performance/key_cache.rs\<close> memoises
  derived keys, \<open>zero_copy.rs\<close> is a second vault with a cache.  \<open>shamir.rs\<close> shares a secret;
  \<open>advanced_secret_sharing.rs\<close> authenticates, commits to and refreshes shares, and
  \<open>confidential_computing/mpc/mod.rs\<close> collects them in rounds.  \<open>audit/audit_log.rs\<close> is a hash chain over
  which \<open>audit/compliance.rs\<close> evaluates rules; \<open>revocation.rs\<close> and \<open>rotation.rs\<close> keep the life of keys.
  \<open>blockchain/key_anchor.rs\<close> is a registry that \<open>blockchain/smart_contract.rs\<close> and \<open>blockchain/dpki.rs\<close>
  use.  \<open>interop/jwk.rs\<close> and \<open>interop/did.rs\<close> write keys as JSON.  Under \<open>confidential_computing/\<close>, the SGX
  and TrustZone sessions produce quotes, reports and sealed data which the verifiers check and
  \<open>attestation_service/mod.rs\<close> puts under one policy.  \<open>qkd/mod.rs\<close> simulates BB84;
  \<open>entropy_inject.rs\<close> and \<open>differential_privacy.rs\<close> collect jitter and compare without early exit.

  \<^bold>\<open>Theories and sources.\<close>
  \<^item> \<open>Prelude\<close>: byte strings, machine integers, the outcome of a call (\<open>Ok\<close>, \<open>Err\<close>, \<open>Panic\<close>), hash maps;
    \<open>Keyed_Store\<close>: the interface of a keyed store; \<open>F64\<close> and \<open>F64_Arith\<close>: IEEE doubles, their
    comparison, conversion, rounding and arithmetic;
    \<open>Utf8\<close>: \<open>from_utf8\<close> and \<open>from_utf8_lossy\<close>; \<open>Json\<close>: values of \<open>serde_json\<close> and its rules for structures.
  \<^item> \<open>GF251\<close>, \<open>Lagrange\<close>: the field and interpolation over any field; \<open>Shamir\<close>: \<open>shamir.rs\<close>.
  \<^item> \<open>Audit_Log\<close>, \<open>Compliance\<close>, \<open>Revocation\<close>, \<open>Rotation\<close>: the files of these names.
  \<^item> \<open>Anchor_Ledger\<close>: the trait \<open>SmartContractAnchor\<close> as an interface; \<open>Key_Anchor\<close>, \<open>Smart_Contract\<close>, \<open>Dpki\<close>:
    \<open>blockchain/\<close>.
  \<^item> \<open>Commitment\<close>: the interface of a hash commitment; \<open>Mpc\<close>: \<open>confidential_computing/mpc/mod.rs\<close>;
    \<open>Adv_Sharing\<close>: \<open>advanced_secret_sharing.rs\<close>; \<open>Reshare\<close>: its re-sharing applied to the shares of \<open>shamir.rs\<close>.
  \<^item> \<open>Kdf\<close>, \<open>Key_Cache\<close>, \<open>Quantum_Kernel\<close>, \<open>Zero_Copy\<close>, \<open>Persistent_Vault\<close>, \<open>Mcp_Gateway\<close>, \<open>Cli\<close>: the files of
    these names (\<open>Cli\<close> is \<open>main.rs\<close>); \<open>Mcp_Book\<close>: the abstract machine the gateway refines and
    what its sessions keep; \<open>Cli_Store\<close>: the store of keys the command line refines; \<open>Cli_Signing\<close>:
    its signing keys across runs; \<open>Ml_Dsa\<close>: \<open>ml_dsa.rs\<close> and \<open>performance/batch_ops.rs\<close>.
  \<^item> \<open>Qkd\<close>, \<open>Entropy\<close>, \<open>Jwk\<close>, \<open>Did\<close>: \<open>qkd/mod.rs\<close>, \<open>entropy_inject.rs\<close>, \<open>interop/\<close>; \<open>Laplace\<close> and
    \<open>Diff_Privacy\<close>: \<open>differential_privacy.rs\<close>.
  \<^item> \<open>Tee_Common\<close>, \<open>Sgx\<close>, \<open>Sealed_Storage\<close>, \<open>Quote_Verifier\<close>, \<open>Sgx_Attestation\<close>, \<open>Sgx_Interface\<close>,
    \<open>Trustzone\<close>, \<open>Attestation_Service\<close>: \<open>confidential_computing/\<close>.
  \<^item> \<open>Test_Support\<close> and the theories \<open>Tests_*\<close>: the \<open>#[cfg(test)]\<close> modules at the end of the files.  Each unit
    test is a boolean definition of its name that runs it on the model, and a lemma proves that it passes.

  \<^bold>\<open>How the code is rendered.\<close>
  A struct is a record whose field names carry a prefix, an enum a datatype with the source's
  constructors; each function is a definition of the source's name, prefixed where two files share a
  name.  A method that changes \<open>self\<close> returns the state updated.  A \<open>Result\<close> is a sum with the error on
  the left; where the code can panic (an index, an \<open>assert!\<close>, a poisoned lock, a slice of the wrong
  length) the result is an \<open>outcome\<close> and the panic is a value.  The vault behind its mutex carries the
  poison flag, and the disk of the command line is the contents of its two files, with what a failing
  write leaves of them.  Fixed-width
  integers are words, with the wrapping of a release build and the saturating operations written out;
  \<open>usize\<close> is a natural number where it cannot wrap.  A \<open>String\<close> is the list of its UTF-8 bytes.  A
  \<open>HashMap\<close> is an association list with distinct keys, and where the code depends on the iteration
  order the order is a parameter.  Clocks and random draws are arguments.

  \<^bold>\<open>Parameters and what is assumed of them.\<close>
  Code of other crates is an argument: SHA-256, SHA3-512 and HMAC as functions on bytes, Argon2id,
  ML-KEM, AES-GCM, ML-DSA, base64 and the JSON text as records of functions.  Theorems assume what
  their documentation promises and no more: digests of 32 bytes, decoding after encoding, decryption
  after encryption under the same key and nonce, verification after signing, a panic on a nonce that
  is not 12 bytes.  Security claims are stated without an assumption that collisions do not exist: they
  exhibit the collision instead.  Every such theorem has a witness at concrete functions
  (\<open>plain_primitives\<close>, \<open>toy_json\<close> and the like), at which the assumptions are proved.

  \<^bold>\<open>What the lemmas show.\<close>
  \<^item> Secrets: \<open>reconstruct\<close> inverts \<open>split\<close> for every choice of enough shares, through the command line
    too; one share fewer than the threshold rules out the secret itself in every byte; refresh is a counter-mode stream that ends,
    re-sharing always has the outcome stated for it (\<open>reshare_outcome\<close>), and the shares of such a plan reconstruct to
    the secret exactly when the weighted sums of their changes vanish (\<open>reshare_secret_kept_iff\<close>), which nothing
    in the code provides for.
  \<^item> Vaults: what is stored is retrieved across any calls in between, what is persisted is reloaded,
    the gateway answers every request in form and
    refines a book of key names (\<open>mcp_refines_book\<close>), the command line refines a store of keys under every
    sequence of invocations on a working disk (\<open>cli_refines_store\<close>) and panics for the reasons stated there only, so that what was
    encrypted decrypts later through either entry point (\<open>cli_decrypts_later\<close>, \<open>mcp_decrypts_later\<close>), a
    deleted key stays away, and a stored signing key signs and verifies in later runs (\<open>cli_signs_later\<close>), the caches are bounded and transparent, and the panics
    that disable a vault are characterised.
  \<^item> Records and registries: the audit chain is tamper-evident where it hashes, and says nothing of
    what it does not; compliance is equal to its rules stated without loops; revocation, invalidation
    and expiry are final; the simulated contract refines the registry; in the MPC session reveals are
    bound to commitments unless the unguarded \<open>submit_share\<close> is called, the nonce of a message of the current round is never
    accepted again, and enough parties that follow the protocol always finish; here (\<open>dealt_session_recovers_secret\<close>) a session over
    dealt shares recovers the secret or exhibits a collision.
  \<^item> Platforms: the attestation service accepts exactly what its policy says; sealed blobs follow their
    register policy; the command interface of TrustZone seals and unseals over the wire; a quote of
    zeros passes the service (\<open>blank_quote_accepted\<close>), TrustZone's own report does not pass its verifier.
  \<^item> Formats and sources: DID references resolve, JWK and DID documents round-trip where the reader's
    required members allow it, a BB84 session on the XorShift generator always comes to a verdict,
    the Laplace noise is infinite for a known set of draws, and the seed of the entropy collector does not depend on later jitter.

  \<^item> Conformance: the model passes the unit tests of the sources, whatever the crates do within their laws, or
    exhibits a collision on the inputs of the test.  The lemmas say when a test
    depends on its surroundings: the one of the jitter collector fails for exactly one beginning of the
    jitters (\<open>entropy_test_passes_iff\<close>), those of the BB84 simulator with a fixed seed are proved from the report of
    their run, and those that read the clock twice pass while the second reading is close enough to the first.

  \<^bold>\<open>Interfaces.\<close>
  \<open>keyed_store\<close> is interpreted by the vault's key list, the zero-copy vault, the sealed-blob cache and
  hash maps; \<open>anchor_ledger\<close> by the registry and by the simulated contract; \<open>hash_commitment\<close> by the MPC
  session and by the share commitments; \<open>entropy_source\<close> by the XorShift generator.

  \<^bold>\<open>Loops.\<close>
  Loops over data are structural recursion or folds; \<open>gf_inv_loop\<close>, \<open>bit_length\<close> and the UTF-8 scanners
  have termination proofs; the mask loop of the refresh, whose counter saturates, is a partial function
  with value \<open>None\<close> when it does not end, and it is proved to end for every length a machine can hold.
  No definition that models code uses fuel; only the demonstration readers of the witnesses do, and
  their fuel is the depth or the length they print first.

  \<^bold>\<open>Not modelled.\<close>
  \<^item> \<open>lib.rs\<close> and the \<open>mod.rs\<close> files of \<open>audit\<close>, \<open>blockchain\<close>, \<open>interop\<close>, \<open>performance\<close>: re-exports
    (the test at the end of \<open>lib.rs\<close> is translated).
  \<^item> A failure of the operating system's random source, which makes \<open>getrandom::fill(..).expect(..)\<close> panic in the
    functions that draw bytes: the bytes drawn are total arguments.  The \<open>Debug\<close> form of the errors of other
    crates at the end of two panic messages of \<open>main.rs\<close>.
  \<^item> What a panic does to the process.  In the model a panic is the value of the call that panics, as in a build that
    unwinds; the release profile sets \<open>panic = "abort"\<close>, so there a panic ends the program and nothing
    follows it.
  \<^item> Argument parsing (clap), the text of \<open>serde_json\<close>, timing as a side channel, threads, and
    zeroisation of memory, which leaves no trace in a value.
  \<^item> The SDKs in other languages, the documentation, and the Python tests under \<open>tests/\<close>.
\<close>

section \<open>Sharing and the multi-party session\<close>

lemma opened_as_dealt:
  assumes "list_all (\<lambda>c. \<not> is_bare_share c) (before @ after)"
    and "hm_get (ms_commitments (mpc_run sha before (mpc_new pol))) p = Some (sha x)"
    and "hm_get (ms_shares (mpc_run sha (before @ after) (mpc_new pol))) p = Some y"
  shows "sha y = sha x"
proof -
  have "hm_get (ms_commitments (mpc_run sha (before @ after) (mpc_new pol))) p = Some (sha x)"
    using commitment_kept [OF assms(2), of sha after] by (simp add: mpc_run_def)
  then show ?thesis
    using shares_committed_run [OF assms(1) shares_committed_new, of sha pol] assms(3)
    by (auto simp: shares_committed_def commitment_for_def)
qed

text \<open>
  C14. A commit-and-reveal session recovers a dealt secret or catches the cheat.  A secret is split and
  every party is given one share as text, to which it commits.  Whatever calls follow, as long as none
  is the unguarded \<open>submit_share\<close>, any threshold-many parties whose shares the session holds give, when
  their texts are decoded and reconstructed in any order, exactly the secret; the alternative is a
  collision of SHA-256 between a share the session holds and the text that was dealt.
\<close>

theorem dealt_session_recovers_secret:
  assumes "split secret threshold n rand = Ok shares" "\<And>x. b64_decode (b64_encode x) = Inr x"
    and "list_all (\<lambda>c. \<not> is_bare_share c) (before @ after)"
    and "s = mpc_run sha (before @ after) (mpc_new pol)"
    and "distinct ps" "threshold \<le> length ps" "inj_on dealt (set ps)" "dealt ` set ps \<subseteq> set shares"
    and "\<And>p. p \<in> set ps \<Longrightarrow> hm_get (ms_commitments (mpc_run sha before (mpc_new pol))) p =
        Some (sha (as_bytes (encode_share b64_encode (dealt p))))"
    and "\<And>p. p \<in> set ps \<Longrightarrow> hm_contains (ms_shares s) p"
  shows "(case decode_shares b64_decode (map (\<lambda>p. bytes_to_string (the (hm_get (ms_shares s) p))) ps) of
      Inl e \<Rightarrow> False | Inr collected \<Rightarrow> reconstruct collected = Ok secret) \<or>
    (\<exists>p \<in> set ps. \<exists>x. hm_get (ms_shares s) p = Some x \<and>
      x \<noteq> as_bytes (encode_share b64_encode (dealt p)) \<and> sha x = sha (as_bytes (encode_share b64_encode (dealt p))))"
proof (cases "\<forall>p \<in> set ps. hm_get (ms_shares s) p = Some (as_bytes (encode_share b64_encode (dealt p)))")
  case True
  then have "map (\<lambda>p. bytes_to_string (the (hm_get (ms_shares s) p))) ps = encode_shares b64_encode (map dealt ps)"
    by (simp add: encode_shares_def)
  moreover have "decode_shares b64_decode (encode_shares b64_encode (map dealt ps)) = Inr (map dealt ps)"
    using assms(2) by (intro decode_encode_shares_core) simp
  moreover have "reconstruct (map dealt ps) = Ok secret"
    using assms(5-8) by (intro reconstruct_split_core [OF assms(1)]) (simp_all add: distinct_map)
  ultimately show ?thesis
    by simp
next
  case False
  then obtain p where p: "p \<in> set ps" "hm_get (ms_shares s) p \<noteq> Some (as_bytes (encode_share b64_encode (dealt p)))"
    by blast
  moreover obtain x where x: "hm_get (ms_shares s) p = Some x"
    using assms(10) [OF p(1)] by (auto simp: hm_contains_def)
  moreover have "sha x = sha (as_bytes (encode_share b64_encode (dealt p)))"
    using opened_as_dealt [OF assms(3) assms(9) [OF p(1)]] x assms(4) by simp
  ultimately show ?thesis
    by auto
qed

definition demo_deal :: "string \<Rightarrow> share" where
  "demo_deal p = (if p = ''a'' then \<lparr>sh_index = 1, sh_data = [114, 115]\<rparr> else \<lparr>sh_index = 3, sh_data = [134, 135]\<rparr>)"

definition demo_text :: "string \<Rightarrow> bytes" where
  "demo_text p = as_bytes (encode_share bytes_to_string (demo_deal p))"

definition demo_before :: "mpc_call list" where
  "demo_before = [CallRegister ''a'', CallRegister ''b'',
     CallCommit \<lparr>cs_party_id = ''a'', cs_commitment = demo_text ''a'', cs_nonce = 1, cs_round = 1\<rparr>,
     CallCommit \<lparr>cs_party_id = ''b'', cs_commitment = demo_text ''b'', cs_nonce = 2, cs_round = 1\<rparr>]"

definition demo_after :: "mpc_call list" where
  "demo_after =
     [CallReveal \<lparr>rs_party_id = ''b'', rs_share = demo_text ''b'', rs_nonce = 3, rs_round = 1\<rparr>, CallAdvance,
      CallReveal \<lparr>rs_party_id = ''a'', rs_share = [0], rs_nonce = 4, rs_round = 2\<rparr>,
      CallReveal \<lparr>rs_party_id = ''a'', rs_share = demo_text ''a'', rs_nonce = 5, rs_round = 2\<rparr>]"

definition demo_policy :: mpc_policy where
  "demo_policy = \<lparr>mp_total_parties = 2, mp_threshold = 2, mp_max_rounds = 3\<rparr>"

lemma demo_text_nonzero: "demo_text p \<noteq> [0]"
proof -
  have "length (demo_text p) \<noteq> 1"
    by (simp add: demo_text_def encode_share_def as_bytes_def demo_deal_def bytes_to_string_def)
  then show ?thesis
    by auto
qed

lemma demo_guarded: "list_all (\<lambda>c. \<not> is_bare_share c) demo_before" "list_all (\<lambda>c. \<not> is_bare_share c) demo_after"
  by (simp_all add: demo_before_def demo_after_def)

lemma demo_committed:
  "p = ''b'' \<or> p = ''a'' \<Longrightarrow> hm_get (ms_commitments (mpc_run (\<lambda>x. x) demo_before (mpc_new demo_policy))) p = Some (demo_text p)"
  by (elim disjE) (simp_all add: demo_before_def demo_policy_def mpc_run_eval)

lemma demo_revealed:
  "p = ''b'' \<or> p = ''a'' \<Longrightarrow>
    hm_get (ms_shares (mpc_run (\<lambda>x. x) (demo_before @ demo_after) (mpc_new demo_policy))) p = Some (demo_text p)"
  by (elim disjE) (simp_all add: demo_before_def demo_after_def demo_policy_def mpc_run_eval demo_text_nonzero)

theorem dealt_session_recovers_secret_witness:
  "\<exists>collected. decode_shares (\<lambda>t. Inr (as_bytes t) :: unit + bytes) (map (\<lambda>p. bytes_to_string (the (hm_get
       (ms_shares (mpc_run (\<lambda>x. x) (demo_before @ demo_after) (mpc_new demo_policy))) p))) [''b'', ''a'']) = Inr collected \<and>
     reconstruct collected = Ok [104, 105]"
proof -
  let ?s = "mpc_run (\<lambda>x. x) (demo_before @ demo_after) (mpc_new demo_policy)"
  have "(case decode_shares (\<lambda>t. Inr (as_bytes t) :: unit + bytes)
        (map (\<lambda>p. bytes_to_string (the (hm_get (ms_shares ?s) p))) [''b'', ''a'']) of
      Inl e \<Rightarrow> False | Inr collected \<Rightarrow> reconstruct collected = Ok [104, 105]) \<or>
    (\<exists>p \<in> set [''b'', ''a'']. \<exists>x. hm_get (ms_shares ?s) p = Some x \<and>
      x \<noteq> as_bytes (encode_share bytes_to_string (demo_deal p)) \<and>
      x = as_bytes (encode_share bytes_to_string (demo_deal p)))"
    by (rule dealt_session_recovers_secret [OF split_example, where before = demo_before and after = demo_after])
      (simp_all add: demo_revealed demo_committed demo_guarded demo_text_def [symmetric] hm_contains_def,
        simp_all add: demo_deal_def demo_committed)
  then show ?thesis
    by (auto split: sum.splits)
qed

section \<open>The enclave and the attestation service\<close>

text \<open>
  A blank quote passes the attestation service.  The quote a simulated enclave produces is all zero
  bytes, signature included; up to an hour after the time it carries the service with its default
  policies accepts it with the trust level \<open>High\<close>, and later it refuses it for its age alone.
\<close>

theorem blank_quote_accepted:
  assumes "enclave_initialize simulator config = Inr e" "get_quote t e = Inr q"
  shows "list_all ((=) 0) (qu_quote q @ qu_signature q) \<and>
    (case verify_sgx_quote now service_new q of
       Inl err \<Rightarrow> unat t + 3600 < unat now
     | Inr r \<Rightarrow> unat now \<le> unat t + 3600 \<and> ur_trust_level r = High)"
proof -
  have q: "qu_timestamp q = t" "qu_signature q = zeros 256" "qu_quote q = zeros 1024"
    using assms by (auto simp: get_quote_def when_initialized_def enclave_initialize_def split: if_splits)
  have "zeros 256 \<noteq> []"
    by (simp add: zeros_def)
  have "(\<exists>r. verify_sgx_quote now service_new q = Inr r) \<longleftrightarrow> unat now \<le> unat t + 3600"
    using q \<open>zeros 256 \<noteq> []\<close> by (simp add: verify_sgx_quote_Inr service_new_def routing_policy_default_def)
  moreover have "ur_trust_level r = High" if "verify_sgx_quote now service_new q = Inr r" for r
    using that q \<open>zeros 256 \<noteq> []\<close>
    by (auto simp: verify_sgx_quote_def verify_quote_standard_def quote_verify_eq verifier_new_def Let_def
        enforce_policy_Inr unified_of_quote_def)
  ultimately show ?thesis
    using q by (auto simp: zeros_def list_all_iff not_le split: sum.splits)
qed

theorem blank_quote_accepted_witness:
  "\<exists>e q r. enclave_initialize True config_dcap = Inr e \<and> get_quote 0 e = Inr q \<and>
     list_all ((=) 0) (qu_signature q) \<and> verify_sgx_quote 100 service_new q = Inr r \<and> ur_trust_level r = High"
proof -
  obtain e q where e: "enclave_initialize True config_dcap = Inr e" "get_quote 0 e = Inr q"
    by (simp add: enclave_initialize_def get_quote_def when_initialized_def)
  show ?thesis
    using blank_quote_accepted [OF e, of 100] e by (auto split: sum.splits)
qed

end
